(* ===== verification/Prelude.thy ===== *)
theory Prelude
  imports Main "HOL-Library.Word" "HOL-Library.Monad_Syntax" "HOL-Library.While_Combinator"
begin

text \<open>
  The vocabulary the components share: the machine integers of the C++ code, raw arrays as
  \<open>new T[n]\<close> makes them (cells that may be uninitialised, accesses that may be out of
  bounds), and generic facts on lists, options and powers of two.
  An operation that can hit undefined behaviour or a failed \<open>assert\<close> returns an option,
  with \<open>None\<close> for that outcome.
\<close>

unbundle bit_operations_syntax

named_theorems buffer_simps \<open>evaluation of accesses to raw arrays\<close>

section \<open>Machine integers\<close>

type_synonym u8 = "8 word"
type_synonym u16 = "16 word"
type_synonym u32 = "32 word"
type_synonym u64 = "64 word"
type_synonym byte = "8 word"

section \<open>Raw arrays\<close>

text \<open>\<open>new T[n]\<close> of a plain type: n cells, none initialised.\<close>

type_synonym 'a buffer = "'a option list"

definition new_buffer :: "nat \<Rightarrow> 'a buffer" where
  "new_buffer n = replicate n None"

definition buf_read :: "'a buffer \<Rightarrow> nat \<Rightarrow> 'a option" where
  "buf_read b i = (if i < length b then b ! i else None)"

definition buf_write :: "'a buffer \<Rightarrow> nat \<Rightarrow> 'a \<Rightarrow> 'a buffer option" where
  "buf_write b i x = (if i < length b then Some (b[i := Some x]) else None)"

text \<open>\<open>memcpy(dst, src, n * sizeof(T))\<close> between two arrays.\<close>

definition buf_memcpy :: "'a buffer \<Rightarrow> 'a buffer \<Rightarrow> nat \<Rightarrow> 'a buffer option" where
  "buf_memcpy dst src n =
     (if n \<le> length dst \<and> n \<le> length src then Some (take n src @ drop n dst) else None)"

lemma length_new_buffer [simp]: "length (new_buffer n) = n"
  by (simp add: new_buffer_def)

lemma buf_write_in [buffer_simps]: "i < length b \<Longrightarrow> buf_write b i x = Some (b[i := Some x])"
  by (simp add: buf_write_def)

lemma buf_read_in [buffer_simps]: "i < length b \<Longrightarrow> buf_read b i = b ! i"
  by (simp add: buf_read_def)

lemma buf_memcpy_in [buffer_simps]:
  "n \<le> length dst \<Longrightarrow> n \<le> length src \<Longrightarrow>
   buf_memcpy dst src n = Some (take n src @ drop n dst)"
  by (simp add: buf_memcpy_def)

lemma take_Suc_update:
  "n < length b \<Longrightarrow> take (Suc n) (b[n := x]) = take n b @ [x]"
  by (simp add: take_Suc_conv_app_nth)

section \<open>Loops over a list that may fail\<close>

primrec mfold :: "('s \<Rightarrow> 'a \<Rightarrow> 's option) \<Rightarrow> 's \<Rightarrow> 'a list \<Rightarrow> 's option" where
  "mfold f s [] = Some s"
| "mfold f s (x # xs) = do { s' \<leftarrow> f s x; mfold f s' xs }"

lemma mfold_append: "mfold f s (xs @ ys) = do { s' \<leftarrow> mfold f s xs; mfold f s' ys }"
  by (induction xs arbitrary: s) (auto simp: Option.bind_assoc)

text \<open>A loop that appends the result of each iteration.\<close>

lemma mfold_collect_Suc:
  "mfold (\<lambda>xs i. map_option (\<lambda>x. xs @ [x]) (f i)) [] [0..<Suc n] =
   do { xs \<leftarrow> mfold (\<lambda>xs i. map_option (\<lambda>x. xs @ [x]) (f i)) [] [0..<n];
        map_option (\<lambda>x. xs @ [x]) (f n) }"
  by (simp add: mfold_append)

lemma mfold_collect:
  assumes "mfold (\<lambda>xs i. map_option (\<lambda>x. xs @ [x]) (f i)) [] [0..<n] = Some xs"
  shows "length xs = n \<and> (\<forall>i<n. f i = Some (xs ! i))"
  using assms
proof (induction n arbitrary: xs)
  case (Suc n)
  from Suc.prems obtain ys y
    where y: "mfold (\<lambda>xs i. map_option (\<lambda>x. xs @ [x]) (f i)) [] [0..<n] = Some ys"
      "f n = Some y" "xs = ys @ [y]"
    unfolding mfold_collect_Suc by (auto simp: Option.bind_eq_Some_conv)
  from Suc.IH [OF y(1)] y(2,3) show ?case by (auto simp: nth_append less_Suc_eq)
qed simp

lemma mfold_collect_total:
  assumes "\<And>i. i < n \<Longrightarrow> f i \<noteq> None"
  shows "\<exists>xs. mfold (\<lambda>xs i. map_option (\<lambda>x. xs @ [x]) (f i)) [] [0..<n] = Some xs"
  using assms
proof (induction n)
  case (Suc n)
  then obtain ys where "mfold (\<lambda>xs i. map_option (\<lambda>x. xs @ [x]) (f i)) [] [0..<n] = Some ys"
    by fastforce
  moreover obtain y where "f n = Some y" using Suc.prems [of n] by auto
  ultimately show ?case unfolding mfold_collect_Suc by simp
qed simp

section \<open>Sums over an updated list\<close>

lemma sum_list_map_update:
  fixes f :: "'a \<Rightarrow> 'b :: comm_monoid_add"
  shows "i < length xs \<Longrightarrow>
    sum_list (map f (xs[i := x])) + f (xs ! i) = sum_list (map f xs) + f x"
proof (induction xs arbitrary: i)
  case (Cons y ys)
  then show ?case by (cases i) (simp_all add: ac_simps)
qed simp

lemma sum_list_map_0:
  fixes f :: "'a \<Rightarrow> 'b :: comm_monoid_add"
  shows "(\<And>x. x \<in> set xs \<Longrightarrow> f x = 0) \<Longrightarrow> sum_list (map f xs) = 0"
  by (induction xs) simp_all

section \<open>Powers of two\<close>

lemma mod_pow2_mod:
  fixes a :: nat
  assumes "m \<le> n"
  shows "(a mod 2 ^ n) mod 2 ^ m = a mod 2 ^ m"
  using assms by (simp add: mod_mod_cancel le_imp_power_dvd)

lemma mod_add_cancel_left_nat:
  fixes s i j n :: nat
  shows "(s + i) mod n = (s + j) mod n \<longleftrightarrow> i mod n = j mod n"
proof -
  have "(s + i) mod n = (s + j) mod n \<longleftrightarrow>
      (int s + int i) mod int n = (int s + int j) mod int n"
    by (metis of_nat_add of_nat_eq_iff of_nat_mod)
  also have "\<dots> \<longleftrightarrow> int i mod int n = int j mod int n"
    by (simp add: mod_eq_dvd_iff)
  also have "\<dots> \<longleftrightarrow> i mod n = j mod n"
    by (metis of_nat_eq_iff of_nat_mod)
  finally show ?thesis .
qed

lemma bit_nat_between:
  fixes n :: nat
  assumes "2 ^ k \<le> n" and "n < 2 ^ Suc k"
  shows "bit n k"
proof -
  have "n div 2 ^ k = 1"
    using assms by (simp add: div_nat_eqI)
  then show ?thesis by (simp add: bit_iff_odd)
qed

lemma ex_pow2_bracket:
  fixes n :: nat
  assumes "0 < n"
  obtains k where "2 ^ k \<le> n" and "n < 2 ^ Suc k"
  using assms ex_power_ivl1 [of 2 n] by auto

lemma unat_push_bit:
  fixes w :: u64
  assumes "unat w * 2 ^ k < 2 ^ 64"
  shows "unat (push_bit k w) = unat w * 2 ^ k"
proof -
  have "unat (push_bit k w) = take_bit 64 (unat w * 2 ^ k)"
    by (subst unsigned_push_bit_eq) (simp add: push_bit_eq_mult)
  with assms show ?thesis by (simp only: take_bit_eq_mod mod_less)
qed

lemma unat_push_bit_1:
  assumes "k < 64"
  shows "unat (push_bit k (1::u64)) = 2 ^ k"
proof -
  from assms have "unat (1::u64) * 2 ^ k < 2 ^ 64"
    by (simp only: unsigned_1 mult_1 power_strict_increasing_iff)
  then show ?thesis by (subst unat_push_bit) simp_all
qed

text \<open>The bit trick \<open>n & (n - 1)\<close>: zero exactly for powers of two.\<close>

lemma and_pred_eq_0_iff:
  fixes n :: nat
  assumes "0 < n"
  shows "n AND (n - 1) = 0 \<longleftrightarrow> (\<exists>k. n = 2 ^ k)"
proof
  assume "\<exists>k. n = 2 ^ k"
  then obtain k where n: "n = 2 ^ k" ..
  have "n AND (n - 1) = take_bit k (2 ^ k :: nat)"
    by (simp add: n take_bit_eq_mask mask_eq_exp_minus_1)
  then show "n AND (n - 1) = 0" by simp
next
  assume zero: "n AND (n - 1) = 0"
  obtain k where k: "2 ^ k \<le> n" "n < 2 ^ Suc k"
    using assms by (rule ex_pow2_bracket)
  have "n = 2 ^ k"
  proof (rule ccontr)
    assume "n \<noteq> 2 ^ k"
    with k have "2 ^ k \<le> n - 1" and "n - 1 < 2 ^ Suc k" by auto
    then have "bit (n - 1) k" by (rule bit_nat_between)
    with bit_nat_between [OF k] have "bit (n AND (n - 1)) k"
      by (simp add: bit_and_iff)
    with zero show False by simp
  qed
  then show "\<exists>k. n = 2 ^ k" ..
qed

end
