(* ===== verification/EndpointList.thy ===== *)
theory EndpointList
  imports Prelude
begin

text \<open>
  \<^verbatim>\<open>src/hyperrpc/endpoint_list.{h,cc}\<close>: the list of endpoints of an RPC, three cells inline and
  the rest in a heap array that doubles. The model keeps the representation (size, inline
  cells, owned heap array or null); every array access is checked, so \<open>None\<close> is an access
  outside an array, through the null pointer, to an uninitialised cell, or a failed assert.
  The invariant \<open>el_wf\<close> and the abstraction \<open>el_list\<close> give the contract: the
  operations are those of a list of addresses and never leave their arrays.
\<close>

section \<open>Data\<close>

text \<open>
  \<open>hudp::Addr\<close> is used through its accessors \<open>ip()\<close>, \<open>port()\<close> and the constructor from the
  two values: an address is the pair of them.
\<close>

type_synonym Addr = "u32 \<times> u16"

record Endpoint =
  ip :: u32
  port :: u16

definition kListCacheSize :: nat where
  "kListCacheSize = 3"

definition kListInHeapInitSize :: nat where
  "kListInHeapInitSize = push_bit 2 1"

record EndpointList =
  el_size :: nat
  list_cache :: "Endpoint buffer"
  list_in_heap :: "Endpoint buffer option"

section \<open>Operations\<close>

definition EndpointList_init :: EndpointList where
  "EndpointList_init =
     \<lparr>el_size = 0, list_cache = new_buffer kListCacheSize, list_in_heap = None\<rparr>"

definition el_empty :: "EndpointList \<Rightarrow> bool" where
  "el_empty l \<longleftrightarrow> el_size l = 0"

definition Clear :: "EndpointList \<Rightarrow> EndpointList" where
  "Clear l = l\<lparr>list_in_heap := None, el_size := 0\<rparr>"

definition PushBack :: "EndpointList \<Rightarrow> Addr \<Rightarrow> EndpointList option" where
  "PushBack l endpoint =
     (let slot = \<lparr>ip = fst endpoint, port = snd endpoint\<rparr> in
      if el_size l < kListCacheSize then do {
        cache \<leftarrow> buf_write (list_cache l) (el_size l) slot;
        Some (l\<lparr>list_cache := cache, el_size := el_size l + 1\<rparr>)
      } else do {
        let n = el_size l - kListCacheSize;
        heap \<leftarrow>
          (if n = 0 then Some (new_buffer kListInHeapInitSize)
           else if kListInHeapInitSize \<le> n \<and> n AND (n - 1) = 0 then do {
             old \<leftarrow> list_in_heap l;
             buf_memcpy (new_buffer (push_bit 1 n)) old n
           }
           else list_in_heap l);
        heap' \<leftarrow> buf_write heap n slot;
        Some (l\<lparr>list_in_heap := Some heap', el_size := el_size l + 1\<rparr>)
      })"

definition GetEndpoint :: "EndpointList \<Rightarrow> nat \<Rightarrow> Addr option" where
  "GetEndpoint l index =
     (if \<not> index < el_size l then None
      else if index < kListCacheSize then do {
        e \<leftarrow> buf_read (list_cache l) index;
        Some (ip e, port e)
      } else do {
        heap \<leftarrow> list_in_heap l;
        e \<leftarrow> buf_read heap (index - kListCacheSize);
        Some (ip e, port e)
      })"

text \<open>The loop of the copy constructor that finds the capacity of the new heap array.\<close>

definition heap_capacity :: "nat \<Rightarrow> nat" where
  "heap_capacity n = while (\<lambda>capacity. capacity < n) (push_bit 1) kListInHeapInitSize"

definition copy_cache :: "EndpointList \<Rightarrow> Endpoint buffer" where
  "copy_cache other =
     map (\<lambda>i. if i < el_size other then list_cache other ! i else None) [0..<kListCacheSize]"

definition EndpointList_copy :: "EndpointList \<Rightarrow> EndpointList option" where
  "EndpointList_copy other = do {
     heap \<leftarrow>
       (if kListCacheSize < el_size other then do {
          let n = el_size other - kListCacheSize;
          src \<leftarrow> list_in_heap other;
          dst \<leftarrow> buf_memcpy (new_buffer (heap_capacity n)) src n;
          Some (Some dst)
        } else Some None);
     Some \<lparr>el_size = el_size other, list_cache = copy_cache other, list_in_heap = heap\<rparr>
   }"

text \<open>The move constructor: the new object and what is left of the old one.\<close>

definition EndpointList_move :: "EndpointList \<Rightarrow> EndpointList \<times> EndpointList" where
  "EndpointList_move other =
     (\<lparr>el_size = el_size other, list_cache = copy_cache other,
       list_in_heap = list_in_heap other\<rparr>,
      other\<lparr>list_in_heap := None, el_size := 0\<rparr>)"

text \<open>
  The assignment operators destroy \<open>*this\<close> and construct it again in place from \<open>other\<close>.
  Objects are named by \<open>'o\<close>, so that \<open>this\<close> and \<open>other\<close> may be the same object.
\<close>

definition assign_copy ::
  "('o \<Rightarrow> EndpointList) \<Rightarrow> 'o \<Rightarrow> 'o \<Rightarrow> ('o \<Rightarrow> EndpointList) option" where
  "assign_copy objs this other = do {
     let objs1 = objs(this := Clear (objs this));
     new \<leftarrow> EndpointList_copy (objs1 other);
     Some (objs1(this := new))
   }"

definition assign_move ::
  "('o \<Rightarrow> EndpointList) \<Rightarrow> 'o \<Rightarrow> 'o \<Rightarrow> ('o \<Rightarrow> EndpointList)" where
  "assign_move objs this other =
     (let objs1 = objs(this := Clear (objs this));
          (new, old) = EndpointList_move (objs1 other)
      in objs1(this := new, other := old))"

section \<open>Capacity of the heap array\<close>

definition capacity_for :: "nat \<Rightarrow> nat \<Rightarrow> bool" where
  "capacity_for n c \<longleftrightarrow> (\<exists>k\<ge>2. c = 2 ^ k) \<and> n \<le> c \<and> (c = 4 \<or> c < 2 * n)"

lemma capacity_for_le:
  assumes c: "capacity_for n c" and d: "capacity_for n d"
  shows "c \<le> d"
proof -
  from d obtain k where k: "d = 2 ^ k" "2 \<le> k" "n \<le> d" by (auto simp: capacity_for_def)
  then have "2 ^ 2 \<le> d" by (simp only: k power_increasing one_le_numeral)
  moreover have "c \<le> d" if "c < 2 * n"
  proof -
    from c obtain j where j: "c = 2 ^ j" by (auto simp: capacity_for_def)
    with that k have "(2::nat) ^ j < 2 ^ Suc k" by simp
    then have "j \<le> k" by (simp del: power_Suc)
    with j k show ?thesis by simp
  qed
  ultimately show ?thesis using c by (auto simp: capacity_for_def)
qed

lemma capacity_for_unique: "capacity_for n c \<Longrightarrow> capacity_for n d \<Longrightarrow> c = d"
  by (simp add: capacity_for_le le_antisym)

lemma heap_capacity_for: "capacity_for n (heap_capacity n)"
  unfolding heap_capacity_def
proof (rule while_rule [where P = "\<lambda>c. (\<exists>k\<ge>2. c = 2 ^ k) \<and> (c = 4 \<or> c < 2 * n)"
      and r = "measure (\<lambda>c. n - c)"])
  show "(\<exists>k\<ge>2. kListInHeapInitSize = 2 ^ k) \<and>
      (kListInHeapInitSize = 4 \<or> kListInHeapInitSize < 2 * n)"
    by (auto simp: kListInHeapInitSize_def push_bit_eq_mult intro!: exI [of _ 2])
next
  fix c assume c: "(\<exists>k\<ge>2. c = 2 ^ k) \<and> (c = 4 \<or> c < 2 * n)" "c < n"
  then obtain k where "2 \<le> k" "c = 2 ^ k" by blast
  then have "push_bit 1 c = 2 ^ Suc k" by (simp add: push_bit_eq_mult)
  with \<open>2 \<le> k\<close> c show "(\<exists>k\<ge>2. push_bit 1 c = 2 ^ k) \<and> (push_bit 1 c = 4 \<or> push_bit 1 c < 2 * n)"
    by (auto simp: push_bit_eq_mult intro!: exI [of _ "Suc k"])
  from c have "0 < c" by auto
  with c show "(push_bit 1 c, c) \<in> measure (\<lambda>c. n - c)"
    by (simp add: push_bit_eq_mult diff_less_mono2)
qed (auto simp: capacity_for_def)

lemma heap_capacity_eqI: "capacity_for n c \<Longrightarrow> heap_capacity n = c"
  using capacity_for_unique heap_capacity_for by blast

lemma le_heap_capacity: "n \<le> heap_capacity n"
  using heap_capacity_for [of n] by (simp add: capacity_for_def)

lemma heap_capacity_1: "heap_capacity (Suc 0) = 4"
  by (rule heap_capacity_eqI) (auto simp: capacity_for_def intro!: exI [of _ 2])

text \<open>The test in \<open>PushBack\<close> finds exactly the sizes at which the array is full.\<close>

lemma full_iff_pow2:
  assumes "0 < n"
  shows "4 \<le> n \<and> n AND (n - 1) = 0 \<longleftrightarrow> heap_capacity n = n"
proof
  assume *: "4 \<le> n \<and> n AND (n - 1) = 0"
  then obtain k where k: "n = 2 ^ k" using assms and_pred_eq_0_iff by blast
  have "2 \<le> k"
  proof (rule ccontr)
    assume "\<not> 2 \<le> k"
    then have "k = 0 \<or> k = 1" by auto
    with * k show False by auto
  qed
  with k * show "heap_capacity n = n"
    by (intro heap_capacity_eqI) (auto simp: capacity_for_def)
next
  assume "heap_capacity n = n"
  with heap_capacity_for [of n] obtain k where k: "2 \<le> k" "n = 2 ^ k"
    by (auto simp: capacity_for_def)
  then have "(2::nat) ^ 2 \<le> n" by (simp only: k power_increasing one_le_numeral)
  with k assms show "4 \<le> n \<and> n AND (n - 1) = 0"
    using and_pred_eq_0_iff by auto
qed

lemma heap_capacity_grow:
  assumes "0 < n" and "heap_capacity n = n"
  shows "heap_capacity (Suc n) = push_bit 1 n"
proof (rule heap_capacity_eqI)
  from heap_capacity_for [of n] assms obtain k where "2 \<le> k" "n = 2 ^ k"
    by (auto simp: capacity_for_def)
  then have "2 \<le> Suc k" "push_bit 1 n = 2 ^ Suc k" by (auto simp: push_bit_eq_mult)
  with assms show "capacity_for (Suc n) (push_bit 1 n)"
    by (auto simp: capacity_for_def push_bit_eq_mult intro!: exI [of _ "Suc k"])
qed

lemma heap_capacity_keep:
  assumes "0 < n" and "heap_capacity n \<noteq> n"
  shows "n < heap_capacity n" and "heap_capacity (Suc n) = heap_capacity n"
proof -
  show less: "n < heap_capacity n" using assms le_heap_capacity [of n] by simp
  show "heap_capacity (Suc n) = heap_capacity n"
    using heap_capacity_for [of n] less
    by (intro heap_capacity_eqI) (auto simp: capacity_for_def)
qed

section \<open>Invariant and abstraction\<close>

definition el_cells :: "EndpointList \<Rightarrow> Endpoint buffer" where
  "el_cells l = take (el_size l)
     (list_cache l @ (case list_in_heap l of None \<Rightarrow> [] | Some h \<Rightarrow> h))"

definition ep_addr :: "Endpoint \<Rightarrow> Addr" where
  "ep_addr e = (ip e, port e)"

definition el_list :: "EndpointList \<Rightarrow> Addr list" where
  "el_list l = map (ep_addr \<circ> the) (el_cells l)"

definition el_wf :: "EndpointList \<Rightarrow> bool" where
  "el_wf l \<longleftrightarrow>
     length (list_cache l) = kListCacheSize \<and>
     None \<notin> set (el_cells l) \<and>
     (if el_size l \<le> kListCacheSize then list_in_heap l = None
      else map_option length (list_in_heap l) = Some (heap_capacity (el_size l - kListCacheSize)))"

lemma kListCacheSize_3 [simp]: "kListCacheSize = 3"
  by (simp add: kListCacheSize_def)

lemma kListInHeapInitSize_4 [simp]: "kListInHeapInitSize = 4"
  by (simp add: kListInHeapInitSize_def push_bit_eq_mult)

lemma length_el_cells: "el_wf l \<Longrightarrow> length (el_cells l) = el_size l"
  using le_heap_capacity [of "el_size l - 3"]
  by (auto simp: el_wf_def el_cells_def split: if_splits)

lemma length_el_list [simp]: "el_wf l \<Longrightarrow> length (el_list l) = el_size l"
  by (simp add: el_list_def length_el_cells)

lemma el_wf_small:
  "el_size l \<le> 3 \<Longrightarrow> el_wf l \<longleftrightarrow> length (list_cache l) = 3 \<and> list_in_heap l = None \<and>
     None \<notin> set (take (el_size l) (list_cache l))"
  by (auto simp: el_wf_def el_cells_def)

lemma el_wf_largeE:
  assumes "el_wf l" and "3 < el_size l"
  obtains h where "list_in_heap l = Some h" "length (list_cache l) = 3"
    "length h = heap_capacity (el_size l - 3)" "el_size l - 3 \<le> length h"
    "el_cells l = list_cache l @ take (el_size l - 3) h"
  using assms le_heap_capacity [of "el_size l - 3"]
  by (auto simp: el_wf_def el_cells_def)

lemma el_wf_init: "el_wf EndpointList_init" "el_list EndpointList_init = []"
  by (simp_all add: el_wf_small EndpointList_init_def el_list_def el_cells_def)

lemma el_wf_Clear: "el_wf l \<Longrightarrow> el_wf (Clear l)" "el_list (Clear l) = []"
  by (simp_all add: el_wf_def Clear_def el_list_def el_cells_def)

lemma el_empty_iff: "el_wf l \<Longrightarrow> el_empty l \<longleftrightarrow> el_list l = []"
  by (metis el_empty_def length_0_conv length_el_list)

text \<open>\<open>GetEndpoint\<close> reads the list; it fails exactly where the assert does.\<close>

lemma GetEndpoint_eq:
  assumes "el_wf l"
  shows "GetEndpoint l i = (if i < el_size l then Some (el_list l ! i) else None)"
proof (cases "i < el_size l")
  case in_range: True
  from assms in_range have ne: "el_cells l ! i \<noteq> None"
    by (metis el_wf_def length_el_cells nth_mem)
  from assms in_range have nth: "el_list l ! i = ep_addr (the (el_cells l ! i))"
    by (simp add: el_list_def length_el_cells)
  show ?thesis
  proof (cases "i < 3")
    case True
    with assms in_range have "el_cells l ! i = list_cache l ! i" "i < length (list_cache l)"
      by (auto simp: el_wf_def el_cells_def nth_append)
    with ne nth in_range True show ?thesis
      by (auto simp: GetEndpoint_def ep_addr_def buffer_simps)
  next
    case False
    with in_range have "3 < el_size l" by simp
    with assms obtain h where h: "list_in_heap l = Some h" "length (list_cache l) = 3"
      "el_size l - 3 \<le> length h" "el_cells l = list_cache l @ take (el_size l - 3) h"
      by (rule el_wf_largeE)
    with False in_range have "el_cells l ! i = h ! (i - 3)" "i - 3 < length h"
      by (auto simp: nth_append)
    with ne nth in_range False h show ?thesis
      by (auto simp: GetEndpoint_def ep_addr_def buffer_simps)
  qed
qed (simp add: GetEndpoint_def)

text \<open>\<open>PushBack\<close> appends, at each of the sizes where the representation changes.\<close>

definition el_slot :: "Addr \<Rightarrow> Endpoint" where
  "el_slot a = \<lparr>ip = fst a, port = snd a\<rparr>"

lemma ep_addr_slot [simp]: "ep_addr (el_slot a) = a"
  by (simp add: ep_addr_def el_slot_def)

lemma PushBack_cells:
  assumes wf: "el_wf l"
  shows "\<exists>l'. PushBack l a = Some l' \<and> el_size l' = Suc (el_size l) \<and> el_wf l' \<and>
    el_cells l' = el_cells l @ [Some (el_slot a)]"
proof -
  consider (cache) "el_size l < 3" | (first) "el_size l = 3" | (heap) "3 < el_size l"
    by linarith
  then show ?thesis
  proof cases
    case cache
    with wf show ?thesis
      by (auto simp: PushBack_def buffer_simps el_wf_small el_cells_def take_Suc_update
          el_slot_def)
  next
    case first
    with wf show ?thesis
      by (auto simp: PushBack_def buffer_simps el_wf_small el_wf_def el_cells_def
          heap_capacity_1 new_buffer_def el_slot_def take_Suc_update)
  next
    case heap
    define n where "n = el_size l - 3"
    from heap have n: "0 < n" and sz: "Suc (el_size l) - 3 = Suc n" "el_size l = n + 3"
      by (auto simp: n_def)
    from wf heap obtain h where h: "list_in_heap l = Some h" "length (list_cache l) = 3"
      "length h = heap_capacity n" "n \<le> length h" "el_cells l = list_cache l @ take n h"
      unfolding n_def by (rule el_wf_largeE)
    define g where "g = (if heap_capacity n = n then h @ new_buffer n else h)"
    have room: "n < length g" "length g = heap_capacity (Suc n)" "take n g = take n h"
      using n h heap_capacity_grow [of n] heap_capacity_keep [of n]
      by (auto simp: g_def push_bit_eq_mult)
    let ?l' = "l\<lparr>list_in_heap := Some (g[n := Some (el_slot a)]), el_size := Suc (el_size l)\<rparr>"
    have "PushBack l a = Some ?l'"
      using n h sz full_iff_pow2 [OF n] room
      by (auto simp: PushBack_def g_def buffer_simps el_slot_def push_bit_eq_mult new_buffer_def
          mult_2 numeral_eq_Suc)
    moreover have "el_cells ?l' = el_cells l @ [Some (el_slot a)]"
      using h sz room by (simp add: el_cells_def take_Suc_update)
    moreover from this have "el_wf ?l'"
      using wf h sz room by (simp add: el_wf_def)
    ultimately show ?thesis by force
  qed
qed

lemma PushBack_wf:
  assumes "el_wf l"
  obtains l' where "PushBack l a = Some l'" "el_wf l'" "el_list l' = el_list l @ [a]"
    "el_size l' = Suc (el_size l)"
  using PushBack_cells [OF assms, of a] by (auto simp: el_list_def)

text \<open>Copies and moves carry the list over.\<close>

lemma length_copy_cache [simp]: "length (copy_cache l) = 3"
  by (simp add: copy_cache_def)

lemma copy_cache_take:
  "length (list_cache l) = 3 \<Longrightarrow> take (el_size l) (copy_cache l) = take (el_size l) (list_cache l)"
  by (rule nth_equalityI) (auto simp: copy_cache_def)

lemma copy_cache_full:
  "length (list_cache l) = 3 \<Longrightarrow> 3 \<le> el_size l \<Longrightarrow> copy_cache l = list_cache l"
  by (rule nth_equalityI) (auto simp: copy_cache_def)

lemma EndpointList_copy_wf:
  assumes wf: "el_wf l"
  obtains l' where "EndpointList_copy l = Some l'" "el_wf l'" "el_list l' = el_list l"
    "el_size l' = el_size l"
proof (cases "3 < el_size l")
  case False
  with wf that show thesis
    by (auto simp: EndpointList_copy_def el_wf_small el_list_def el_cells_def copy_cache_take)
next
  case True
  with wf obtain h where h: "list_in_heap l = Some h" "length (list_cache l) = 3"
    "length h = heap_capacity (el_size l - 3)" "el_size l - 3 \<le> length h"
    "el_cells l = list_cache l @ take (el_size l - 3) h"
    by (rule el_wf_largeE)
  let ?n = "el_size l - 3"
  let ?l' = "\<lparr>el_size = el_size l, list_cache = copy_cache l,
    list_in_heap = Some (take ?n h @ drop ?n (new_buffer (heap_capacity ?n)))\<rparr>"
  have "EndpointList_copy l = Some ?l'"
    using True h le_heap_capacity [of ?n] by (simp add: EndpointList_copy_def buffer_simps Let_def)
  moreover have cells: "el_cells ?l' = el_cells l"
    using True h by (simp add: el_cells_def copy_cache_full)
  moreover have "el_wf ?l'"
    using wf True h cells by (simp add: el_wf_def)
  ultimately show thesis using that by (simp add: el_list_def)
qed

lemma EndpointList_move_wf:
  assumes wf: "el_wf l" and mv: "EndpointList_move l = (new, old)"
  shows "el_wf new" "el_list new = el_list l" "el_wf old" "el_list old = []"
proof -
  have cells: "el_cells new = el_cells l"
  proof (cases "3 \<le> el_size l")
    case True
    with wf mv show ?thesis
      by (auto simp: EndpointList_move_def el_wf_def el_cells_def copy_cache_full)
  next
    case False
    with wf mv show ?thesis
      by (auto simp: EndpointList_move_def el_wf_small el_cells_def copy_cache_take)
  qed
  with wf mv show "el_wf new" "el_list new = el_list l"
    by (auto simp: EndpointList_move_def el_wf_def el_list_def)
  from wf mv show "el_wf old" "el_list old = []"
    by (auto simp: EndpointList_move_def el_wf_small el_list_def el_cells_def el_wf_def)
qed

section \<open>The interface: a growable sequence\<close>

text \<open>
  What the clients of the list (the route builder, the session manager) rely on. \<open>None\<close> is
  undefined behaviour of the operation; the laws say it does not happen.
\<close>

locale endpoint_sequence =
  fixes init :: 'l
    and push :: "'l \<Rightarrow> 'a \<Rightarrow> 'l option"
    and clear :: "'l \<Rightarrow> 'l"
    and get :: "'l \<Rightarrow> nat \<Rightarrow> 'a option"
    and size_of :: "'l \<Rightarrow> nat"
    and copy :: "'l \<Rightarrow> 'l option"
    and contents :: "'l \<Rightarrow> 'a list"
    and invar :: "'l \<Rightarrow> bool"
  assumes init_law: "invar init" "contents init = []"
    and push_law: "invar l \<Longrightarrow> \<exists>l'. push l a = Some l' \<and> invar l' \<and> contents l' = contents l @ [a]"
    and clear_law: "invar l \<Longrightarrow> invar (clear l)" "contents (clear l) = []"
    and get_law: "invar l \<Longrightarrow> get l i = (if i < size_of l then Some (contents l ! i) else None)"
    and size_law: "invar l \<Longrightarrow> size_of l = length (contents l)"
    and copy_law: "invar l \<Longrightarrow> \<exists>l'. copy l = Some l' \<and> invar l' \<and> contents l' = contents l"
begin

lemma push_all:
  "invar l \<Longrightarrow> \<exists>l'. mfold push l as = Some l' \<and> invar l' \<and> contents l' = contents l @ as"
proof (induction as arbitrary: l)
  case (Cons a as)
  from push_law [OF Cons.prems, of a] obtain l1
    where l1: "push l a = Some l1" "invar l1" "contents l1 = contents l @ [a]" by blast
  from Cons.IH [OF l1(2)] l1 show ?case by auto
qed simp

lemma build:
  "\<exists>l. mfold push init as = Some l \<and> invar l \<and> contents l = as \<and> size_of l = length as"
  using push_all [OF init_law(1), of as] by (auto simp: init_law size_law)

lemma get_after_push:
  "invar l \<Longrightarrow> push l a = Some l' \<Longrightarrow> i \<le> size_of l \<Longrightarrow>
   get l' i = (if i = size_of l then Some a else get l i)"
  using push_law [of l a] by (auto simp: get_law size_law nth_append)

lemma copy_same:
  "invar l \<Longrightarrow> copy l = Some l' \<Longrightarrow> get l' i = get l i \<and> size_of l' = size_of l"
  using copy_law [of l] by (auto simp: get_law size_law)

end

interpretation el: endpoint_sequence EndpointList_init PushBack Clear GetEndpoint el_size
    EndpointList_copy el_list el_wf
proof unfold_locales
  show "\<exists>l'. PushBack l a = Some l' \<and> el_wf l' \<and> el_list l' = el_list l @ [a]"
    if "el_wf l" for l a using that by (metis PushBack_wf)
  show "\<exists>l'. EndpointList_copy l = Some l' \<and> el_wf l' \<and> el_list l' = el_list l"
    if "el_wf l" for l using that by (metis EndpointList_copy_wf)
qed (simp_all add: el_wf_init el_wf_Clear GetEndpoint_eq)

section \<open>Properties\<close>

text \<open>Whatever addresses are pushed on an empty list, in whatever number, every push succeeds
  and reading the list back by index gives them in order; an index past the end hits the
  assert.\<close>

theorem build_then_get:
  "\<exists>l. mfold PushBack EndpointList_init as = Some l \<and> el_size l = length as \<and>
     (\<forall>i. GetEndpoint l i = (if i < length as then Some (as ! i) else None))"
  using el.build [of as] by (metis el.get_law)

text \<open>The copy constructor succeeds on every well-formed list and builds one that reads the
  same at every index; the heap array it allocates has a capacity from which the copy can grow
  by any number of elements without leaving it.\<close>

theorem copy_reads_same_and_grows:
  assumes "el_wf l"
  shows "\<exists>c. EndpointList_copy l = Some c \<and> el_wf c \<and> (\<forall>i. GetEndpoint c i = GetEndpoint l i) \<and>
    (\<forall>as. \<exists>c'. mfold PushBack c as = Some c' \<and> el_list c' = el_list l @ as)"
proof -
  from el.copy_law [OF assms] obtain c
    where c: "EndpointList_copy l = Some c" "el_wf c" "el_list c = el_list l" by blast
  from el.copy_same [OF assms c(1)] el.push_all [OF c(2)] c show ?thesis by metis
qed

theorem copy_reads_same_and_grows_witness:
  "\<exists>l. mfold PushBack EndpointList_init [(1, 1), (2, 2), (3, 3), (4, 4)] = Some l \<and> el_size l = 4 \<and>
     (\<exists>c. EndpointList_copy l = Some c \<and> el_wf c \<and> (\<forall>i. GetEndpoint c i = GetEndpoint l i) \<and>
       (\<forall>as. \<exists>c'. mfold PushBack c as = Some c' \<and> el_list c' = el_list l @ as))"
proof -
  obtain l where l: "mfold PushBack EndpointList_init [(1, 1), (2, 2), (3, 3), (4, 4)] = Some l"
    "el_wf l" "el_size l = 4"
    using el.build [of "[(1, 1), (2, 2), (3, 3), (4, 4)]"] by auto
  from l copy_reads_same_and_grows [OF l(2)] show ?thesis by blast
qed

text \<open>Moving a list hands its endpoints to the new object and leaves the old one empty and
  well formed, so that its destructor frees nothing that the new object owns.\<close>

theorem move_transfers:
  assumes "el_wf l"
  shows "case EndpointList_move l of (new, old) \<Rightarrow>
    el_wf new \<and> el_list new = el_list l \<and> el_wf old \<and> el_empty old \<and> list_in_heap old = None"
  using assms EndpointList_move_wf [OF assms]
  by (simp add: EndpointList_move_def el_empty_def)

theorem move_transfers_witness:
  "case EndpointList_move EndpointList_init of (new, old) \<Rightarrow>
    el_wf new \<and> el_list new = el_list EndpointList_init \<and> el_wf old \<and> el_empty old \<and>
    list_in_heap old = None"
  by (rule move_transfers) (rule el_wf_init)

text \<open>Copy assignment between two different objects makes the target hold the endpoints of
  the source and changes no other object; assigning an object to itself destroys it before it
  is read, so the list ends up empty.\<close>

lemma assign_copy_effect:
  assumes "\<And>o'. el_wf (objs o')"
  shows "\<exists>objs'. assign_copy objs this other = Some objs' \<and>
    el_list (objs' this) = (if this = other then [] else el_list (objs other)) \<and>
    (\<forall>o'. o' \<noteq> this \<longrightarrow> objs' o' = objs o')"
proof -
  let ?objs1 = "objs(this := Clear (objs this))"
  have "el_wf (?objs1 other)" by (simp add: assms el_wf_Clear)
  then obtain new where "EndpointList_copy (?objs1 other) = Some new"
    "el_list new = el_list (?objs1 other)"
    by (rule EndpointList_copy_wf)
  then show ?thesis by (auto simp: assign_copy_def el_wf_Clear)
qed

end
