(* ===== verification/EndpointHeap.thy ===== *)
theory EndpointHeap
  imports EndpointList
begin

text \<open>
  \<^verbatim>\<open>src/hyperrpc/endpoint_list.{h,cc}\<close> once more, with pointers: objects hold the address of
  their heap array, arrays are allocated and deleted, copies share nothing and moves steal.
  Every operation simulates the one of \<open>EndpointList\<close> on the objects seen as values, so
  programs on any number of lists behave as on mathematical lists, delete every array once and
  leak none.
\<close>

section \<open>Memory\<close>

record ListObject =
  obj_size :: nat
  obj_cache :: "Endpoint buffer"
  obj_heap :: "nat option"

text \<open>The objects that are alive, and the arrays \<open>new Endpoint[n]\<close> made that are not deleted.\<close>

record 'o Memory =
  objects :: "'o \<Rightarrow> ListObject option"
  arrays :: "nat \<Rightarrow> Endpoint buffer option"

definition empty_memory :: "'o Memory" where
  "empty_memory = \<lparr>objects = Map.empty, arrays = Map.empty\<rparr>"

definition set_object :: "'o \<Rightarrow> ListObject \<Rightarrow> 'o Memory \<Rightarrow> 'o Memory" where
  "set_object this ob m = m\<lparr>objects := (objects m)(this \<mapsto> ob)\<rparr>"

definition set_array :: "nat \<Rightarrow> Endpoint buffer \<Rightarrow> 'o Memory \<Rightarrow> 'o Memory" where
  "set_array p b m = m\<lparr>arrays := (arrays m)(p \<mapsto> b)\<rparr>"

text \<open>\<open>fresh\<close> is the allocator: the address it returns for the next array. Deleting what is not
  allocated is undefined, so \<open>None\<close>.\<close>

definition new_array ::
  "((nat \<Rightarrow> Endpoint buffer option) \<Rightarrow> nat) \<Rightarrow> nat \<Rightarrow> 'o Memory \<Rightarrow> nat \<times> 'o Memory" where
  "new_array fresh n m = (fresh (arrays m), set_array (fresh (arrays m)) (new_buffer n) m)"

definition delete_array :: "nat \<Rightarrow> 'o Memory \<Rightarrow> 'o Memory option" where
  "delete_array p m =
     (if arrays m p = None then None else Some (m\<lparr>arrays := (arrays m)(p := None)\<rparr>))"

section \<open>Operations\<close>

definition ptr_init :: "'o \<Rightarrow> 'o Memory \<Rightarrow> 'o Memory" where
  "ptr_init this m =
     set_object this \<lparr>obj_size = 0, obj_cache = new_buffer kListCacheSize, obj_heap = None\<rparr> m"

definition ptr_Clear :: "'o \<Rightarrow> 'o Memory \<Rightarrow> 'o Memory option" where
  "ptr_Clear this m = do {
     ob \<leftarrow> objects m this;
     m1 \<leftarrow> (case obj_heap ob of None \<Rightarrow> Some m | Some p \<Rightarrow> delete_array p m);
     Some (set_object this (ob\<lparr>obj_heap := None, obj_size := 0\<rparr>) m1)
   }"

definition ptr_cache :: "ListObject \<Rightarrow> Endpoint buffer" where
  "ptr_cache other =
     map (\<lambda>i. if i < obj_size other then obj_cache other ! i else None) [0..<kListCacheSize]"

definition ptr_copy ::
  "((nat \<Rightarrow> Endpoint buffer option) \<Rightarrow> nat) \<Rightarrow> 'o \<Rightarrow> 'o \<Rightarrow> 'o Memory \<Rightarrow> 'o Memory option" where
  "ptr_copy fresh this other m = do {
     ob \<leftarrow> objects m other;
     (heap, m1) \<leftarrow>
       (if kListCacheSize < obj_size ob then do {
          let n = obj_size ob - kListCacheSize;
          let (p, m1) = new_array fresh (heap_capacity n) m;
          q \<leftarrow> obj_heap ob;
          src \<leftarrow> arrays m1 q;
          dst \<leftarrow> arrays m1 p;
          b \<leftarrow> buf_memcpy dst src n;
          Some (Some p, set_array p b m1)
        } else Some (None, m));
     Some (set_object this \<lparr>obj_size = obj_size ob, obj_cache = ptr_cache ob, obj_heap = heap\<rparr> m1)
   }"

definition ptr_move :: "'o \<Rightarrow> 'o \<Rightarrow> 'o Memory \<Rightarrow> 'o Memory option" where
  "ptr_move this other m = do {
     ob \<leftarrow> objects m other;
     let m1 = set_object this
       \<lparr>obj_size = obj_size ob, obj_cache = ptr_cache ob, obj_heap = obj_heap ob\<rparr> m;
     Some (set_object other (ob\<lparr>obj_heap := None, obj_size := 0\<rparr>) m1)
   }"

text \<open>The assignments run the destructor, which is \<open>Clear\<close>, and construct in place.\<close>

definition ptr_assign_copy ::
  "((nat \<Rightarrow> Endpoint buffer option) \<Rightarrow> nat) \<Rightarrow> 'o \<Rightarrow> 'o \<Rightarrow> 'o Memory \<Rightarrow> 'o Memory option" where
  "ptr_assign_copy fresh this other m = do { m1 \<leftarrow> ptr_Clear this m; ptr_copy fresh this other m1 }"

definition ptr_assign_move :: "'o \<Rightarrow> 'o \<Rightarrow> 'o Memory \<Rightarrow> 'o Memory option" where
  "ptr_assign_move this other m = do { m1 \<leftarrow> ptr_Clear this m; ptr_move this other m1 }"

definition ptr_PushBack ::
  "((nat \<Rightarrow> Endpoint buffer option) \<Rightarrow> nat) \<Rightarrow> 'o \<Rightarrow> Addr \<Rightarrow> 'o Memory \<Rightarrow> 'o Memory option" where
  "ptr_PushBack fresh this endpoint m = do {
     ob \<leftarrow> objects m this;
     let slot = \<lparr>ip = fst endpoint, port = snd endpoint\<rparr>;
     if obj_size ob < kListCacheSize then do {
       cache \<leftarrow> buf_write (obj_cache ob) (obj_size ob) slot;
       Some (set_object this (ob\<lparr>obj_cache := cache, obj_size := obj_size ob + 1\<rparr>) m)
     } else do {
       let n = obj_size ob - kListCacheSize;
       (heap, m1) \<leftarrow>
         (if n = 0 then let (p, m1) = new_array fresh kListInHeapInitSize m in Some (Some p, m1)
          else if kListInHeapInitSize \<le> n \<and> n AND (n - 1) = 0 then do {
            old \<leftarrow> obj_heap ob;
            let (p, m1) = new_array fresh (push_bit 1 n) m;
            src \<leftarrow> arrays m1 old;
            dst \<leftarrow> arrays m1 p;
            b \<leftarrow> buf_memcpy dst src n;
            m2 \<leftarrow> delete_array old (set_array p b m1);
            Some (Some p, m2)
          }
          else Some (obj_heap ob, m));
       p \<leftarrow> heap;
       b \<leftarrow> arrays m1 p;
       b' \<leftarrow> buf_write b n slot;
       Some (set_object this (ob\<lparr>obj_heap := Some p, obj_size := obj_size ob + 1\<rparr>) (set_array p b' m1))
     }
   }"

definition ptr_GetEndpoint :: "'o \<Rightarrow> nat \<Rightarrow> 'o Memory \<Rightarrow> Addr option" where
  "ptr_GetEndpoint this index m = do {
     ob \<leftarrow> objects m this;
     if \<not> index < obj_size ob then None
     else if index < kListCacheSize then do {
       e \<leftarrow> buf_read (obj_cache ob) index;
       Some (ip e, port e)
     } else do {
       p \<leftarrow> obj_heap ob;
       b \<leftarrow> arrays m p;
       e \<leftarrow> buf_read b (index - kListCacheSize);
       Some (ip e, port e)
     }
   }"

section \<open>Objects as values\<close>

definition view :: "'o Memory \<Rightarrow> ListObject \<Rightarrow> EndpointList" where
  "view m ob = \<lparr>el_size = obj_size ob, list_cache = obj_cache ob,
     list_in_heap = Option.bind (obj_heap ob) (arrays m)\<rparr>"

definition views :: "'o Memory \<Rightarrow> 'o \<Rightarrow> EndpointList option" where
  "views m this = map_option (view m) (objects m this)"

definition holds :: "'o Memory \<Rightarrow> 'o \<Rightarrow> nat \<Rightarrow> bool" where
  "holds m this p \<longleftrightarrow> (\<exists>ob. objects m this = Some ob \<and> obj_heap ob = Some p)"

text \<open>The allocated arrays are those some object holds, and no two objects hold the same.\<close>

definition owned :: "'o Memory \<Rightarrow> bool" where
  "owned m \<longleftrightarrow> finite (dom (arrays m)) \<and> (\<forall>p. arrays m p \<noteq> None \<longleftrightarrow> (\<exists>x. holds m x p)) \<and>
     (\<forall>p x y. holds m x p \<longrightarrow> holds m y p \<longrightarrow> x = y)"

definition fresh_law :: "((nat \<Rightarrow> Endpoint buffer option) \<Rightarrow> nat) \<Rightarrow> bool" where
  "fresh_law fresh \<longleftrightarrow> (\<forall>a. finite (dom a) \<longrightarrow> a (fresh a) = None)"

lemma view_simps [simp]:
  "el_size (view m ob) = obj_size ob" "list_cache (view m ob) = obj_cache ob"
  "list_in_heap (view m ob) = Option.bind (obj_heap ob) (arrays m)"
  by (simp_all add: view_def)

lemma memory_simps [simp]:
  "objects (set_object x ob m) = (objects m)(x \<mapsto> ob)" "arrays (set_object x ob m) = arrays m"
  "objects (set_array p b m) = objects m" "arrays (set_array p b m) = (arrays m)(p \<mapsto> b)"
  "view (set_object x ob m) = view m"
  by (simp_all add: set_object_def set_array_def view_def fun_eq_iff)

lemma viewsD: "views m x = Some l \<Longrightarrow> \<exists>ob. objects m x = Some ob \<and> l = view m ob"
  by (auto simp: views_def)

lemma ownedD:
  assumes "owned m"
  shows "finite (dom (arrays m))" "holds m x p \<Longrightarrow> \<exists>b. arrays m p = Some b"
    "arrays m p = Some b \<Longrightarrow> \<exists>x. holds m x p" "holds m x p \<Longrightarrow> holds m y p \<Longrightarrow> x = y"
  using assms by (auto simp: owned_def)

lemma owned_array: "owned m \<Longrightarrow> objects m x = Some ob \<Longrightarrow> obj_heap ob = Some p \<Longrightarrow> \<exists>b. arrays m p = Some b"
  by (auto simp: owned_def holds_def)

text \<open>One object changes, and with it the array it holds.\<close>

lemma replace_object:
  assumes own: "owned m" and obj: "objects m' = (objects m)(x := ob')"
    and held: "\<And>ob p. ob' = Some ob \<Longrightarrow> obj_heap ob = Some p \<Longrightarrow>
      arrays m' p \<noteq> None \<and> (arrays m p = None \<or> holds m x p)"
    and rest: "\<And>p. \<forall>ob. ob' = Some ob \<longrightarrow> obj_heap ob \<noteq> Some p \<Longrightarrow>
      arrays m' p = (if holds m x p then None else arrays m p)"
  shows "owned m'" and "views m' = (views m)(x := map_option (view m') ob')"
proof -
  have h: "holds m' y p \<longleftrightarrow> (if y = x then \<exists>ob. ob' = Some ob \<and> obj_heap ob = Some p else holds m y p)" for y p
    by (auto simp: holds_def obj)
  have other: "arrays m' p = arrays m p" if "holds m y p" "y \<noteq> x" for y p
  proof -
    from that own have "\<not> holds m x p" "arrays m p \<noteq> None" by (auto simp: owned_def)
    with held [of _ p] rest [of p] show ?thesis by (cases "\<exists>ob. ob' = Some ob \<and> obj_heap ob = Some p") auto
  qed
  have "dom (arrays m') \<subseteq> dom (arrays m) \<union> (case ob' of None \<Rightarrow> {} | Some ob \<Rightarrow> set_option (obj_heap ob))"
    using rest by (auto split: option.split if_splits)
  moreover have "finite (set_option (h :: nat option))" for h by (cases h) simp_all
  ultimately have "finite (dom (arrays m'))"
    using own unfolding owned_def by (elim finite_subset conjE) (simp split: option.split)
  moreover have "arrays m' p \<noteq> None \<longleftrightarrow> (\<exists>y. holds m' y p)" for p
  proof (cases "\<exists>ob. ob' = Some ob \<and> obj_heap ob = Some p")
    case True
    with held [of _ p] show ?thesis by (auto simp: h)
  next
    case False
    with rest [of p] own show ?thesis by (auto simp: h owned_def)
  qed
  moreover have "y = z" if "holds m' y p" "holds m' z p" for y z p
  proof -
    have "\<not> holds m w p" if "ob' = Some ob" "obj_heap ob = Some p" "w \<noteq> x" for w ob
      using held [OF that(1,2)] that(3) ownedD(2,4) [OF own] by fastforce
    with that ownedD(4) [OF own] show ?thesis unfolding h by (metis (full_types))
  qed
  ultimately show "owned m'" unfolding owned_def by blast
  have "view m' ob = view m ob" if "objects m y = Some ob" "y \<noteq> x" for y ob
    using that other [of y] by (auto simp: view_def holds_def bind_eq_Some_conv intro!: Option.bind_cong)
  then show "views m' = (views m)(x := map_option (view m') ob')"
    by (auto simp: views_def obj fun_eq_iff intro!: option.map_cong)
qed

lemma set_object_owned:
  assumes "owned m" "objects m' = (objects m)(x \<mapsto> ob)" "view m' ob = l"
    and "\<forall>p. obj_heap ob = Some p \<longrightarrow> arrays m' p \<noteq> None \<and> (arrays m p = None \<or> holds m x p)"
    and "\<forall>p. obj_heap ob \<noteq> Some p \<longrightarrow> arrays m' p = (if holds m x p then None else arrays m p)"
  shows "owned m' \<and> views m' = (views m)(x \<mapsto> l)"
  using replace_object [OF assms(1,2)] assms(3-5) by auto

text \<open>An object hands its array to one that holds none.\<close>

lemma hand_over:
  assumes own: "owned m" and "objects m y = Some ob" "\<not> (\<exists>p. holds m x p)" "x \<noteq> y"
    and m': "objects m' = (objects m)(x \<mapsto> ob1, y \<mapsto> ob2)" "arrays m' = arrays m"
    and "obj_heap ob1 = obj_heap ob" "obj_heap ob2 = None"
  shows "owned m'" and "views m' = (views m)(x \<mapsto> view m ob1, y \<mapsto> view m ob2)"
proof -
  have h: "holds m' z p \<longleftrightarrow> (if z = x then holds m y p else if z = y then False else holds m z p)" for z p
    using assms by (auto simp: holds_def)
  have "(\<exists>z. holds m' z p) \<longleftrightarrow> (\<exists>z. holds m z p)" for p
    using assms(3,4) unfolding h by metis
  moreover have "z = z'" if "holds m' z p" "holds m' z' p" for z z' p
    using that own assms(3) by (auto simp: h owned_def split: if_splits)
  ultimately show "owned m'" using own unfolding owned_def m'(2) by auto
  have "view m' = view m" by (simp add: view_def m'(2) fun_eq_iff)
  then show "views m' = (views m)(x \<mapsto> view m ob1, y \<mapsto> view m ob2)"
    by (auto simp: views_def m'(1))
qed

section \<open>Every operation simulates the one on values\<close>

lemma ptr_Clear_sim:
  assumes own: "owned m" and "views m x = Some l"
  shows "\<exists>m'. ptr_Clear x m = Some m' \<and> owned m' \<and> views m' = (views m)(x \<mapsto> Clear l) \<and> (\<forall>p. \<not> holds m' x p)"
proof -
  from viewsD [OF assms(2)] obtain ob where ob: "objects m x = Some ob" "l = view m ob" by blast
  let ?ob = "ob\<lparr>obj_heap := None, obj_size := 0\<rparr>"
  obtain m1 where m1: "(case obj_heap ob of None \<Rightarrow> Some m | Some p \<Rightarrow> delete_array p m) = Some m1"
    "objects m1 = objects m" "\<And>p. arrays m1 p = (if holds m x p then None else arrays m p)"
    using owned_array [OF own ob(1)] ob(1)
    by (cases "obj_heap ob") (auto simp: delete_array_def holds_def)
  let ?m = "set_object x ?ob m1"
  have c: "ptr_Clear x m = Some ?m" using ob m1(1) by (simp add: ptr_Clear_def)
  have "owned ?m \<and> views ?m = (views m)(x \<mapsto> Clear l)"
    by (rule set_object_owned [OF own, where ob = ?ob]) (simp_all add: m1 ob(2) view_def Clear_def)
  with c show ?thesis by (auto simp: holds_def)
qed

lemma owned_null:
  assumes "owned m" "objects m x = Some ob" "el_wf (view m ob)"
  shows "obj_heap ob = None \<longleftrightarrow> obj_size ob \<le> 3" and "holds m x p \<longleftrightarrow> obj_heap ob = Some p"
proof -
  show "holds m x p \<longleftrightarrow> obj_heap ob = Some p" by (simp add: holds_def assms(2))
  show "obj_heap ob = None \<longleftrightarrow> obj_size ob \<le> 3"
    using assms(3) owned_array [OF assms(1,2)] by (cases "obj_heap ob") (auto simp: el_wf_def split: if_splits)
qed

lemma owned_fresh:
  assumes "fresh_law fresh" "owned m"
  shows "arrays m (fresh (arrays m)) = None" "\<not> holds m x (fresh (arrays m))"
proof -
  show none: "arrays m (fresh (arrays m)) = None" using assms by (simp add: fresh_law_def owned_def)
  with ownedD(2) [OF assms(2)] show "\<not> holds m x (fresh (arrays m))" by fastforce
qed

lemma ptr_PushBack_sim:
  assumes fresh: "fresh_law fresh" and own: "owned m" and l: "views m x = Some l" "el_wf l"
    and push: "PushBack l a = Some l'"
  shows "\<exists>m'. ptr_PushBack fresh x a m = Some m' \<and> owned m' \<and> views m' = (views m)(x \<mapsto> l')"
proof -
  from viewsD [OF l(1)] obtain ob where ob: "objects m x = Some ob" "l = view m ob" by blast
  note null = owned_null [OF own ob(1) l(2) [unfolded ob(2)]] and fr = owned_fresh [OF fresh own]
  define n where "n = obj_size ob - 3"
  consider (cache) "obj_size ob < 3" | (first) "\<not> obj_size ob < 3" "n = 0"
    | (heap) "\<not> obj_size ob < 3" "0 < n" by linarith
  then show ?thesis
  proof cases
    case cache
    with push obtain c where c: "buf_write (obj_cache ob) (obj_size ob) \<lparr>ip = fst a, port = snd a\<rparr> = Some c"
      "l' = l\<lparr>list_cache := c, el_size := obj_size ob + 1\<rparr>"
      by (auto simp: PushBack_def ob(2) Let_def bind_eq_Some_conv)
    let ?ob = "ob\<lparr>obj_cache := c, obj_size := obj_size ob + 1\<rparr>"
    have "owned (set_object x ?ob m) \<and> views (set_object x ?ob m) = (views m)(x \<mapsto> l')"
      by (rule set_object_owned [OF own, where ob = ?ob])
        (use null in \<open>auto simp: c(2) ob(2) view_def dest: ownedD(2) [OF own]\<close>)
    then show ?thesis using cache c(1) ob(1) by (simp add: ptr_PushBack_def)
  next
    case first
    then have h: "obj_heap ob = None" using null(1) by (simp add: n_def)
    let ?p = "fresh (arrays m)" and ?slot = "\<lparr>ip = fst a, port = snd a\<rparr>"
    let ?b = "(new_buffer 4)[0 := Some ?slot]"
    let ?ob = "ob\<lparr>obj_heap := Some ?p, obj_size := obj_size ob + 1\<rparr>"
    let ?m = "set_object x ?ob (set_array ?p ?b (set_array ?p (new_buffer 4) m))"
    have "owned ?m \<and> views ?m = (views m)(x \<mapsto> l')"
      by (rule set_object_owned [OF own, where ob = ?ob])
        (use push first h fr null in \<open>auto simp: PushBack_def ob(2) view_def buffer_simps n_def\<close>)
    moreover have "ptr_PushBack fresh x a m = Some ?m"
      using first ob(1) by (simp add: ptr_PushBack_def new_array_def n_def buffer_simps)
    ultimately show ?thesis by blast
  next
    case heap
    then obtain p b where p: "obj_heap ob = Some p" "arrays m p = Some b"
      using null(1) owned_array [OF own ob(1)] unfolding n_def by fastforce
    let ?slot = "\<lparr>ip = fst a, port = snd a\<rparr>"
    show ?thesis
    proof (cases "4 \<le> n \<and> n AND (n - 1) = 0")
      case True
      with push heap p obtain d where d: "buf_memcpy (new_buffer (push_bit 1 n)) b n = Some d" "n < length d"
        "l' = l\<lparr>list_in_heap := Some (d[n := Some ?slot]), el_size := obj_size ob + 1\<rparr>"
        by (auto simp: PushBack_def ob(2) Let_def bind_eq_Some_conv n_def buf_write_def split: if_splits)
      let ?q = "fresh (arrays m)"
      let ?ob = "ob\<lparr>obj_heap := Some ?q, obj_size := obj_size ob + 1\<rparr>"
      let ?m2 = "(set_array ?q d (set_array ?q (new_buffer (push_bit 1 n)) m))"
      let ?m = "set_object x ?ob (set_array ?q (d[n := Some ?slot]) (?m2\<lparr>arrays := (arrays ?m2)(p := None)\<rparr>))"
      have pq: "p \<noteq> ?q" using p fr by auto
      have "owned ?m \<and> views ?m = (views m)(x \<mapsto> l')"
        by (rule set_object_owned [OF own, where ob = ?ob])
          (use p fr null pq in \<open>auto simp: d(3) ob(2) view_def\<close>)
      moreover have "ptr_PushBack fresh x a m = Some ?m"
        using True heap ob(1) p pq d(1,2)
        by (simp add: ptr_PushBack_def new_array_def delete_array_def n_def buffer_simps Let_def)
      ultimately show ?thesis by blast
    next
      case False
      with push heap p have d: "n < length b"
        "l' = l\<lparr>list_in_heap := Some (b[n := Some ?slot]), el_size := obj_size ob + 1\<rparr>"
        by (auto simp: PushBack_def ob(2) Let_def bind_eq_Some_conv n_def buf_write_def split: if_splits)
      let ?ob = "ob\<lparr>obj_heap := Some p, obj_size := obj_size ob + 1\<rparr>"
      let ?m = "set_object x ?ob (set_array p (b[n := Some ?slot]) m)"
      have "owned ?m \<and> views ?m = (views m)(x \<mapsto> l')"
        by (rule set_object_owned [OF own, where ob = ?ob])
          (use p null in \<open>auto simp: d(2) ob(2) view_def\<close>)
      moreover have "ptr_PushBack fresh x a m = Some ?m"
        using False heap ob(1) p d(1) by (auto simp: ptr_PushBack_def n_def buffer_simps)
      ultimately show ?thesis by blast
    qed
  qed
qed

lemma ptr_GetEndpoint_view: "ptr_GetEndpoint x i m = Option.bind (views m x) (\<lambda>l. GetEndpoint l i)"
  by (cases "objects m x") (simp_all add: ptr_GetEndpoint_def GetEndpoint_def views_def Let_def)

lemma ptr_cache_view: "ptr_cache ob = copy_cache (view m ob)"
  by (simp add: ptr_cache_def copy_cache_def)

lemma ptr_copy_sim:
  assumes fresh: "fresh_law fresh" and own: "owned m" and l: "views m y = Some l"
    and none: "\<forall>p. \<not> holds m x p" and copy: "EndpointList_copy l = Some l'"
  shows "\<exists>m'. ptr_copy fresh x y m = Some m' \<and> owned m' \<and> views m' = (views m)(x \<mapsto> l')"
proof -
  from viewsD [OF l] obtain ob where ob: "objects m y = Some ob" "l = view m ob" by blast
  note fr = owned_fresh [OF fresh own]
  show ?thesis
  proof (cases "3 < obj_size ob")
    case False
    let ?m = "set_object x \<lparr>obj_size = obj_size ob, obj_cache = ptr_cache ob, obj_heap = None\<rparr> m"
    have "owned ?m \<and> views ?m = (views m)(x \<mapsto> l')"
      by (rule set_object_owned [OF own, where ob = "\<lparr>obj_size = obj_size ob, obj_cache = ptr_cache ob, obj_heap = None\<rparr>"])
        (use copy False none in \<open>auto simp: EndpointList_copy_def ob(2) view_def ptr_cache_view [of ob m]\<close>)
    then show ?thesis using False ob(1) by (simp add: ptr_copy_def)
  next
    case True
    with copy obtain q b d where q: "obj_heap ob = Some q" "arrays m q = Some b"
      "buf_memcpy (new_buffer (heap_capacity (obj_size ob - 3))) b (obj_size ob - 3) = Some d"
      "l' = \<lparr>el_size = obj_size ob, list_cache = ptr_cache ob, list_in_heap = Some d\<rparr>"
      by (auto simp: EndpointList_copy_def ob(2) Let_def bind_eq_Some_conv ptr_cache_view [of ob m])
    let ?p = "fresh (arrays m)"
    let ?ob = "\<lparr>obj_size = obj_size ob, obj_cache = ptr_cache ob, obj_heap = Some ?p\<rparr>"
    let ?m = "set_object x ?ob (set_array ?p d (set_array ?p (new_buffer (heap_capacity (obj_size ob - 3))) m))"
    have "owned ?m \<and> views ?m = (views m)(x \<mapsto> l')"
      by (rule set_object_owned [OF own, where ob = ?ob]) (use q none fr in \<open>auto simp: view_def\<close>)
    moreover have "ptr_copy fresh x y m = Some ?m"
      using True ob(1) q(1-3) fr(1) by (auto simp: ptr_copy_def new_array_def Let_def)
    ultimately show ?thesis by blast
  qed
qed

lemma ptr_move_sim:
  assumes own: "owned m" and l: "views m y = Some l"
    and none: "\<forall>p. \<not> holds m x p" and move: "EndpointList_move l = (new, old)"
  shows "\<exists>m'. ptr_move x y m = Some m' \<and> owned m' \<and> views m' = (views m)(x \<mapsto> new, y \<mapsto> old)"
proof -
  from viewsD [OF l] obtain ob where ob: "objects m y = Some ob" "l = view m ob" by blast
  let ?new = "\<lparr>obj_size = obj_size ob, obj_cache = ptr_cache ob, obj_heap = obj_heap ob\<rparr>"
  let ?old = "ob\<lparr>obj_heap := None, obj_size := 0\<rparr>"
  let ?m = "set_object y ?old (set_object x ?new m)"
  have v: "view m ?new = new" "view m ?old = old"
    using move by (simp_all add: EndpointList_move_def ob(2) view_def ptr_cache_view [of ob m])
  have "owned ?m \<and> views ?m = (views m)(x \<mapsto> new, y \<mapsto> old)"
  proof (cases "x = y")
    case True
    with none have "owned ?m \<and> views ?m = (views m)(y \<mapsto> old)"
      by (intro set_object_owned [OF own, where ob = ?old]) (simp_all add: v)
    with True show ?thesis by simp
  next
    case False
    with hand_over [OF own ob(1), of x ?m ?new ?old] none v show ?thesis by simp
  qed
  moreover have "ptr_move x y m = Some ?m" by (simp add: ptr_move_def ob(1))
  ultimately show ?thesis by blast
qed

section \<open>Programs on any number of lists\<close>

datatype 'o list_op =
    Construct 'o | Push 'o Addr | Empty 'o | CopyConstruct 'o 'o | MoveConstruct 'o 'o
  | AssignCopy 'o 'o | AssignMove 'o 'o | Destroy 'o

fun ptr_op ::
  "((nat \<Rightarrow> Endpoint buffer option) \<Rightarrow> nat) \<Rightarrow> 'o Memory \<Rightarrow> 'o list_op \<Rightarrow> 'o Memory option" where
  "ptr_op fresh m (Construct x) = Some (ptr_init x m)"
| "ptr_op fresh m (Push x a) = ptr_PushBack fresh x a m"
| "ptr_op fresh m (Empty x) = ptr_Clear x m"
| "ptr_op fresh m (CopyConstruct x y) = ptr_copy fresh x y m"
| "ptr_op fresh m (MoveConstruct x y) = ptr_move x y m"
| "ptr_op fresh m (AssignCopy x y) = ptr_assign_copy fresh x y m"
| "ptr_op fresh m (AssignMove x y) = ptr_assign_move x y m"
| "ptr_op fresh m (Destroy x) = do { m1 \<leftarrow> ptr_Clear x m; Some (m1\<lparr>objects := (objects m1)(x := None)\<rparr>) }"

text \<open>What a program means: constructors take a dead object, all else live ones. An object assigned
  to itself is emptied.\<close>

fun list_spec ::
  "('o \<Rightarrow> Addr list option) \<Rightarrow> 'o list_op \<Rightarrow> ('o \<Rightarrow> Addr list option) option" where
  "list_spec s (Construct x) = (if s x = None then Some (s(x \<mapsto> [])) else None)"
| "list_spec s (Push x a) = map_option (\<lambda>as. s(x \<mapsto> as @ [a])) (s x)"
| "list_spec s (Empty x) = map_option (\<lambda>as. s(x \<mapsto> [])) (s x)"
| "list_spec s (CopyConstruct x y) =
     (if s x = None then map_option (\<lambda>as. s(x \<mapsto> as)) (s y) else None)"
| "list_spec s (MoveConstruct x y) =
     (if s x = None then map_option (\<lambda>as. s(x \<mapsto> as, y \<mapsto> [])) (s y) else None)"
| "list_spec s (AssignCopy x y) =
     do { _ \<leftarrow> s x; as \<leftarrow> s y; Some (s(x \<mapsto> if x = y then [] else as)) }"
| "list_spec s (AssignMove x y) = do { _ \<leftarrow> s x; as \<leftarrow> s y; Some (s(x \<mapsto> as, y \<mapsto> [])) }"
| "list_spec s (Destroy x) = map_option (\<lambda>as. s(x := None)) (s x)"

definition models :: "'o Memory \<Rightarrow> ('o \<Rightarrow> Addr list option) \<Rightarrow> bool" where
  "models m s \<longleftrightarrow> owned m \<and> (\<forall>x. rel_option (\<lambda>l as. el_wf l \<and> el_list l = as) (views m x) (s x))"

lemma modelsD:
  assumes "models m s"
  shows "owned m" "s x = None \<longleftrightarrow> views m x = None"
    "s x = Some as \<Longrightarrow> \<exists>l. views m x = Some l \<and> el_wf l \<and> el_list l = as"
  using assms by (auto simp: models_def option_rel_Some2 dest!: spec [of _ x])

lemma models_update:
  assumes "models m s" "owned m'" "views m' = (views m)(x \<mapsto> l)" "el_wf l" "el_list l = as"
  shows "models m' (s(x \<mapsto> as))"
  using assms by (auto simp: models_def)

lemma dead_holds: "owned m \<Longrightarrow> views m x = None \<Longrightarrow> \<not> holds m x p"
  by (auto simp: views_def holds_def)

lemma Clear_step:
  assumes "models m s" "s x = Some as"
  shows "\<exists>m'. ptr_Clear x m = Some m' \<and> models m' (s(x \<mapsto> [])) \<and> (\<forall>p. \<not> holds m' x p)"
proof -
  from modelsD(1,3) [OF assms(1)] assms(2) obtain l where l: "owned m" "views m x = Some l" "el_wf l" by blast
  from ptr_Clear_sim [OF l(1,2)] models_update [OF assms(1) _ _ el_wf_Clear(1) [OF l(3)] el_wf_Clear(2)]
  show ?thesis by blast
qed

lemma copy_step:
  assumes "fresh_law fresh" "models m s" "s y = Some as" "\<forall>p. \<not> holds m x p"
  shows "\<exists>m'. ptr_copy fresh x y m = Some m' \<and> models m' (s(x \<mapsto> as))"
proof -
  from modelsD(1,3) [OF assms(2)] assms(3) obtain l
    where l: "owned m" "views m y = Some l" "el_wf l" "el_list l = as" by blast
  obtain l' where l': "EndpointList_copy l = Some l'" "el_wf l'" "el_list l' = el_list l"
    using l(3) by (rule EndpointList_copy_wf)
  from ptr_copy_sim [OF assms(1) l(1,2) assms(4) l'(1)] models_update [OF assms(2)] l' l(4) show ?thesis by metis
qed

lemma move_step:
  assumes "models m s" "s y = Some as" "\<forall>p. \<not> holds m x p"
  shows "\<exists>m'. ptr_move x y m = Some m' \<and> models m' (s(x \<mapsto> as, y \<mapsto> []))"
proof -
  from modelsD(1,3) [OF assms(1)] assms(2) obtain l
    where l: "owned m" "views m y = Some l" "el_wf l" "el_list l = as" by blast
  obtain new old where mv: "EndpointList_move l = (new, old)" by (cases "EndpointList_move l")
  note wf = EndpointList_move_wf [OF l(3) mv]
  from ptr_move_sim [OF l(1,2) assms(3) mv] assms(1) wf l(4) show ?thesis
    by (auto simp: models_def)
qed

lemma list_step:
  assumes fresh: "fresh_law fresh" and m: "models m s" and spec: "list_spec s c = Some s'"
  shows "\<exists>m'. ptr_op fresh m c = Some m' \<and> models m' s'"
proof (cases c)
  case (Construct x)
  with spec have x: "s x = None" "s' = s(x \<mapsto> [])" by (auto split: if_splits)
  let ?m = "ptr_init x m"
  have "owned ?m \<and> views ?m = (views m)(x \<mapsto> EndpointList_init)"
    unfolding ptr_init_def
    by (rule set_object_owned [OF modelsD(1) [OF m], where ob = "\<lparr>obj_size = 0, obj_cache = new_buffer kListCacheSize, obj_heap = None\<rparr>"])
      (use dead_holds [OF modelsD(1) [OF m]] modelsD(2) [OF m, of x] x in \<open>simp_all add: view_def EndpointList_init_def\<close>)
  with models_update [OF m _ _ el_wf_init(1) el_wf_init(2)] Construct x show ?thesis by simp
next
  case (Push x a)
  with spec obtain as where as: "s x = Some as" "s' = s(x \<mapsto> as @ [a])" by auto
  from modelsD(1,3) [OF m] as(1) obtain l where l: "owned m" "views m x = Some l" "el_wf l" "el_list l = as" by blast
  from el.push_law [OF l(3)] obtain l' where l': "PushBack l a = Some l'" "el_wf l'" "el_list l' = as @ [a]"
    using l(4) by blast
  from ptr_PushBack_sim [OF fresh l(1-3) l'(1)] models_update [OF m _ _ l'(2,3)] as(2) Push show ?thesis by auto
next
  case (Empty x)
  with spec Clear_step [OF m, of x] show ?thesis by auto
next
  case (CopyConstruct x y)
  with spec copy_step [OF fresh m, of y _ x] dead_holds [OF modelsD(1) [OF m]] modelsD(2) [OF m, of x]
  show ?thesis by (auto split: if_splits)
next
  case (MoveConstruct x y)
  with spec move_step [OF m, of y _ x] dead_holds [OF modelsD(1) [OF m]] modelsD(2) [OF m, of x]
  show ?thesis by (auto split: if_splits)
next
  case (AssignCopy x y)
  with spec obtain as bs where s: "s x = Some bs" "s y = Some as" "s' = s(x \<mapsto> if x = y then [] else as)"
    by (auto simp: bind_eq_Some_conv)
  from Clear_step [OF m s(1)] obtain m1
    where m1: "ptr_Clear x m = Some m1" "models m1 (s(x \<mapsto> []))" "\<forall>p. \<not> holds m1 x p" by blast
  from copy_step [OF fresh m1(2) _ m1(3), of y "if x = y then [] else as"] s(2,3) AssignCopy m1(1) show ?thesis
    by (auto simp: ptr_assign_copy_def split: if_splits)
next
  case (AssignMove x y)
  with spec obtain as bs where s: "s x = Some bs" "s y = Some as" "s' = s(x \<mapsto> as, y \<mapsto> [])"
    by (auto simp: bind_eq_Some_conv)
  from Clear_step [OF m s(1)] obtain m1
    where m1: "ptr_Clear x m = Some m1" "models m1 (s(x \<mapsto> []))" "\<forall>p. \<not> holds m1 x p" by blast
  from move_step [OF m1(2) _ m1(3), of y "if x = y then [] else as"] s(2,3) AssignMove m1(1) show ?thesis
    by (cases "x = y") (auto simp: ptr_assign_move_def)
next
  case (Destroy x)
  with spec obtain as where as: "s x = Some as" "s' = s(x := None)" by auto
  from Clear_step [OF m as(1)] obtain m1
    where m1: "ptr_Clear x m = Some m1" "models m1 (s(x \<mapsto> []))" "\<forall>p. \<not> holds m1 x p" by blast
  let ?m = "m1\<lparr>objects := (objects m1)(x := None)\<rparr>"
  have "owned ?m" "views ?m = (views m1)(x := map_option (view ?m) None)"
    by (rule replace_object [OF modelsD(1) [OF m1(2)], of ?m x None]; simp add: m1(3))+
  moreover have "rel_option (\<lambda>l as. el_wf l \<and> el_list l = as) (views m1 y) (s y)" if "y \<noteq> x" for y
  proof -
    from m1(2) have "rel_option (\<lambda>l as. el_wf l \<and> el_list l = as) (views m1 y) ((s(x \<mapsto> [])) y)"
      unfolding models_def by blast
    with that show ?thesis by simp
  qed
  ultimately have "models ?m s'" by (simp add: models_def as(2))
  with m1(1) Destroy show ?thesis by simp
qed

lemma list_program:
  "fresh_law fresh \<Longrightarrow> models m s \<Longrightarrow> mfold list_spec s prog = Some s' \<Longrightarrow>
   \<exists>m'. mfold (ptr_op fresh) m prog = Some m' \<and> models m' s'"
proof (induction prog arbitrary: m s)
  case (Cons c prog)
  then obtain s1 where s1: "list_spec s c = Some s1" "mfold list_spec s1 prog = Some s'"
    by (auto simp: bind_eq_Some_conv)
  from list_step [OF Cons.prems(1,2) s1(1)] obtain m1 where "ptr_op fresh m c = Some m1" "models m1 s1" by blast
  with Cons.IH [OF Cons.prems(1) _ s1(2)] show ?case by auto
qed auto

text \<open>One array for each list that needs one.\<close>

lemma models_arrays:
  assumes "models m s"
  shows "card (dom (arrays m)) = card {x. \<exists>as. s x = Some as \<and> 3 < length as}"
proof -
  let ?h = "\<lambda>x. the (Option.bind (objects m x) obj_heap)"
  have holds: "holds m x p \<longleftrightarrow> (\<exists>as. s x = Some as \<and> 3 < length as) \<and> p = ?h x" for x p
  proof (cases "objects m x")
    case None
    with assms show ?thesis using modelsD(2) [OF assms, of x] by (auto simp: holds_def views_def)
  next
    case (Some ob)
    then have "views m x = Some (view m ob)" by (simp add: views_def)
    with modelsD(2,3) [OF assms, of x] obtain as where as: "s x = Some as" "el_wf (view m ob)" "el_list (view m ob) = as"
      by (cases "s x") auto
    then have "length as = obj_size ob" using length_el_list [OF as(2)] by simp
    with owned_null(1) [OF modelsD(1) [OF assms] Some as(2)]
      owned_null(2) [OF modelsD(1) [OF assms] Some as(2), of p] as(1) Some show ?thesis by (cases "obj_heap ob") auto
  qed
  have "p \<in> dom (arrays m) \<longleftrightarrow> (\<exists>x. holds m x p)" for p
    using modelsD(1) [OF assms] by (auto simp: owned_def dom_def)
  then have "dom (arrays m) = ?h ` {x. \<exists>as. s x = Some as \<and> 3 < length as}"
    unfolding holds by (intro set_eqI) (simp only: image_iff mem_Collect_eq bex_simps Bex_def)
  moreover have "inj_on ?h {x. \<exists>as. s x = Some as \<and> 3 < length as}"
  proof (rule inj_onI)
    fix x y
    assume "x \<in> {x. \<exists>as. s x = Some as \<and> 3 < length as}" "y \<in> {x. \<exists>as. s x = Some as \<and> 3 < length as}"
      and eq: "?h x = ?h y"
    then have "holds m x (?h x)" "holds m y (?h y)" using holds by simp_all
    with eq show "x = y" using ownedD(4) [OF modelsD(1) [OF assms]] by metis
  qed
  ultimately show ?thesis by (simp add: card_image)
qed

section \<open>Properties\<close>

text \<open>C22: memory safety of endpoint lists. Take any program of constructions, copies, moves,
  assignments (of an object to itself too), pushes, clears and destructions that uses objects
  only while they are alive, and any allocator that returns addresses not in use: no access
  leaves an array or follows a null or deleted pointer, no array is deleted twice, every list
  reads back as the mathematical list the program computes, and at the end there is exactly one
  array for each live list of more than three endpoints, so nothing is leaked or shared.\<close>

theorem list_programs_are_safe:
  assumes "fresh_law fresh" and "mfold list_spec Map.empty prog = Some s"
  shows "\<exists>m. mfold (ptr_op fresh) empty_memory prog = Some m \<and>
    (\<forall>x i. ptr_GetEndpoint x i m =
      (case s x of None \<Rightarrow> None | Some as \<Rightarrow> if i < length as then Some (as ! i) else None)) \<and>
    finite (dom (arrays m)) \<and> card (dom (arrays m)) = card {x. \<exists>as. s x = Some as \<and> 3 < length as}"
proof -
  have "models empty_memory Map.empty"
    by (simp add: models_def owned_def views_def holds_def empty_memory_def)
  from list_program [OF assms(1) this assms(2)] obtain m
    where m: "mfold (ptr_op fresh) empty_memory prog = Some m" "models m s" by blast
  have "ptr_GetEndpoint x i m =
      (case s x of None \<Rightarrow> None | Some as \<Rightarrow> if i < length as then Some (as ! i) else None)" for x i
    using modelsD(2,3) [OF m(2), of x]
    by (cases "s x") (auto simp: ptr_GetEndpoint_view el.get_law)
  with m models_arrays [OF m(2)] ownedD(1) [OF modelsD(1) [OF m(2)]] show ?thesis by blast
qed

text \<open>Five endpoints, a copy that outlives the original, a move.\<close>

abbreviation "demo_program \<equiv>
  [Construct 0, Push 0 (1, 1), Push 0 (2, 2), Push 0 (3, 3), Push 0 (4, 4), Push 0 (5, 5),
   CopyConstruct (1 :: nat) 0, Destroy 0, MoveConstruct 2 1, Destroy 1]"

theorem list_programs_are_safe_witness:
  "\<exists>m. mfold (ptr_op (\<lambda>a. Suc (Max (insert 0 (dom a))))) empty_memory demo_program = Some m \<and>
     ptr_GetEndpoint 2 4 m = Some (5, 5) \<and> card (dom (arrays m)) = 1"
proof -
  let ?fresh = "\<lambda>a :: nat \<Rightarrow> Endpoint buffer option. Suc (Max (insert 0 (dom a)))"
  let ?s = "[2 \<mapsto> [(1, 1), (2, 2), (3, 3), (4, 4), (5, 5)]] :: nat \<Rightarrow> Addr list option"
  have "?fresh a \<notin> dom a" if "finite (dom a)" for a
    using that Max_ge [of "insert 0 (dom a)" "?fresh a"] by fastforce
  then have fresh: "fresh_law ?fresh" by (auto simp: fresh_law_def)
  have spec: "mfold list_spec Map.empty demo_program = Some ?s" by (simp add: fun_eq_iff)
  from list_programs_are_safe [OF fresh spec] obtain m
    where m: "mfold (ptr_op ?fresh) empty_memory demo_program = Some m"
      "\<forall>x i. ptr_GetEndpoint x i m =
        (case ?s x of None \<Rightarrow> None | Some as \<Rightarrow> if i < length as then Some (as ! i) else None)"
      "card (dom (arrays m)) = card {x. \<exists>as. ?s x = Some as \<and> 3 < length as}" by blast
  have "{x. \<exists>as. ?s x = Some as \<and> 3 < length as} = {2}" by (auto split: if_splits)
  with m(3) have "card (dom (arrays m)) = 1" by simp
  moreover have "ptr_GetEndpoint 2 4 m = Some (5, 5)" using m(2) by simp
  ultimately show ?thesis using m(1) by blast
qed

end
