(* ===== verification/Common.thy ===== *)
theory Common
  imports EndpointList
begin

text \<open>
  \<^verbatim>\<open>src/hyperrpc/hyperrpc.h\<close> and \<^verbatim>\<open>src/hyperrpc/constants.h\<close>: the result codes and the
  constants every component uses, and the view of protobuf's descriptors the code has.
\<close>

section \<open>Result codes\<close>

datatype Result = kSuccess | kFailure | kNoRoute | kTimeout | kNotImpl | kInError

fun Result_value :: "Result \<Rightarrow> int" where
  "Result_value kSuccess = 0"
| "Result_value kFailure = 1"
| "Result_value kNoRoute = 2"
| "Result_value kTimeout = 3"
| "Result_value kNotImpl = 4"
| "Result_value kInError = 5"

text \<open>\<open>static_cast<Result>\<close> of an integer; \<open>None\<close> is a value that is no enumerator.\<close>

definition Result_of :: "int \<Rightarrow> Result option" where
  "Result_of v = List.find (\<lambda>r. Result_value r = v)
     [kSuccess, kFailure, kNoRoute, kTimeout, kNotImpl, kInError]"

lemma Result_of_value [simp]: "Result_of (Result_value r) = Some r"
  by (cases r) (simp_all add: Result_of_def)

lemma Result_of_SomeD: "Result_of v = Some r \<Longrightarrow> v = Result_value r"
  by (auto simp: Result_of_def split: if_splits)

section \<open>Constants\<close>

definition kHyperRpcPacketTag :: u8 where
  "kHyperRpcPacketTag = of_char CHR ''R''"

definition kHyperRpcPacketVer :: u8 where
  "kHyperRpcPacketVer = 1"

definition kRpcIdSeqPartBits :: nat where
  "kRpcIdSeqPartBits = 48"

definition kMaxResultValue :: int where
  "kMaxResultValue = Result_value kInError"

lemma kRpcIdSeqPartBits_48 [simp]: "kRpcIdSeqPartBits = 48"
  by (simp add: kRpcIdSeqPartBits_def)

lemma Result_of_total:
  "(\<exists>r. Result_of v = Some r) \<longleftrightarrow> 0 \<le> v \<and> v \<le> kMaxResultValue"
proof
  assume "\<exists>r. Result_of v = Some r"
  then obtain r where "v = Result_value r" by (auto dest: Result_of_SomeD)
  then show "0 \<le> v \<and> v \<le> kMaxResultValue" by (cases r) (auto simp: kMaxResultValue_def)
next
  assume "0 \<le> v \<and> v \<le> kMaxResultValue"
  then have "v = 0 \<or> v = 1 \<or> v = 2 \<or> v = 3 \<or> v = 4 \<or> v = 5"
    by (auto simp: kMaxResultValue_def)
  then show "\<exists>r. Result_of v = Some r" by (auto simp: Result_of_def)
qed

section \<open>Descriptors and messages\<close>

text \<open>
  A protobuf \<open>MethodDescriptor\<close> is read through \<open>service()->name()\<close>, \<open>name()\<close> and
  \<open>index()\<close>. Message objects live at addresses; their contents are of a type the
  model leaves open, like the closures of the callers.
\<close>

record MethodDescriptor =
  service_name :: string
  method_name :: string
  method_index :: nat

type_synonym msg_ptr = nat

end
