(* ===== verification/SessionManager.thy ===== *)
theory SessionManager
  imports Common
begin

text \<open>
  \<^verbatim>\<open>src/hyperrpc/rpc_session_manager.{h,cc}\<close>: the table of pending outgoing RPCs of one
  worker. The model keeps the node pool as a list, a node pointer as its index, and makes two
  ghost fields explicit: \<open>trace\<close>, the calls to \<open>AddSession\<close> and to the callbacks in the
  order they happen, and \<open>fault\<close>, raised by an access outside the pool, a call of a null
  closure or a failed assert. The callbacks (\<open>done\<close> closures, \<open>on_send_request_\<close>), the
  timer wheel and protobuf's parser are parameters in a \<open>SessionEnv\<close>; a callback is a state
  transformer, so it may re-enter the manager exactly where the code calls it.
\<close>

section \<open>Data\<close>

record ('own, 'd) SessionNode =
  rpc_id :: u64
  node_method :: MethodDescriptor
  node_request :: msg_ptr
  node_response :: msg_ptr
  node_done :: "'d option"
  timer_owner :: 'own
  endpoint_index :: u16
  endpoint_list :: EndpointList

datatype 'd event =
    EvAdd 'd nat
  | EvDone 'd Result
  | EvSend MethodDescriptor msg_ptr u64 Addr

record ('own, 'tw, 'msg, 'd) RpcSessionManager =
  pool_size_order :: nat
  pool_size_mask :: u64
  sess_pool :: "('own, 'd) SessionNode list"
  next_rpc_id :: u64
  timerw :: 'tw
  msgs :: "msg_ptr \<Rightarrow> 'msg"
  trace :: "'d event list"
  fault :: bool

record ('own, 'tw, 'msg, 'd, 's) SessionEnv =
  default_rpc_timeout :: u64
  has_timer :: "'own \<Rightarrow> bool"
  AddTimer :: "'tw \<Rightarrow> u64 \<Rightarrow> nat \<Rightarrow> 'own \<Rightarrow> 'tw \<times> 'own"
  ResetTimer :: "'tw \<Rightarrow> 'own \<Rightarrow> u64 \<Rightarrow> 'tw \<times> 'own"
  CancelTimer :: "'tw \<Rightarrow> 'own \<Rightarrow> 'tw \<times> 'own"
  ParseFromArray :: "'msg \<Rightarrow> byte list \<Rightarrow> bool \<times> 'msg"
  run_done :: "'d \<Rightarrow> Result \<Rightarrow> 's \<Rightarrow> 's"
  on_send_request :: "MethodDescriptor \<Rightarrow> msg_ptr \<Rightarrow> u64 \<Rightarrow> Addr \<Rightarrow> 's \<Rightarrow> 's"

type_synonym ('own, 'tw, 'msg, 'd, 'z) mgr_env =
  "('own, 'tw, 'msg, 'd, ('own, 'tw, 'msg, 'd, 'z) RpcSessionManager_scheme) SessionEnv"

section \<open>Nodes\<close>

definition node_at ::
  "('own, 'tw, 'msg, 'd, 'z) RpcSessionManager_scheme \<Rightarrow> nat \<Rightarrow> ('own, 'd) SessionNode option" where
  "node_at s i = (if i < length (sess_pool s) then Some (sess_pool s ! i) else None)"

definition raise_fault ::
  "('own, 'tw, 'msg, 'd, 'z) RpcSessionManager_scheme \<Rightarrow>
   ('own, 'tw, 'msg, 'd, 'z) RpcSessionManager_scheme" where
  "raise_fault s = s\<lparr>fault := True\<rparr>"

definition update_node ::
  "nat \<Rightarrow> (('own, 'd) SessionNode \<Rightarrow> ('own, 'd) SessionNode) \<Rightarrow>
   ('own, 'tw, 'msg, 'd, 'z) RpcSessionManager_scheme \<Rightarrow>
   ('own, 'tw, 'msg, 'd, 'z) RpcSessionManager_scheme" where
  "update_node i f s =
     (case node_at s i of
        None \<Rightarrow> raise_fault s
      | Some n \<Rightarrow> s\<lparr>sess_pool := (sess_pool s)[i := f n]\<rparr>)"

text \<open>\<open>sess_pool_[rpc_id & pool_size_mask_]\<close>\<close>

definition slot_of :: "('own, 'tw, 'msg, 'd, 'z) RpcSessionManager_scheme \<Rightarrow> u64 \<Rightarrow> nat" where
  "slot_of s rid = unat (rid AND pool_size_mask s)"

section \<open>Initialisation\<close>

text \<open>The loop that rounds the pool size up to a power of two; \<open>None\<close> if it does not end.\<close>

definition order_loop :: "u64 \<Rightarrow> nat option" where
  "order_loop sess_pool_size =
     while_option (\<lambda>order. push_bit order 1 < sess_pool_size) (\<lambda>order. order + 1) 0"

text \<open>
  \<open>new SessionNode[n]\<close>: the constructor sets \<open>rpc_id\<close>, the members with constructors are
  empty, and the plain members keep what is in memory (\<open>garbage\<close>).
\<close>

definition fresh_node :: "('own, 'd) SessionNode \<Rightarrow> 'own \<Rightarrow> ('own, 'd) SessionNode" where
  "fresh_node garbage own0 =
     garbage\<lparr>rpc_id := 0, node_done := None, timer_owner := own0,
             endpoint_list := EndpointList_init\<rparr>"

definition Init ::
  "(nat \<Rightarrow> ('own, 'd) SessionNode) \<Rightarrow> 'own \<Rightarrow> u64 \<Rightarrow> u64 \<Rightarrow> nat \<Rightarrow>
   ('own, 'tw, 'msg, 'd, 'z) RpcSessionManager_scheme \<Rightarrow>
   ('own, 'tw, 'msg, 'd, 'z) RpcSessionManager_scheme option" where
  "Init garbage own0 rand sess_pool_size rpc_core_id s = do {
     order \<leftarrow> order_loop sess_pool_size;
     let order' = min order kRpcIdSeqPartBits;
     Some (s\<lparr>pool_size_order := order',
             pool_size_mask := push_bit order 1 - 1,
             sess_pool := map (\<lambda>i. fresh_node (garbage i) own0) [0..<2 ^ order'],
             next_rpc_id := push_bit kRpcIdSeqPartBits (of_nat (rpc_core_id + 1)) +
                            push_bit (kRpcIdSeqPartBits - 32) rand\<rparr>)
   }"

section \<open>Ids and nodes\<close>

definition seq_mask :: u64 where
  "seq_mask = push_bit kRpcIdSeqPartBits 1 - 1"

definition next_id :: "u64 \<Rightarrow> u64" where
  "next_id rid = (rid AND NOT seq_mask) + ((rid + 1) AND seq_mask)"

definition NextRpcId ::
  "('own, 'tw, 'msg, 'd, 'z) RpcSessionManager_scheme \<Rightarrow>
   u64 \<times> ('own, 'tw, 'msg, 'd, 'z) RpcSessionManager_scheme" where
  "NextRpcId s = (let rid = next_id (next_rpc_id s) in (rid, s\<lparr>next_rpc_id := rid\<rparr>))"

primrec alloc_loop ::
  "nat \<Rightarrow> ('own, 'tw, 'msg, 'd, 'z) RpcSessionManager_scheme \<Rightarrow>
   nat option \<times> ('own, 'tw, 'msg, 'd, 'z) RpcSessionManager_scheme" where
  "alloc_loop 0 s = (None, s)"
| "alloc_loop (Suc k) s =
     (let (rid, s1) = NextRpcId s; i = slot_of s1 rid in
      case node_at s1 i of
        None \<Rightarrow> (None, raise_fault s1)
      | Some node \<Rightarrow>
          if rpc_id node = 0 then (Some i, update_node i (\<lambda>n. n\<lparr>rpc_id := rid\<rparr>) s1)
          else alloc_loop k s1)"

definition AllocSessionNode ::
  "('own, 'tw, 'msg, 'd, 'z) RpcSessionManager_scheme \<Rightarrow>
   nat option \<times> ('own, 'tw, 'msg, 'd, 'z) RpcSessionManager_scheme" where
  "AllocSessionNode s = alloc_loop (2 ^ pool_size_order s) s"

definition FindSessionNode ::
  "u64 \<Rightarrow> ('own, 'tw, 'msg, 'd, 'z) RpcSessionManager_scheme \<Rightarrow>
   nat option \<times> ('own, 'tw, 'msg, 'd, 'z) RpcSessionManager_scheme" where
  "FindSessionNode rid s =
     (let i = slot_of s rid in
      case node_at s i of
        None \<Rightarrow> (None, raise_fault s)
      | Some node \<Rightarrow> ((if rpc_id node = rid then Some i else None), s))"

definition FreeSessionNode ::
  "nat \<Rightarrow> ('own, 'tw, 'msg, 'd, 'z) RpcSessionManager_scheme \<Rightarrow>
   ('own, 'tw, 'msg, 'd, 'z) RpcSessionManager_scheme" where
  "FreeSessionNode i = update_node i (\<lambda>n. n\<lparr>rpc_id := 0, node_done := None\<rparr>)"

section \<open>Callbacks and timers\<close>

definition invoke_done ::
  "('own, 'tw, 'msg, 'd, 'z) mgr_env \<Rightarrow> 'd \<Rightarrow> Result \<Rightarrow>
   ('own, 'tw, 'msg, 'd, 'z) RpcSessionManager_scheme \<Rightarrow>
   ('own, 'tw, 'msg, 'd, 'z) RpcSessionManager_scheme" where
  "invoke_done E d r s = run_done E d r (s\<lparr>trace := trace s @ [EvDone d r]\<rparr>)"

definition node_call_done ::
  "('own, 'tw, 'msg, 'd, 'z) mgr_env \<Rightarrow> nat \<Rightarrow> Result \<Rightarrow>
   ('own, 'tw, 'msg, 'd, 'z) RpcSessionManager_scheme \<Rightarrow>
   ('own, 'tw, 'msg, 'd, 'z) RpcSessionManager_scheme" where
  "node_call_done E i r s =
     (case node_at s i of
        None \<Rightarrow> raise_fault s
      | Some n \<Rightarrow>
          (case node_done n of
             None \<Rightarrow> raise_fault s
           | Some d \<Rightarrow> invoke_done E d r s))"

definition node_send ::
  "('own, 'tw, 'msg, 'd, 'z) mgr_env \<Rightarrow> nat \<Rightarrow> nat \<Rightarrow>
   ('own, 'tw, 'msg, 'd, 'z) RpcSessionManager_scheme \<Rightarrow>
   ('own, 'tw, 'msg, 'd, 'z) RpcSessionManager_scheme" where
  "node_send E i index s =
     (case node_at s i of
        None \<Rightarrow> raise_fault s
      | Some n \<Rightarrow>
          (case GetEndpoint (endpoint_list n) index of
             None \<Rightarrow> raise_fault s
           | Some addr \<Rightarrow>
               on_send_request E (node_method n) (node_request n) (rpc_id n) addr
                 (s\<lparr>trace := trace s @
                     [EvSend (node_method n) (node_request n) (rpc_id n) addr]\<rparr>)))"

definition node_arm_timer ::
  "('own, 'tw, 'msg, 'd, 'z) mgr_env \<Rightarrow> nat \<Rightarrow>
   ('own, 'tw, 'msg, 'd, 'z) RpcSessionManager_scheme \<Rightarrow>
   ('own, 'tw, 'msg, 'd, 'z) RpcSessionManager_scheme" where
  "node_arm_timer E i s =
     (case node_at s i of
        None \<Rightarrow> raise_fault s
      | Some n \<Rightarrow>
          (let (tw, own) =
             (if \<not> has_timer E (timer_owner n)
              then AddTimer E (timerw s) (default_rpc_timeout E) i (timer_owner n)
              else ResetTimer E (timerw s) (timer_owner n) (default_rpc_timeout E))
           in update_node i (\<lambda>n. n\<lparr>timer_owner := own\<rparr>) (s\<lparr>timerw := tw\<rparr>)))"

definition node_cancel_timer ::
  "('own, 'tw, 'msg, 'd, 'z) mgr_env \<Rightarrow> nat \<Rightarrow>
   ('own, 'tw, 'msg, 'd, 'z) RpcSessionManager_scheme \<Rightarrow>
   ('own, 'tw, 'msg, 'd, 'z) RpcSessionManager_scheme" where
  "node_cancel_timer E i s =
     (case node_at s i of
        None \<Rightarrow> raise_fault s
      | Some n \<Rightarrow>
          (let (tw, own) = CancelTimer E (timerw s) (timer_owner n)
           in update_node i (\<lambda>n. n\<lparr>timer_owner := own\<rparr>) (s\<lparr>timerw := tw\<rparr>)))"

section \<open>Operations\<close>

definition AddSession ::
  "('own, 'tw, 'msg, 'd, 'z) mgr_env \<Rightarrow> MethodDescriptor \<Rightarrow> msg_ptr \<Rightarrow> msg_ptr \<Rightarrow>
   EndpointList \<Rightarrow> 'd \<Rightarrow> ('own, 'tw, 'msg, 'd, 'z) RpcSessionManager_scheme \<Rightarrow>
   bool \<times> ('own, 'tw, 'msg, 'd, 'z) RpcSessionManager_scheme" where
  "AddSession E method request response endpoints done_f s0 =
     (let s = s0\<lparr>trace := trace s0 @ [EvAdd done_f (el_size endpoints)]\<rparr> in
      if el_size endpoints > 65536 then (False, s)
      else case AllocSessionNode s of
        (None, s1) \<Rightarrow> (False, invoke_done E done_f kInError s1)
      | (Some i, s1) \<Rightarrow>
          let s2 = update_node i
                (\<lambda>n. n\<lparr>node_method := method, node_request := request,
                       node_response := response, node_done := Some done_f\<rparr>) s1;
              s3 = node_arm_timer E i s2;
              s4 = update_node i (\<lambda>n. n\<lparr>endpoint_index := 0\<rparr>) s3;
              s5 = (case EndpointList_copy endpoints of
                      None \<Rightarrow> raise_fault s4
                    | Some l \<Rightarrow> update_node i (\<lambda>n. n\<lparr>endpoint_list := l\<rparr>) s4)
          in (True, node_send E i 0 s5))"

definition OnSendRequestFailed ::
  "('own, 'tw, 'msg, 'd, 'z) mgr_env \<Rightarrow> u64 \<Rightarrow>
   ('own, 'tw, 'msg, 'd, 'z) RpcSessionManager_scheme \<Rightarrow>
   ('own, 'tw, 'msg, 'd, 'z) RpcSessionManager_scheme" where
  "OnSendRequestFailed E rid s =
     (case FindSessionNode rid s of
        (None, s1) \<Rightarrow> s1
      | (Some i, s1) \<Rightarrow>
          let n = sess_pool s1 ! i;
              index = endpoint_index n + 1;
              s2 = update_node i (\<lambda>n. n\<lparr>endpoint_index := index\<rparr>) s1
          in if unat index < el_size (endpoint_list n) then node_send E i (unat index) s2
             else FreeSessionNode i (node_cancel_timer E i (node_call_done E i kTimeout s2)))"

definition OnRecvResponse ::
  "('own, 'tw, 'msg, 'd, 'z) mgr_env \<Rightarrow> string \<Rightarrow> string \<Rightarrow> u64 \<Rightarrow> Result \<Rightarrow> byte list \<Rightarrow>
   ('own, 'tw, 'msg, 'd, 'z) RpcSessionManager_scheme \<Rightarrow>
   ('own, 'tw, 'msg, 'd, 'z) RpcSessionManager_scheme" where
  "OnRecvResponse E service method rid result resp_body s =
     (case FindSessionNode rid s of
        (None, s1) \<Rightarrow> s1
      | (Some i, s1) \<Rightarrow>
          let n = sess_pool s1 ! i in
          if service_name (node_method n) \<noteq> service \<or> method_name (node_method n) \<noteq> method
          then s1
          else
            let (ok, m) = ParseFromArray E (msgs s1 (node_response n)) resp_body;
                s2 = s1\<lparr>msgs := (msgs s1)(node_response n := m)\<rparr>
            in if \<not> ok then s2
               else FreeSessionNode i (node_cancel_timer E i (node_call_done E i result s2)))"

definition OnSessionTimeout ::
  "('own, 'tw, 'msg, 'd, 'z) mgr_env \<Rightarrow> nat \<Rightarrow>
   ('own, 'tw, 'msg, 'd, 'z) RpcSessionManager_scheme \<Rightarrow>
   ('own, 'tw, 'msg, 'd, 'z) RpcSessionManager_scheme" where
  "OnSessionTimeout E i s =
     (case node_at s i of
        None \<Rightarrow> raise_fault s
      | Some n \<Rightarrow>
          if rpc_id n \<noteq> 0 then FreeSessionNode i (node_call_done E i kTimeout s) else s)"

end
