(* ===== verification/SessionIds.thy ===== *)
theory SessionIds
  imports SessionManager
begin

text \<open>
  The 64-bit ids of sessions: 16 bits of worker number plus one, 48 bits of sequence number.
  \<open>next_id\<close> (\<^verbatim>\<open>RpcSessionManager::NextRpcId\<close>) steps the sequence modulo \<open>2 ^ 48\<close> and keeps
  the worker part; the slot of an id is its sequence number modulo the pool size. The locale
  \<open>ring_counter\<close> states what the allocation loop relies on.
\<close>

section \<open>Parts of an id\<close>

definition core_part :: "u64 \<Rightarrow> nat" where
  "core_part x = unat (drop_bit 48 x)"

definition seq_part :: "u64 \<Rightarrow> nat" where
  "seq_part x = unat (take_bit 48 x)"

lemma seq_part_mod: "seq_part x = unat x mod 2 ^ 48"
proof -
  have "seq_part x = take_bit 48 (unat x)" by (simp add: seq_part_def unsigned_take_bit_eq)
  then show ?thesis by (simp add: take_bit_eq_mod)
qed

lemma core_part_div: "core_part x = unat x div 2 ^ 48"
proof -
  have "core_part x = drop_bit 48 (unat x)" by (simp add: core_part_def unat_drop_bit_eq)
  then show ?thesis by (simp add: drop_bit_eq_div)
qed

lemma seq_part_less [simp]: "seq_part x < 2 ^ 48"
  by (simp add: seq_part_mod)

lemma core_part_less: "core_part x < 2 ^ 16"
proof -
  have "unat x < 2 ^ 16 * 2 ^ 48" using unsigned_less [of x, where ?'a = nat] by simp
  then show ?thesis by (simp only: core_part_div less_mult_imp_div_less)
qed

lemma parts_eq: "core_part x = core_part y \<Longrightarrow> seq_part x = seq_part y \<Longrightarrow> x = y"
  by (metis core_part_div seq_part_mod div_mult_mod_eq word_unat_eq_iff)

lemma core_part_0 [simp]: "core_part 0 = 0"
  by (simp add: core_part_div)

lemma nonzero_of_core: "0 < core_part x \<Longrightarrow> x \<noteq> 0"
  by auto

section \<open>Stepping\<close>

lemma seq_mask_eq: "seq_mask = mask 48"
  by (simp add: seq_mask_def mask_eq_exp_minus_1 push_bit_eq_mult)

lemma next_id_or: "next_id x = (x AND NOT (mask 48)) OR ((x + 1) AND mask 48)"
  unfolding next_id_def seq_mask_eq
  by (rule disjunctive_add) (auto simp: bit_and_iff bit_not_iff bit_mask_iff)

lemma next_id_core [simp]: "core_part (next_id x) = core_part x"
proof -
  have "drop_bit 48 (next_id x) = drop_bit 48 x"
    by (rule bit_word_eqI) (auto simp: next_id_or bit_simps dest: bit_imp_le_length)
  then show ?thesis by (simp add: core_part_def)
qed

lemma next_id_seq: "seq_part (next_id x) = (seq_part x + 1) mod 2 ^ 48"
proof -
  have "take_bit 48 (next_id x) = take_bit 48 (x + 1)"
    by (rule bit_word_eqI) (auto simp: next_id_or bit_simps)
  then have "seq_part (next_id x) = seq_part (x + 1)" by (simp add: seq_part_def)
  also have "\<dots> = ((unat x + 1) mod 2 ^ 64) mod 2 ^ 48"
    by (simp add: seq_part_mod unat_word_ariths)
  also have "\<dots> = (unat x + 1) mod 2 ^ 48"
    by (rule mod_mod_cancel) (simp add: le_imp_power_dvd)
  finally show ?thesis by (simp add: seq_part_mod mod_simps)
qed

lemma next_ids_core [simp]: "core_part ((next_id ^^ k) x) = core_part x"
  by (induction k) simp_all

lemma next_ids_seq: "seq_part ((next_id ^^ k) x) = (seq_part x + k) mod 2 ^ 48"
proof (induction k)
  case (Suc k)
  then show ?case by (simp add: next_id_seq mod_simps)
qed (simp add: seq_part_mod)

section \<open>Slots\<close>

definition ring_slot :: "nat \<Rightarrow> u64 \<Rightarrow> nat" where
  "ring_slot order x = unat (x AND mask order)"

lemma ring_slot_less: "order \<le> 48 \<Longrightarrow> ring_slot order x < 2 ^ order"
proof -
  assume "order \<le> 48"
  have "ring_slot order x = take_bit order (unat x)"
    by (simp add: ring_slot_def flip: take_bit_eq_mask unsigned_take_bit_eq)
  then show ?thesis by (simp add: take_bit_eq_mod)
qed

lemma ring_slot_seq:
  assumes "order \<le> 48"
  shows "ring_slot order x = seq_part x mod 2 ^ order"
proof -
  have "ring_slot order x = take_bit order (unat x)"
    by (simp add: ring_slot_def flip: take_bit_eq_mask unsigned_take_bit_eq)
  also have "\<dots> = unat x mod 2 ^ order" by (simp add: take_bit_eq_mod)
  also have "\<dots> = (unat x mod 2 ^ 48) mod 2 ^ order"
    using mod_pow2_mod [OF assms, of "unat x"] by simp
  finally show ?thesis by (simp add: seq_part_mod)
qed

lemma ring_slot_next:
  assumes "order \<le> 48"
  shows "ring_slot order (next_id x) = (ring_slot order x + 1) mod 2 ^ order"
proof -
  have "((seq_part x + 1) mod 2 ^ 48) mod 2 ^ order = (seq_part x + 1) mod 2 ^ order"
    using mod_pow2_mod [OF assms, of "seq_part x + 1"] by simp
  with assms show ?thesis by (simp add: ring_slot_seq next_id_seq mod_simps)
qed

section \<open>The interface of a ring counter\<close>

text \<open>A stepping counter whose slots go round a ring of n cells.\<close>

locale ring_counter =
  fixes step :: "'c \<Rightarrow> 'c"
    and slot :: "'c \<Rightarrow> nat"
    and n :: nat
  assumes slot_step: "slot (step c) = (slot c + 1) mod n"
    and slot_less: "slot c < n"
begin

lemma slot_steps: "slot ((step ^^ k) c) = (slot c + k) mod n"
  using slot_less [of c] by (induction k) (simp_all add: slot_step mod_simps)

lemma covers: "\<forall>i<n. \<exists>k. 0 < k \<and> k \<le> n \<and> slot ((step ^^ k) c) = i"
proof (intro allI impI)
  fix i assume i: "i < n"
  define k where "k = (if slot c < i then i - slot c else i + n - slot c)"
  from i slot_less [of c] have "0 < k" "k \<le> n" "slot c + k = i \<or> slot c + k = i + n"
    by (auto simp: k_def)
  moreover from this i have "slot ((step ^^ k) c) = i"
    by (auto simp: slot_steps)
  ultimately show "\<exists>k. 0 < k \<and> k \<le> n \<and> slot ((step ^^ k) c) = i" by blast
qed

end

interpretation ids: ring_counter next_id "ring_slot (min order 48)" "2 ^ min order 48" for order
  by unfold_locales (simp_all add: ring_slot_next ring_slot_less)

section \<open>Properties\<close>

text \<open>C29: the id generator keeps the worker part of the id for ever and repeats no sequence
  number within any \<open>2 ^ 48\<close> consecutive steps: two of them give different ids, and after
  \<open>2 ^ 48\<close> steps the id is the first one again. So a late response carries an id that no
  session can have again before \<open>2 ^ 48\<close> more allocations.\<close>

theorem ids_unique_in_window:
  "core_part ((next_id ^^ i) x) = core_part x \<and>
   ((next_id ^^ i) x = (next_id ^^ j) x \<longleftrightarrow> i mod 2 ^ 48 = j mod 2 ^ 48)"
proof -
  have "(next_id ^^ i) x = (next_id ^^ j) x \<longleftrightarrow>
      (seq_part x + i) mod 2 ^ 48 = (seq_part x + j) mod 2 ^ 48"
    by (metis next_ids_core next_ids_seq parts_eq)
  also have "\<dots> \<longleftrightarrow> i mod 2 ^ 48 = j mod 2 ^ 48"
    by (rule mod_add_cancel_left_nat)
  finally show ?thesis by simp
qed

end
