(* ===== verification/SessionInvariant.thy ===== *)
theory SessionInvariant
  imports SessionIds "HOL-Library.Multiset"
begin

text \<open>
  The invariant of the session table, the contract of its callbacks as a locale, and the
  preservation of both by every operation. The contract allows a callback to add sessions
  (a \<open>done\<close> closure that issues another RPC); it must keep the invariant, leave occupied
  nodes alone and keep the books: every closure given to \<open>AddSession\<close> has been called, is
  stored in an occupied node, or was dropped because the endpoint list was too long.
\<close>

type_synonym ('own, 'tw, 'msg, 'd, 'z) mgr = "('own, 'tw, 'msg, 'd, 'z) RpcSessionManager_scheme"

section \<open>Invariant\<close>

definition geometry_ok :: "('own, 'tw, 'msg, 'd, 'z) mgr \<Rightarrow> bool" where
  "geometry_ok s \<longleftrightarrow>
     pool_size_order s \<le> 48 \<and> pool_size_mask s = mask (pool_size_order s) \<and>
     length (sess_pool s) = 2 ^ pool_size_order s"

definition node_ok :: "nat \<Rightarrow> nat \<Rightarrow> nat \<Rightarrow> ('own, 'd) SessionNode \<Rightarrow> bool" where
  "node_ok core order i n \<longleftrightarrow>
     core_part (rpc_id n) = Suc core \<and> ring_slot order (rpc_id n) = i \<and>
     node_done n \<noteq> None \<and> el_wf (endpoint_list n)"

definition mgr_inv :: "nat \<Rightarrow> ('own, 'tw, 'msg, 'd, 'z) mgr \<Rightarrow> bool" where
  "mgr_inv core s \<longleftrightarrow>
     geometry_ok s \<and> core_part (next_rpc_id s) = Suc core \<and> \<not> fault s \<and>
     (\<forall>i<length (sess_pool s). rpc_id (sess_pool s ! i) \<noteq> 0 \<longrightarrow>
        node_ok core (pool_size_order s) i (sess_pool s ! i))"

section \<open>Books\<close>

fun ev_added :: "'d event \<Rightarrow> 'd multiset" where
  "ev_added (EvAdd d n) = {#d#}"
| "ev_added _ = {#}"

fun ev_dropped :: "'d event \<Rightarrow> 'd multiset" where
  "ev_dropped (EvAdd d n) = (if n > 65536 then {#d#} else {#})"
| "ev_dropped _ = {#}"

fun ev_answered :: "'d event \<Rightarrow> 'd multiset" where
  "ev_answered (EvDone d r) = {#d#}"
| "ev_answered _ = {#}"

definition node_holds :: "('own, 'd) SessionNode \<Rightarrow> 'd multiset" where
  "node_holds n = (if rpc_id n = 0 then {#} else (case node_done n of None \<Rightarrow> {#} | Some d \<Rightarrow> {#d#}))"

definition added :: "('own, 'tw, 'msg, 'd, 'z) mgr \<Rightarrow> 'd multiset" where
  "added s = sum_list (map ev_added (trace s))"

definition dropped :: "('own, 'tw, 'msg, 'd, 'z) mgr \<Rightarrow> 'd multiset" where
  "dropped s = sum_list (map ev_dropped (trace s))"

definition answered :: "('own, 'tw, 'msg, 'd, 'z) mgr \<Rightarrow> 'd multiset" where
  "answered s = sum_list (map ev_answered (trace s))"

definition pending :: "('own, 'tw, 'msg, 'd, 'z) mgr \<Rightarrow> 'd multiset" where
  "pending s = sum_list (map node_holds (sess_pool s))"

text \<open>\<open>owes X s\<close>: the closures in X have been called but their nodes are not freed yet.\<close>

definition owes :: "'d multiset \<Rightarrow> ('own, 'tw, 'msg, 'd, 'z) mgr \<Rightarrow> bool" where
  "owes X s \<longleftrightarrow> added s + X = answered s + pending s + dropped s"

section \<open>What one operation or callback may do to the table\<close>

definition keeps ::
  "nat \<Rightarrow> ('own, 'tw, 'msg, 'd, 'z) mgr \<Rightarrow> ('own, 'tw, 'msg, 'd, 'z) mgr \<Rightarrow> bool" where
  "keeps core s s' \<longleftrightarrow>
     mgr_inv core s' \<and> pool_size_order s' = pool_size_order s \<and>
     (\<forall>i<length (sess_pool s). rpc_id (sess_pool s ! i) \<noteq> 0 \<longrightarrow> sess_pool s' ! i = sess_pool s ! i) \<and>
     (\<forall>X. owes X s \<longrightarrow> owes X s')"

text \<open>The same, but for the node i, which the operation frees.\<close>

definition keeps_but ::
  "nat \<Rightarrow> nat \<Rightarrow> ('own, 'tw, 'msg, 'd, 'z) mgr \<Rightarrow> ('own, 'tw, 'msg, 'd, 'z) mgr \<Rightarrow> bool" where
  "keeps_but core i s s' \<longleftrightarrow>
     mgr_inv core s' \<and> pool_size_order s' = pool_size_order s \<and>
     (\<forall>j<length (sess_pool s). j \<noteq> i \<longrightarrow> rpc_id (sess_pool s ! j) \<noteq> 0 \<longrightarrow>
        sess_pool s' ! j = sess_pool s ! j) \<and>
     (\<forall>X. owes X s \<longrightarrow> owes X s')"

lemma mgr_invD:
  assumes "mgr_inv core s"
  shows "geometry_ok s" "core_part (next_rpc_id s) = Suc core" "\<not> fault s"
    "\<And>i. i < length (sess_pool s) \<Longrightarrow> rpc_id (sess_pool s ! i) \<noteq> 0 \<Longrightarrow>
       node_ok core (pool_size_order s) i (sess_pool s ! i)"
  using assms by (auto simp: mgr_inv_def)

lemma slot_of_ring: "geometry_ok s \<Longrightarrow> slot_of s x = ring_slot (pool_size_order s) x"
  by (simp add: slot_of_def ring_slot_def geometry_ok_def)

lemma slot_in_pool: "geometry_ok s \<Longrightarrow> slot_of s x < length (sess_pool s)"
  by (simp add: slot_of_ring) (simp add: geometry_ok_def ring_slot_less)

lemma keeps_pool_length:
  "mgr_inv core s \<Longrightarrow> keeps core s s' \<Longrightarrow> length (sess_pool s') = length (sess_pool s)"
  by (auto simp: keeps_def mgr_inv_def geometry_ok_def)

lemma keeps_refl: "mgr_inv core s \<Longrightarrow> keeps core s s"
  by (simp add: keeps_def)

lemma keeps_trans:
  assumes "mgr_inv core s" "keeps core s s'" "keeps core s' s''"
  shows "keeps core s s''"
  using assms keeps_pool_length [OF assms(1,2)] by (auto simp: keeps_def)

lemma keeps_imp_but: "keeps core s s' \<Longrightarrow> keeps_but core i s s'"
  by (auto simp: keeps_def keeps_but_def)

text \<open>Fields outside the table do not matter.\<close>

lemma frame_simps [simp]:
  "mgr_inv core (s\<lparr>msgs := m\<rparr>) = mgr_inv core s"
  "mgr_inv core (s\<lparr>timerw := w\<rparr>) = mgr_inv core s"
  "mgr_inv core (s\<lparr>trace := t\<rparr>) = mgr_inv core s"
  "owes X (s\<lparr>msgs := m\<rparr>) = owes X s"
  "owes X (s\<lparr>timerw := w\<rparr>) = owes X s"
  "owes X (s\<lparr>next_rpc_id := x\<rparr>) = owes X s"
  "geometry_ok (s\<lparr>trace := t\<rparr>) = geometry_ok s"
  "geometry_ok (s\<lparr>msgs := m\<rparr>) = geometry_ok s"
  by (simp_all add: mgr_inv_def geometry_ok_def owes_def added_def answered_def pending_def
      dropped_def)

lemma pending_update:
  assumes "i < length (sess_pool s)"
  shows "pending (s\<lparr>sess_pool := (sess_pool s)[i := n]\<rparr>) + node_holds (sess_pool s ! i) =
    pending s + node_holds n"
  using sum_list_map_update [OF assms, of node_holds n] by (simp add: pending_def)

end
