(* ===== verification/SessionAlloc.thy ===== *)
theory SessionAlloc
  imports SessionInvariant
begin

text \<open>
  What \<open>AllocSessionNode\<close>, \<open>FindSessionNode\<close> and \<open>Init\<close> compute: allocation visits the
  slots of consecutive ids and fails only on a full pool, lookup finds exactly the stored ids,
  initialisation establishes the invariant.
\<close>

section \<open>Allocation\<close>

definition alloc_found :: "nat \<Rightarrow> u64 \<Rightarrow> ('own, 'tw, 'msg, 'd, 'z) mgr \<Rightarrow> ('own, 'tw, 'msg, 'd, 'z) mgr" where
  "alloc_found i rid s =
     s\<lparr>next_rpc_id := rid, sess_pool := (sess_pool s)[i := (sess_pool s ! i)\<lparr>rpc_id := rid\<rparr>]\<rparr>"

text \<open>The slots of the first \<open>k\<close> ids after the current one are all occupied.\<close>

definition tried :: "nat \<Rightarrow> ('own, 'tw, 'msg, 'd, 'z) mgr \<Rightarrow> bool" where
  "tried k s \<longleftrightarrow> (\<forall>j. 0 < j \<and> j \<le> k \<longrightarrow>
     rpc_id (sess_pool s ! slot_of s ((next_id ^^ j) (next_rpc_id s))) \<noteq> 0)"

lemma tried_step:
  assumes "rpc_id (sess_pool s ! slot_of s (next_id (next_rpc_id s))) \<noteq> 0"
    and "tried k (s\<lparr>next_rpc_id := next_id (next_rpc_id s)\<rparr>)"
  shows "tried (Suc k) s"
  unfolding tried_def
proof (intro allI impI)
  fix j assume j: "0 < j \<and> j \<le> Suc k"
  show "rpc_id (sess_pool s ! slot_of s ((next_id ^^ j) (next_rpc_id s))) \<noteq> 0"
  proof (cases "j = 1")
    case True
    with assms(1) show ?thesis by simp
  next
    case False
    with j obtain l where "j = Suc l" "0 < l" "l \<le> k" by (cases j) auto
    with assms(2) show ?thesis
      by (auto simp: tried_def slot_of_def funpow_swap1)
  qed
qed

lemma alloc_loop_spec:
  assumes "geometry_ok s"
  shows "(alloc_loop k s = (None, s\<lparr>next_rpc_id := (next_id ^^ k) (next_rpc_id s)\<rparr>) \<and> tried k s) \<or>
    (\<exists>j rid. j < k \<and> tried j s \<and> rid = (next_id ^^ Suc j) (next_rpc_id s) \<and>
       rpc_id (sess_pool s ! slot_of s rid) = 0 \<and>
       alloc_loop k s = (Some (slot_of s rid), alloc_found (slot_of s rid) rid s))"
  using assms
proof (induction k arbitrary: s)
  case 0
  then show ?case by (simp add: tried_def)
next
  case (Suc k)
  define rid where "rid = next_id (next_rpc_id s)"
  define t where "t = s\<lparr>next_rpc_id := rid\<rparr>"
  have t: "geometry_ok t" "sess_pool t = sess_pool s" "next_rpc_id t = rid"
    "slot_of t = slot_of s"
    using Suc.prems by (simp_all add: t_def geometry_ok_def fun_eq_iff slot_of_def)
  have at: "node_at t (slot_of t rid) = Some (sess_pool s ! slot_of s rid)"
    using slot_in_pool [OF t(1), of rid] by (simp add: node_at_def t)
  show ?case
  proof (cases "rpc_id (sess_pool s ! slot_of s rid) = 0")
    case True
    then have "alloc_loop (Suc k) s = (Some (slot_of s rid), alloc_found (slot_of s rid) rid s)"
      using at t
      by (simp add: NextRpcId_def rid_def [symmetric] t_def [symmetric] update_node_def)
        (simp add: t_def alloc_found_def Let_def)
    with True show ?thesis
      by (intro disjI2 exI [of _ 0] exI [of _ rid]) (simp del: alloc_loop.simps add: tried_def rid_def)
  next
    case False
    then have loop: "alloc_loop (Suc k) s = alloc_loop k t"
      using at t by (simp add: NextRpcId_def rid_def [symmetric] t_def [symmetric])
    have first: "tried j t \<Longrightarrow> tried (Suc j) s" for j
      using False tried_step [of s j] by (simp add: t_def rid_def)
    have again: "(next_id ^^ j) rid = (next_id ^^ Suc j) (next_rpc_id s)" for j
      by (simp add: rid_def funpow_swap1)
    from Suc.IH [OF t(1)] show ?thesis
    proof (elim disjE exE conjE)
      assume "tried k t" "alloc_loop k t = (None, t\<lparr>next_rpc_id := (next_id ^^ k) (next_rpc_id t)\<rparr>)"
      then show ?thesis using first loop again [of k] t by (simp add: t_def)
    next
      fix j id'
      assume j: "j < k" "tried j t" "id' = (next_id ^^ Suc j) (next_rpc_id t)"
        "rpc_id (sess_pool t ! slot_of t id') = 0"
        "alloc_loop k t = (Some (slot_of t id'), alloc_found (slot_of t id') id' t)"
      then have "alloc_found (slot_of t id') id' t = alloc_found (slot_of s id') id' s"
        by (simp add: alloc_found_def t_def slot_of_def)
      with j first loop again [of "Suc j"] t show ?thesis
        by (intro disjI2 exI [of _ "Suc j"]) auto
    qed
  qed
qed

text \<open>Trying as many ids as the pool has slots tries every slot.\<close>

lemma tried_all_full:
  assumes "geometry_ok s" and "tried (2 ^ pool_size_order s) s" and "i < length (sess_pool s)"
  shows "rpc_id (sess_pool s ! i) \<noteq> 0"
proof -
  let ?o = "pool_size_order s"
  from assms have o: "?o \<le> 48" "min ?o 48 = ?o" "i < 2 ^ ?o" by (auto simp: geometry_ok_def)
  from ids.covers [of ?o "next_rpc_id s"] o obtain k
    where "0 < k" "k \<le> 2 ^ ?o" "ring_slot ?o ((next_id ^^ k) (next_rpc_id s)) = i" by auto
  with assms show ?thesis by (auto simp: tried_def slot_of_ring)
qed

lemma AllocSessionNode_cases:
  assumes "mgr_inv core s"
  obtains (full) rid where "AllocSessionNode s = (None, s\<lparr>next_rpc_id := rid\<rparr>)"
      "core_part rid = Suc core" "\<forall>i<length (sess_pool s). rpc_id (sess_pool s ! i) \<noteq> 0"
  | (found) i rid where "AllocSessionNode s = (Some i, alloc_found i rid s)"
      "i < length (sess_pool s)" "rpc_id (sess_pool s ! i) = 0" "core_part rid = Suc core"
      "ring_slot (pool_size_order s) rid = i"
proof -
  note inv = mgr_invD [OF assms]
  from alloc_loop_spec [OF inv(1), of "2 ^ pool_size_order s"] show thesis
  proof (elim disjE exE conjE)
    assume "tried (2 ^ pool_size_order s) s"
      "alloc_loop (2 ^ pool_size_order s) s =
        (None, s\<lparr>next_rpc_id := (next_id ^^ 2 ^ pool_size_order s) (next_rpc_id s)\<rparr>)"
    then show thesis
      using inv tried_all_full [OF inv(1)]
      by (intro full [of "(next_id ^^ 2 ^ pool_size_order s) (next_rpc_id s)"])
        (auto simp: AllocSessionNode_def)
  next
    fix j rid
    assume "rid = (next_id ^^ Suc j) (next_rpc_id s)" "rpc_id (sess_pool s ! slot_of s rid) = 0"
      "alloc_loop (2 ^ pool_size_order s) s = (Some (slot_of s rid), alloc_found (slot_of s rid) rid s)"
    then show thesis
      using inv slot_in_pool [OF inv(1)]
      by (intro found [of "slot_of s rid" rid]) (auto simp: AllocSessionNode_def slot_of_ring)
  qed
qed

section \<open>Lookup\<close>

lemma FindSessionNode_eq:
  assumes "geometry_ok s"
  shows "FindSessionNode rid s =
    ((if rpc_id (sess_pool s ! slot_of s rid) = rid then Some (slot_of s rid) else None), s)"
  using slot_in_pool [OF assms] by (simp add: FindSessionNode_def node_at_def)

text \<open>An id is found exactly if some node of the pool carries it.\<close>

lemma FindSessionNode_iff:
  assumes "mgr_inv core s" and "rid \<noteq> 0"
  shows "FindSessionNode rid s = (Some i, s) \<longleftrightarrow>
    i < length (sess_pool s) \<and> rpc_id (sess_pool s ! i) = rid"
proof -
  note inv = mgr_invD [OF assms(1)]
  have "slot_of s rid = i" if "i < length (sess_pool s)" "rpc_id (sess_pool s ! i) = rid"
    using inv(4) [OF that(1)] that assms(2) by (auto simp: node_ok_def slot_of_ring [OF inv(1)])
  with slot_in_pool [OF inv(1)] show ?thesis
    by (auto simp: FindSessionNode_eq [OF inv(1)])
qed

lemma live_id_unique:
  assumes "mgr_inv core s" and "i < length (sess_pool s)" "j < length (sess_pool s)"
    and "rpc_id (sess_pool s ! i) = rpc_id (sess_pool s ! j)" "rpc_id (sess_pool s ! i) \<noteq> 0"
  shows "i = j"
  using mgr_invD(4) [OF assms(1,2)] mgr_invD(4) [OF assms(1,3)] assms(4,5)
  by (simp add: node_ok_def)

section \<open>Initialisation\<close>

lemma order_loop_spec:
  assumes "n \<le> 2 ^ 63"
  shows "\<exists>k\<le>63. order_loop n = Some k \<and> unat n \<le> 2 ^ k \<and> (0 < k \<longrightarrow> 2 ^ (k - 1) < unat n)"
proof -
  let ?P = "\<lambda>k. k \<le> 63 \<and> (0 < k \<longrightarrow> 2 ^ (k - 1) < unat n)"
  let ?b = "\<lambda>k. push_bit k (1::u64) < n"
  have n: "unat n \<le> 2 ^ 63" using assms by (simp add: word_le_nat_alt)
  have exp: "unat (push_bit k (1::u64)) = 2 ^ k" if "k \<le> 63" for k
    using that by (intro unat_push_bit_1) simp
  have b: "?b k \<longleftrightarrow> 2 ^ k < unat n" if "k \<le> 63" for k
    using exp [OF that] by (simp add: word_less_nat_alt)
  have step: "?P (k + 1)" if "?P k" "?b k" for k
  proof -
    from that b have "(2::nat) ^ k < unat n" by blast
    from this n have "(2::nat) ^ k < 2 ^ 63" by (rule less_le_trans)
    then have "k < 63" by (simp only: power_strict_increasing_iff)
    with \<open>2 ^ k < unat n\<close> show ?thesis by simp
  qed
  have "\<exists>t. while_option ?b (\<lambda>k. k + 1) 0 = Some t"
    by (rule measure_while_option_Some [where P = ?P and f = "\<lambda>k. 64 - k"])
      (use step in auto)
  then obtain k where k: "order_loop n = Some k" by (auto simp: order_loop_def)
  have "?P k"
    by (rule while_option_rule [where P = ?P, OF _ k [unfolded order_loop_def]]) (use step in auto)
  moreover have "\<not> ?b k" using while_option_stop [OF k [unfolded order_loop_def]] .
  ultimately show ?thesis using k b [of k] by auto
qed

lemma Init_inv:
  assumes "n \<le> 2 ^ 48" and "core < 2 ^ 16 - 1" and "rand < 2 ^ 32" and "\<not> fault s0"
  shows "\<exists>s. Init garbage own0 rand n core s0 = Some s \<and> mgr_inv core s \<and>
    unat n \<le> length (sess_pool s) \<and> length (sess_pool s) < 2 * max 1 (unat n) \<and>
    (\<forall>i<length (sess_pool s). rpc_id (sess_pool s ! i) = 0)"
proof -
  have n48: "unat n \<le> 2 ^ 48" using assms(1) by (simp add: word_le_nat_alt)
  have "n \<le> 2 ^ 63" using assms(1) by (rule order_trans) simp
  from order_loop_spec [OF this] obtain k where k: "order_loop n = Some k" "unat n \<le> 2 ^ k"
    "0 < k \<longrightarrow> 2 ^ (k - 1) < unat n" by blast
  have "k \<le> 48"
  proof (cases k)
    case (Suc j)
    with k(3) n48 have "(2::nat) ^ j < 2 ^ 48" by simp
    then have "j < 48" by (simp only: power_strict_increasing_iff)
    with Suc show ?thesis by simp
  qed simp
  have two: "(2::nat) ^ k < 2 * max 1 (unat n)"
    using k(3) by (cases k) auto
  have rid: "core_part (push_bit 48 (of_nat (core + 1)) + push_bit 16 rand) = Suc core"
  proof -
    have r: "unat rand < 2 ^ 32" using assms(3) by (simp add: word_less_nat_alt)
    then have r': "unat (push_bit 16 rand) = unat rand * 2 ^ 16"
      by (intro unat_push_bit) simp
    have "unat (of_nat (core + 1) :: u64) = core + 1"
      using assms(2) by (simp only: unsigned_of_nat take_bit_eq_mod) simp
    with assms(2) have c: "unat (push_bit 48 (of_nat (core + 1) :: u64)) = (core + 1) * 2 ^ 48"
      by (subst unat_push_bit) (simp_all only:, simp)
    have "unat (push_bit 48 (of_nat (core + 1) :: u64) + push_bit 16 rand) =
        (core + 1) * 2 ^ 48 + unat rand * 2 ^ 16"
      using assms(2) r r' c by (subst unat_add_lem [THEN iffD1]) (simp_all only:, simp)
    moreover have "((core + 1) * 2 ^ 48 + unat rand * 2 ^ 16) div 2 ^ 48 = Suc core"
      using r by (simp add: div_nat_eqI)
    ultimately show ?thesis by (simp only: core_part_div)
  qed
  from k \<open>k \<le> 48\<close> two rid assms(4) show ?thesis
    by (auto simp: Init_def mgr_inv_def geometry_ok_def fresh_node_def min_absorb1
        mask_eq_exp_minus_1 push_bit_of_1)
qed

end
