(* ===== verification/SessionOps.thy ===== *)
theory SessionOps
  imports SessionAlloc
begin

text \<open>
  The operations in closed form, the contract of the callbacks (locale \<open>session_callbacks\<close>)
  and, inside it, the preservation of the invariant and the books by every operation. The
  contract is interpreted on the family \<open>nested_env\<close>: user closures that issue further RPCs
  from inside their \<open>done\<close>, to any nesting depth.
\<close>

section \<open>Helpers in closed form\<close>

lemma update_node_in:
  "i < length (sess_pool s) \<Longrightarrow>
   update_node i f s = s\<lparr>sess_pool := (sess_pool s)[i := f (sess_pool s ! i)]\<rparr>"
  by (simp add: update_node_def node_at_def)

lemma node_call_done_in:
  "i < length (sess_pool s) \<Longrightarrow> node_done (sess_pool s ! i) = Some d \<Longrightarrow>
   node_call_done E i r s = invoke_done E d r s"
  by (simp add: node_call_done_def node_at_def)

lemma node_send_in:
  assumes "i < length (sess_pool s)" and "n = sess_pool s ! i"
    and "el_wf (endpoint_list n)" and "k < el_size (endpoint_list n)"
  shows "node_send E i k s =
    (let a = el_list (endpoint_list n) ! k in
     on_send_request E (node_method n) (node_request n) (rpc_id n) a
       (s\<lparr>trace := trace s @ [EvSend (node_method n) (node_request n) (rpc_id n) a]\<rparr>))"
  using assms by (simp add: node_send_def node_at_def GetEndpoint_eq Let_def)

definition cancelled ::
  "('own, 'tw, 'msg, 'd, 'z) mgr_env \<Rightarrow> nat \<Rightarrow> ('own, 'tw, 'msg, 'd, 'z) mgr \<Rightarrow> 'tw \<times> 'own" where
  "cancelled E i s = CancelTimer E (timerw s) (timer_owner (sess_pool s ! i))"

definition freed :: "'own \<Rightarrow> ('own, 'd) SessionNode \<Rightarrow> ('own, 'd) SessionNode" where
  "freed own n = n\<lparr>timer_owner := own, rpc_id := 0, node_done := None\<rparr>"

lemma cancel_free_in:
  "i < length (sess_pool s) \<Longrightarrow>
   FreeSessionNode i (node_cancel_timer E i s) =
     s\<lparr>timerw := fst (cancelled E i s),
       sess_pool := (sess_pool s)[i := freed (snd (cancelled E i s)) (sess_pool s ! i)]\<rparr>"
  by (simp add: FreeSessionNode_def node_cancel_timer_def node_at_def update_node_def freed_def
      cancelled_def split: prod.split)

lemma free_in:
  "i < length (sess_pool s) \<Longrightarrow>
   FreeSessionNode i s =
     s\<lparr>sess_pool := (sess_pool s)[i := freed (timer_owner (sess_pool s ! i)) (sess_pool s ! i)]\<rparr>"
  by (simp add: FreeSessionNode_def update_node_in freed_def)

lemma freed_free [simp]: "rpc_id (freed own n) = 0" "node_holds (freed own n) = {#}"
  by (simp_all add: freed_def node_holds_def)

definition armed ::
  "('own, 'tw, 'msg, 'd, 'z) mgr_env \<Rightarrow> nat \<Rightarrow> ('own, 'tw, 'msg, 'd, 'z) mgr \<Rightarrow> 'tw \<times> 'own" where
  "armed E i s =
     (let n = sess_pool s ! i in
      if \<not> has_timer E (timer_owner n)
      then AddTimer E (timerw s) (default_rpc_timeout E) i (timer_owner n)
      else ResetTimer E (timerw s) (timer_owner n) (default_rpc_timeout E))"

definition filled ::
  "MethodDescriptor \<Rightarrow> msg_ptr \<Rightarrow> msg_ptr \<Rightarrow> EndpointList \<Rightarrow> 'd \<Rightarrow> u64 \<Rightarrow> 'own \<Rightarrow>
   ('own, 'd) SessionNode \<Rightarrow> ('own, 'd) SessionNode" where
  "filled m rq rp l d rid own n =
     n\<lparr>rpc_id := rid, node_method := m, node_request := rq, node_response := rp,
       node_done := Some d, timer_owner := own, endpoint_index := 0, endpoint_list := l\<rparr>"

text \<open>The table after a successful \<open>AddSession\<close>, before the first request is sent.\<close>

definition with_session ::
  "('own, 'tw, 'msg, 'd, 'z) mgr_env \<Rightarrow> MethodDescriptor \<Rightarrow> msg_ptr \<Rightarrow> msg_ptr \<Rightarrow> EndpointList \<Rightarrow>
   'd \<Rightarrow> nat \<Rightarrow> u64 \<Rightarrow> ('own, 'tw, 'msg, 'd, 'z) mgr \<Rightarrow> ('own, 'tw, 'msg, 'd, 'z) mgr" where
  "with_session E m rq rp l d i rid s =
     s\<lparr>next_rpc_id := rid, timerw := fst (armed E i s),
       sess_pool := (sess_pool s)[i := filled m rq rp l d rid (snd (armed E i s)) (sess_pool s ! i)]\<rparr>"

lemma AddSession_found:
  assumes t: "t = s\<lparr>trace := trace s @ [EvAdd d (el_size eps)]\<rparr>"
    and al: "AllocSessionNode t = (Some i, alloc_found i rid t)" "i < length (sess_pool t)"
    and l: "EndpointList_copy eps = Some l" "el_wf l" "0 < el_size l" "el_size eps \<le> 65536"
  shows "AddSession E m rq rp eps d s =
    (True, let a = el_list l ! 0; u = with_session E m rq rp l d i rid t in
       on_send_request E m rq rid a (u\<lparr>trace := trace u @ [EvSend m rq rid a]\<rparr>))"
proof -
  obtain tw own where ar: "armed E i t = (tw, own)" by force
  let ?n = "sess_pool t ! i"
  let ?f = "alloc_found i rid t"
  let ?n1 = "?n\<lparr>rpc_id := rid, node_method := m, node_request := rq, node_response := rp,
    node_done := Some d\<rparr>"
  let ?s2 = "?f\<lparr>sess_pool := (sess_pool t)[i := ?n1]\<rparr>"
  have "node_arm_timer E i ?s2 =
      ?s2\<lparr>timerw := tw, sess_pool := (sess_pool t)[i := ?n1\<lparr>timer_owner := own\<rparr>]\<rparr>"
    using ar al(2)
    by (auto simp: node_arm_timer_def node_at_def update_node_def armed_def Let_def
        alloc_found_def split: if_splits)
  moreover have "update_node i (\<lambda>n. n\<lparr>node_method := m, node_request := rq, node_response := rp,
      node_done := Some d\<rparr>) ?f = ?s2"
    using al(2) by (simp add: update_node_in alloc_found_def)
  ultimately show ?thesis
    using al l ar
    by (simp add: AddSession_def t [symmetric] Let_def update_node_in)
      (simp add: node_send_in alloc_found_def with_session_def filled_def Let_def)
qed

lemma AddSession_full:
  assumes "t = s\<lparr>trace := trace s @ [EvAdd d (el_size eps)]\<rparr>"
    and "AllocSessionNode t = (None, u)" and "el_size eps \<le> 65536"
  shows "AddSession E m rq rp eps d s = (False, invoke_done E d kInError u)"
  using assms by (simp add: AddSession_def Let_def)

section \<open>Updates of one node\<close>

lemma mgr_inv_update:
  assumes "mgr_inv core s" and "i < length (sess_pool s)"
    and "rpc_id n \<noteq> 0 \<Longrightarrow> node_ok core (pool_size_order s) i n"
  shows "mgr_inv core (s\<lparr>sess_pool := (sess_pool s)[i := n]\<rparr>)"
  using assms by (auto simp: mgr_inv_def geometry_ok_def nth_list_update)

lemma books_shift:
  fixes a :: "'d multiset"
  assumes "p' + Y = p + Z"
  shows "a + (X + Z) = c + p' + e \<longleftrightarrow> a + (X + Y) = c + p + e"
  unfolding multiset_eq_iff
proof (rule iff_allI)
  fix x
  from assms have "count p' x + count Y x = count p x + count Z x" by (metis count_union)
  then show "count (a + (X + Z)) x = count (c + p' + e) x \<longleftrightarrow>
      count (a + (X + Y)) x = count (c + p + e) x"
    by simp arith
qed

lemma owes_update:
  assumes "i < length (sess_pool s)" and "node_holds n + Y = node_holds (sess_pool s ! i) + Z"
  shows "owes (X + Z) (s\<lparr>sess_pool := (sess_pool s)[i := n]\<rparr>) \<longleftrightarrow> owes (X + Y) s"
proof -
  let ?s = "s\<lparr>sess_pool := (sess_pool s)[i := n]\<rparr>"
  have same: "added ?s = added s" "answered ?s = answered s" "dropped ?s = dropped s"
    by (simp_all add: added_def answered_def dropped_def)
  have "pending ?s + Y + node_holds n = pending ?s + (node_holds n + Y)"
    by (simp add: ac_simps)
  also have "\<dots> = (pending ?s + node_holds (sess_pool s ! i)) + Z"
    by (simp only: assms(2) add.assoc)
  also have "\<dots> = pending s + Z + node_holds n"
    by (simp only: pending_update [OF assms(1)]) (simp add: ac_simps)
  finally have eq: "pending ?s + Y = pending s + Z" by simp
  then show ?thesis unfolding owes_def same by (rule books_shift)
qed

lemma owes_free:
  assumes "i < length (sess_pool s)" and "node_holds (sess_pool s ! i) = {#d#}"
    and "node_holds n = {#}"
  shows "owes X (s\<lparr>sess_pool := (sess_pool s)[i := n]\<rparr>) \<longleftrightarrow> owes (add_mset d X) s"
  using owes_update [OF assms(1), of n "{#d#}" "{#}" X] assms(2,3) by simp

end
