(* ===== verification/SessionContract.thy ===== *)
theory SessionContract
  imports SessionOps
begin

text \<open>
  The contract of the manager's callbacks and what follows from it: every operation keeps the
  invariant and the books and leaves the other sessions as they are.
\<close>

section \<open>The trace and the books\<close>

lemma trace_append_simps:
  "added (s\<lparr>trace := trace s @ es\<rparr>) = added s + sum_list (map ev_added es)"
  "dropped (s\<lparr>trace := trace s @ es\<rparr>) = dropped s + sum_list (map ev_dropped es)"
  "answered (s\<lparr>trace := trace s @ es\<rparr>) = answered s + sum_list (map ev_answered es)"
  "pending (s\<lparr>trace := t\<rparr>) = pending s"
  by (simp_all add: added_def dropped_def answered_def pending_def)

lemma owes_trace_done:
  "owes (add_mset d X) (s\<lparr>trace := trace s @ [EvDone d r]\<rparr>) \<longleftrightarrow> owes X s"
  by (simp add: owes_def trace_append_simps)

lemma owes_trace_send: "owes X (s\<lparr>trace := trace s @ [EvSend m rq rid a]\<rparr>) \<longleftrightarrow> owes X s"
  by (simp add: owes_def trace_append_simps)

lemma owes_trace_refused:
  "owes X (s\<lparr>trace := trace s @ [EvAdd d k, EvDone d r]\<rparr>) \<longleftrightarrow>
   owes X (s :: ('own, 'tw, 'msg, 'd, 'z) mgr)" if "k \<le> 65536"
  using that by (simp add: owes_def trace_append_simps)

lemma owes_trace_dropped:
  "owes X (s\<lparr>trace := trace s @ [EvAdd d k]\<rparr>) \<longleftrightarrow>
   owes X (s :: ('own, 'tw, 'msg, 'd, 'z) mgr)" if "k > 65536"
  using that by (simp add: owes_def trace_append_simps)

lemma node_ok_holds:
  "node_ok core order i n \<Longrightarrow> node_done n = Some d \<Longrightarrow> node_holds n = {#d#}"
  by (auto simp: node_ok_def node_holds_def)

section \<open>The contract\<close>

locale session_callbacks =
  fixes E :: "('own, 'tw, 'msg, 'd, 'z) mgr_env"
    and core :: nat
  assumes done_keeps: "mgr_inv core s \<Longrightarrow> keeps core s (run_done E d r s)"
    and send_keeps: "mgr_inv core s \<Longrightarrow> keeps core s (on_send_request E m rq rid a s)"
begin

lemma send_traced_keeps:
  assumes "mgr_inv core s"
  shows "keeps core s (on_send_request E m rq rid a
    (s\<lparr>trace := trace s @ [EvSend m rq rid a]\<rparr>))"
  using send_keeps [of "s\<lparr>trace := trace s @ [EvSend m rq rid a]\<rparr>" m rq rid a] assms
  by (simp add: keeps_def owes_trace_send)

lemma invoke_keeps:
  assumes "mgr_inv core s"
  shows "keeps core (s\<lparr>trace := trace s @ [EvDone d r]\<rparr>) (invoke_done E d r s)"
  using done_keeps [of "s\<lparr>trace := trace s @ [EvDone d r]\<rparr>" d r] assms
  by (simp add: invoke_done_def)

text \<open>Adding a session, on each of its three outcomes.\<close>

lemma AddSession_keeps:
  assumes inv: "mgr_inv core s" and eps: "el_wf eps" "0 < el_size eps"
  shows "keeps core s (snd (AddSession E m rq rp eps d s))"
proof (cases "el_size eps > 65536")
  case True
  with inv show ?thesis by (simp add: AddSession_def keeps_def owes_trace_dropped)
next
  case small: False
  define t where "t = s\<lparr>trace := trace s @ [EvAdd d (el_size eps)]\<rparr>"
  have t: "mgr_inv core t" "sess_pool t = sess_pool s" "pool_size_order t = pool_size_order s"
    using inv by (simp_all add: t_def)
  from t(1) show ?thesis
  proof (cases rule: AllocSessionNode_cases)
    case (full rid)
    let ?u = "t\<lparr>next_rpc_id := rid\<rparr>"
    have u: "mgr_inv core ?u" using t(1) full(2) by (simp add: mgr_inv_def geometry_ok_def)
    have "AddSession E m rq rp eps d s = (False, invoke_done E d kInError ?u)"
      using AddSession_full [OF t_def full(1)] small by simp
    moreover have "owes X (?u\<lparr>trace := trace ?u @ [EvDone d kInError]\<rparr>) \<longleftrightarrow> owes X s" for X
      using owes_trace_refused [of "el_size eps" X s d kInError] small
      by (simp add: t_def owes_def added_def answered_def pending_def dropped_def)
    ultimately show ?thesis
      using invoke_keeps [OF u, of d kInError] t by (simp add: keeps_def)
  next
    case (found i rid)
    obtain l where l: "EndpointList_copy eps = Some l" "el_wf l" "el_size l = el_size eps"
      using eps(1) by (rule EndpointList_copy_wf)
    let ?w = "with_session E m rq rp l d i rid t"
    let ?n = "filled m rq rp l d rid (snd (armed E i t)) (sess_pool t ! i)"
    let ?t' = "t\<lparr>next_rpc_id := rid, timerw := fst (armed E i t)\<rparr>"
    have ok: "node_ok core (pool_size_order t) i ?n"
      using found l by (simp add: node_ok_def filled_def)
    have "mgr_inv core (t\<lparr>next_rpc_id := rid\<rparr>)"
      using t(1) found(4) by (simp add: mgr_inv_def geometry_ok_def)
    then have "mgr_inv core ?t'" by simp
    with found(2) ok have w: "mgr_inv core ?w"
      using mgr_inv_update [of core ?t' i ?n] by (simp add: with_session_def)
    have "node_holds ?n = {#d#}" using node_ok_holds [OF ok] by (simp add: filled_def)
    moreover have "node_holds (sess_pool t ! i) = {#}" using found(3) by (simp add: node_holds_def)
    ultimately have "pending ?w = add_mset d (pending s)"
      using pending_update [OF found(2), of ?n] t(2) by (simp add: with_session_def pending_def)
    then have books: "owes X ?w \<longleftrightarrow> owes X s" for X
      using small
      by (simp add: owes_def with_session_def t_def added_def answered_def dropped_def)
    have "keeps core ?w (snd (AddSession E m rq rp eps d s))"
      using AddSession_found [OF t_def found(1,2) l(1,2)] small eps(2) l(3)
        send_traced_keeps [OF w] by (simp add: Let_def)
    moreover have "sess_pool ?w ! j = sess_pool s ! j" if "rpc_id (sess_pool s ! j) \<noteq> 0" for j
      using that found(3) t(2) by (cases "j = i") (simp_all add: with_session_def)
    moreover have "length (sess_pool ?w) = length (sess_pool s)"
      "pool_size_order ?w = pool_size_order s"
      using t(2,3) by (simp_all add: with_session_def)
    ultimately show ?thesis using books by (simp add: keeps_def)
  qed
qed

text \<open>Answering a session: the closure is called, then the node is freed.\<close>

lemma answer_keeps:
  fixes r :: Result
  assumes inv: "mgr_inv core s" and i: "i < length (sess_pool s)" "rpc_id (sess_pool s ! i) \<noteq> 0"
    and d: "node_done (sess_pool s ! i) = Some d"
  defines "s1 \<equiv> invoke_done E d r s"
  shows "mgr_inv core s1" "length (sess_pool s1) = length (sess_pool s)"
    "sess_pool s1 ! i = sess_pool s ! i" "node_call_done E i r s = s1"
    and "rpc_id n = 0 \<Longrightarrow> keeps_but core i s (s1\<lparr>sess_pool := (sess_pool s1)[i := n]\<rparr>)"
proof -
  let ?s0 = "s\<lparr>trace := trace s @ [EvDone d r]\<rparr>"
  have k: "keeps core ?s0 s1" unfolding s1_def by (rule invoke_keeps) (rule inv)
  then show inv1: "mgr_inv core s1" by (simp add: keeps_def)
  from k inv show len: "length (sess_pool s1) = length (sess_pool s)"
    using keeps_pool_length [of core ?s0 s1] by simp
  from k i show node: "sess_pool s1 ! i = sess_pool s ! i" by (simp add: keeps_def)
  from i(1) d show "node_call_done E i r s = s1" by (simp add: node_call_done_in s1_def)
  assume n: "rpc_id n = 0"
  have "mgr_inv core (s1\<lparr>sess_pool := (sess_pool s1)[i := n]\<rparr>)"
    using inv1 len i n by (simp add: mgr_inv_update)
  moreover have "owes X (s1\<lparr>sess_pool := (sess_pool s1)[i := n]\<rparr>)" if "owes X s" for X
  proof -
    from that k have "owes (add_mset d X) s1" by (simp add: keeps_def owes_trace_done)
    moreover have "node_holds (sess_pool s1 ! i) = {#d#}"
      using node i d by (simp add: node_holds_def)
    ultimately show ?thesis
      using owes_free [of i s1 d n X] len i n by (simp add: node_holds_def)
  qed
  ultimately show "keeps_but core i s (s1\<lparr>sess_pool := (sess_pool s1)[i := n]\<rparr>)"
    using k i len by (simp add: keeps_but_def keeps_def)
qed

lemma keeps_but_timerw:
  "keeps_but core i s (s'\<lparr>timerw := w\<rparr>) = keeps_but core i s s'"
  by (simp add: keeps_but_def)

lemma finish_keeps:
  assumes "mgr_inv core s" "i < length (sess_pool s)" "rpc_id (sess_pool s ! i) \<noteq> 0"
  shows "keeps_but core i s
      (FreeSessionNode i (node_cancel_timer E i (node_call_done E i r s)))"
    "keeps_but core i s (FreeSessionNode i (node_call_done E i r s))"
proof -
  from mgr_invD(4) [OF assms] obtain d where "node_done (sess_pool s ! i) = Some d"
    by (auto simp: node_ok_def)
  note an = answer_keeps [OF assms this]
  show "keeps_but core i s (FreeSessionNode i (node_call_done E i r s))"
    using an(2,4) assms(2) an(5) [of "freed _ _"] by (simp add: free_in)
  have "keeps_but core i s (s'\<lparr>timerw := w, sess_pool := p\<rparr>) \<longleftrightarrow>
      keeps_but core i s (s'\<lparr>sess_pool := p\<rparr>)" for s' w p
  proof -
    have swap: "s'\<lparr>timerw := w, sess_pool := p\<rparr> = s'\<lparr>sess_pool := p, timerw := w\<rparr>" by simp
    show ?thesis unfolding swap by (rule keeps_but_timerw)
  qed
  then show "keeps_but core i s
      (FreeSessionNode i (node_cancel_timer E i (node_call_done E i r s)))"
    using an(2,4) assms(2) an(5) [of "freed _ _"] by (simp add: cancel_free_in)
qed

end

end
