(* ===== verification/SessionRuns.thy ===== *)
theory SessionRuns
  imports SessionContract
begin

text \<open>
  Runs of the session manager. A step is one call from outside: a new session, a failed send, a
  response, a fired timer. The user's closures are modelled by \<open>nested_env\<close>: a closure answers
  a result by issuing further calls, which re-enter the manager from inside \<open>done\<close>; the
  nesting depth is a parameter, so a property proved for every depth holds for every run that
  ends. Sending a request does not touch the manager (\<^verbatim>\<open>RpcCore::OnOutgoingRpcSend\<close>).
\<close>

section \<open>Every operation keeps the table\<close>

context session_callbacks
begin

lemma OnSendRequestFailed_keeps:
  assumes inv: "mgr_inv core s" and rid: "rid \<noteq> 0"
  shows "keeps_but core (slot_of s rid) s (OnSendRequestFailed E rid s)"
proof -
  let ?i = "slot_of s rid"
  note geo = mgr_invD(1) [OF inv]
  note i = slot_in_pool [OF geo, of rid]
  let ?n = "sess_pool s ! ?i"
  show ?thesis
  proof (cases "rpc_id ?n = rid")
    case False
    then show ?thesis
      using keeps_refl [OF inv]
      by (simp add: OnSendRequestFailed_def FindSessionNode_eq [OF geo] keeps_imp_but)
  next
    case True
    with rid have live: "rpc_id ?n \<noteq> 0" by simp
    note ok = mgr_invD(4) [OF inv i live]
    let ?k = "endpoint_index ?n + 1"
    let ?m = "?n\<lparr>endpoint_index := ?k\<rparr>"
    let ?s2 = "s\<lparr>sess_pool := (sess_pool s)[?i := ?m]\<rparr>"
    have up: "update_node ?i (\<lambda>n. n\<lparr>endpoint_index := ?k\<rparr>) s = ?s2"
      using i by (simp add: update_node_in)
    have inv2: "mgr_inv core ?s2" using inv i ok by (intro mgr_inv_update) (auto simp: node_ok_def)
    have owes2: "owes X ?s2 = owes X s" for X
      using owes_update [OF i, of ?m "{#}" "{#}" X] by (simp add: node_holds_def)
    have weaken: "keeps_but core ?i s s'" if "keeps_but core ?i ?s2 s'" for s'
      using that owes2 by (simp add: keeps_but_def)
    show ?thesis
    proof (cases "unat ?k < el_size (endpoint_list ?n)")
      case more: True
      from ok have "el_wf (endpoint_list ?n)" by (simp add: node_ok_def)
      with more i have "keeps core ?s2 (node_send E ?i (unat ?k) ?s2)"
        using send_traced_keeps [OF inv2]
        by (subst node_send_in [of ?i ?s2 ?m]) (simp_all add: Let_def)
      with True more up show ?thesis
        by (simp add: OnSendRequestFailed_def FindSessionNode_eq [OF geo] Let_def weaken
            keeps_imp_but)
    next
      case False
      with True up show ?thesis
        using finish_keeps(1) [OF inv2, of ?i kTimeout] i live
        by (simp add: OnSendRequestFailed_def FindSessionNode_eq [OF geo] Let_def weaken)
    qed
  qed
qed

lemma OnRecvResponse_keeps:
  assumes inv: "mgr_inv core s" and rid: "rid \<noteq> 0"
  shows "keeps_but core (slot_of s rid) s (OnRecvResponse E svc mth rid r body s)"
proof -
  let ?i = "slot_of s rid"
  note geo = mgr_invD(1) [OF inv]
  note i = slot_in_pool [OF geo, of rid]
  let ?n = "sess_pool s ! ?i"
  obtain ok m where p: "ParseFromArray E (msgs s (node_response ?n)) body = (ok, m)" by force
  let ?s2 = "s\<lparr>msgs := (msgs s)(node_response ?n := m)\<rparr>"
  have inv2: "mgr_inv core ?s2" using inv by simp
  have weaken: "keeps_but core ?i s s'" if "keeps_but core ?i ?s2 s'" for s'
    using that by (simp add: keeps_but_def)
  have "keeps_but core ?i ?s2
      (FreeSessionNode ?i (node_cancel_timer E ?i (node_call_done E ?i r ?s2)))"
    if "rpc_id ?n = rid"
    using finish_keeps(1) [OF inv2, of ?i r] i that rid by simp
  moreover have "keeps_but core ?i ?s2 ?s2" using inv2 by (simp add: keeps_but_def)
  moreover have "keeps_but core ?i s s" using inv by (simp add: keeps_but_def)
  ultimately show ?thesis
    using p by (simp add: OnRecvResponse_def FindSessionNode_eq [OF geo] Let_def weaken)
qed

lemma OnSessionTimeout_keeps:
  assumes inv: "mgr_inv core s" and i: "i < length (sess_pool s)"
  shows "keeps_but core i s (OnSessionTimeout E i s)"
  using finish_keeps(2) [OF inv i] i keeps_imp_but [OF keeps_refl [OF inv]]
  by (simp add: OnSessionTimeout_def node_at_def)

end

section \<open>Steps and reachable states\<close>

inductive mgr_step ::
  "('own, 'tw, 'msg, 'd, 'z) mgr_env \<Rightarrow> ('own, 'tw, 'msg, 'd, 'z) mgr \<Rightarrow>
   ('own, 'tw, 'msg, 'd, 'z) mgr \<Rightarrow> bool"
  for E :: "('own, 'tw, 'msg, 'd, 'z) mgr_env" where
  step_add: "el_wf eps \<Longrightarrow> 0 < el_size eps \<Longrightarrow> mgr_step E s (snd (AddSession E m rq rp eps d s))"
| step_failed: "rid \<noteq> 0 \<Longrightarrow> mgr_step E s (OnSendRequestFailed E rid s)"
| step_response: "rid \<noteq> 0 \<Longrightarrow> mgr_step E s (OnRecvResponse E svc mth rid r body s)"
| step_timeout: "i < length (sess_pool s) \<Longrightarrow> mgr_step E s (OnSessionTimeout E i s)"

inductive mgr_reachable ::
  "('own, 'tw, 'msg, 'd, 'z) mgr_env \<Rightarrow> nat \<Rightarrow> ('own, 'tw, 'msg, 'd, 'z) mgr \<Rightarrow> bool"
  for E :: "('own, 'tw, 'msg, 'd, 'z) mgr_env" and core :: nat where
  reach_init: "n \<le> 2 ^ 48 \<Longrightarrow> core < 2 ^ 16 - 1 \<Longrightarrow> rand < 2 ^ 32 \<Longrightarrow> \<not> fault s0 \<Longrightarrow>
     trace s0 = [] \<Longrightarrow> Init garbage own0 rand n core s0 = Some s \<Longrightarrow> mgr_reachable E core s"
| reach_step: "mgr_reachable E core s \<Longrightarrow> mgr_step E s s' \<Longrightarrow> mgr_reachable E core s'"

lemma Init_trace: "Init garbage own0 rand n core s0 = Some s \<Longrightarrow> trace s = trace s0"
  by (auto simp: Init_def Let_def split: Option.bind_splits)

lemma Init_msgs: "Init garbage own0 rand n core s0 = Some s \<Longrightarrow> msgs s = msgs s0"
  by (auto simp: Init_def Let_def split: Option.bind_splits)

lemma Init_owes:
  assumes "Init garbage own0 rand n core s0 = Some s" and "trace s0 = []"
    and "\<forall>i<length (sess_pool s). rpc_id (sess_pool s ! i) = 0"
  shows "owes {#} s"
proof -
  have "node_holds x = {#}" if "x \<in> set (sess_pool s)" for x
    using that assms(3) by (auto simp: in_set_conv_nth node_holds_def)
  then have "pending s = {#}"
    unfolding pending_def by (rule sum_list_map_0)
  with Init_trace [OF assms(1)] assms(2) show ?thesis
    by (simp add: owes_def added_def answered_def dropped_def)
qed

context session_callbacks
begin

lemma step_keeps:
  assumes "mgr_step E s s'" and "mgr_inv core s"
  shows "mgr_inv core s' \<and> (\<forall>X. owes X s \<longrightarrow> owes X s')"
  using assms
proof (induction rule: mgr_step.induct)
  case (step_add eps s m rq rp d)
  then show ?case using AddSession_keeps [of s eps m rq rp d] by (simp add: keeps_def)
next
  case (step_failed rid s)
  then show ?case using OnSendRequestFailed_keeps [of s rid] by (simp add: keeps_but_def)
next
  case (step_response rid s svc mth r body)
  then show ?case using OnRecvResponse_keeps [of s rid svc mth r body] by (simp add: keeps_but_def)
next
  case (step_timeout i s)
  then show ?case using OnSessionTimeout_keeps [of s i] by (simp add: keeps_but_def)
qed

lemma reachable_inv: "mgr_reachable E core s \<Longrightarrow> mgr_inv core s \<and> owes {#} s"
proof (induction rule: mgr_reachable.induct)
  case (reach_init n rand s0 garbage own0 s)
  from Init_inv [OF reach_init(1-4), of garbage own0] reach_init(6)
  have "mgr_inv core s" "\<forall>i<length (sess_pool s). rpc_id (sess_pool s ! i) = 0" by auto
  with reach_init show ?case by (blast intro: Init_owes)
next
  case (reach_step s s')
  then show ?case using step_keeps by blast
qed

end

section \<open>User closures that call again\<close>

record 'd user_call =
  uc_method :: MethodDescriptor
  uc_request :: msg_ptr
  uc_response :: msg_ptr
  uc_endpoints :: "Addr list"
  uc_done :: 'd

definition issue_call ::
  "('own, 'tw, 'msg, 'd, 'z) mgr_env \<Rightarrow> 'd user_call \<Rightarrow> ('own, 'tw, 'msg, 'd, 'z) mgr \<Rightarrow>
   ('own, 'tw, 'msg, 'd, 'z) mgr" where
  "issue_call E c s =
     (case mfold PushBack EndpointList_init (uc_endpoints c) of
        None \<Rightarrow> raise_fault s
      | Some eps \<Rightarrow>
          if el_empty eps then s
          else snd (AddSession E (uc_method c) (uc_request c) (uc_response c) eps (uc_done c) s))"

text \<open>Callbacks that do not call back into the manager.\<close>

definition quiet :: "('own, 'tw, 'msg, 'd, 'z) mgr_env \<Rightarrow> ('own, 'tw, 'msg, 'd, 'z) mgr_env" where
  "quiet B = B\<lparr>run_done := (\<lambda>d r s. s), on_send_request := (\<lambda>m rq rid a s. s)\<rparr>"

primrec nested_env ::
  "('own, 'tw, 'msg, 'd, 'z) mgr_env \<Rightarrow> ('d \<Rightarrow> Result \<Rightarrow> 'd user_call list) \<Rightarrow> nat \<Rightarrow>
   ('own, 'tw, 'msg, 'd, 'z) mgr_env" where
  "nested_env B calls 0 = quiet B"
| "nested_env B calls (Suc n) =
     B\<lparr>run_done := (\<lambda>d r s. fold (issue_call (nested_env B calls n)) (calls d r) s),
       on_send_request := (\<lambda>m rq rid a s. s)\<rparr>"

context session_callbacks
begin

lemma issue_call_keeps:
  assumes "mgr_inv core s"
  shows "keeps core s (issue_call E c s)"
proof -
  from el.build [of "uc_endpoints c"] obtain eps
    where "mfold PushBack EndpointList_init (uc_endpoints c) = Some eps" "el_wf eps" by blast
  with assms show ?thesis
    using AddSession_keeps [of s eps] by (simp add: issue_call_def el_empty_def keeps_refl)
qed

end

lemma nested_callbacks: "session_callbacks (nested_env B calls n) core"
proof (induction n)
  case 0
  show ?case by unfold_locales (simp_all add: keeps_refl quiet_def)
next
  case (Suc n)
  have "keeps core s (fold (issue_call (nested_env B calls n)) cs s)" if "mgr_inv core s" for cs s
    using that
  proof (induction cs arbitrary: s)
    case (Cons c cs)
    then have k: "keeps core s (issue_call (nested_env B calls n) c s)"
      using session_callbacks.issue_call_keeps [OF Suc.IH] by blast
    then have "mgr_inv core (issue_call (nested_env B calls n) c s)" by (simp add: keeps_def)
    from Cons.IH [OF this] keeps_trans [OF Cons.prems k] show ?case by simp
  qed (simp add: keeps_refl)
  then show ?case by unfold_locales (simp_all add: keeps_refl)
qed

interpretation nested: session_callbacks "nested_env B calls n" core for B calls n core
  by (rule nested_callbacks)

interpretation quiet: session_callbacks "quiet B" core for B core
  using nested_callbacks [of B undefined 0 core] by simp

end
