(* ===== verification/SessionBehaviour.thy ===== *)
theory SessionBehaviour
  imports SessionRuns
begin

text \<open>
  What each operation of the session manager does on each branch, with callbacks that do not
  re-enter the manager (\<open>quiet\<close>): the new table, the messages and the events it adds to the
  trace. The retry of failed sends is followed over a whole run of failures.
\<close>

lemma quiet_simps [simp]:
  "invoke_done (quiet B) d r s = s\<lparr>trace := trace s @ [EvDone d r]\<rparr>"
  "on_send_request (quiet B) m rq rid a s = s"
  "ParseFromArray (quiet B) = ParseFromArray B"
  "CancelTimer (quiet B) = CancelTimer B"
  "default_rpc_timeout (quiet B) = default_rpc_timeout B"
  by (simp_all add: quiet_def invoke_done_def)

section \<open>A live session\<close>

definition live_at :: "('own, 'tw, 'msg, 'd, 'z) mgr \<Rightarrow> nat \<Rightarrow> ('own, 'd) SessionNode \<Rightarrow> bool" where
  "live_at s i n \<longleftrightarrow> i < length (sess_pool s) \<and> sess_pool s ! i = n \<and> rpc_id n \<noteq> 0"

lemma live_find:
  assumes "mgr_inv core s" and "live_at s i n"
  shows "FindSessionNode (rpc_id n) s = (Some i, s)" and "node_ok core (pool_size_order s) i n"
  using assms FindSessionNode_iff [OF assms(1), of "rpc_id n" i] mgr_invD(4) [OF assms(1), of i]
  by (auto simp: live_at_def)

lemma not_live_find:
  assumes "mgr_inv core s" and "\<forall>i n. live_at s i n \<longrightarrow> rpc_id n \<noteq> rid" and "rid \<noteq> 0"
  shows "FindSessionNode rid s = (None, s)"
proof -
  note geo = mgr_invD(1) [OF assms(1)]
  have "rpc_id (sess_pool s ! slot_of s rid) \<noteq> rid"
    using assms(2,3) slot_in_pool [OF geo, of rid] by (auto simp: live_at_def)
  then show ?thesis by (simp add: FindSessionNode_eq [OF geo])
qed

section \<open>Adding\<close>

lemma AddSession_run:
  assumes inv: "mgr_inv core s" and eps: "el_wf eps" "0 < el_size eps" "el_size eps \<le> 65536"
    and free: "i0 < length (sess_pool s)" "rpc_id (sess_pool s ! i0) = 0"
  obtains i rid l tw own where "i < length (sess_pool s)" "rpc_id (sess_pool s ! i) = 0"
    "core_part rid = Suc core" "ring_slot (pool_size_order s) rid = i"
    "el_wf l" "el_list l = el_list eps" "(tw, own) = armed E i s"
    "AddSession E m rq rp eps d s =
      (True, on_send_request E m rq rid (el_list eps ! 0)
        (s\<lparr>next_rpc_id := rid, timerw := tw,
          sess_pool := (sess_pool s)[i := filled m rq rp l d rid own (sess_pool s ! i)],
          trace := trace s @ [EvAdd d (el_size eps), EvSend m rq rid (el_list eps ! 0)]\<rparr>))"
proof -
  define t where "t = s\<lparr>trace := trace s @ [EvAdd d (el_size eps)]\<rparr>"
  have t: "mgr_inv core t" "sess_pool t = sess_pool s" "pool_size_order t = pool_size_order s"
    "armed E i t = armed E i s" for i
    using inv by (simp_all add: t_def armed_def Let_def)
  from t(1) show thesis
  proof (cases rule: AllocSessionNode_cases)
    case full
    with free t show ?thesis by auto
  next
    case (found i rid)
    obtain l where l: "EndpointList_copy eps = Some l" "el_wf l" "el_list l = el_list eps"
      "el_size l = el_size eps"
      using eps(1) by (rule EndpointList_copy_wf)
    have "AddSession E m rq rp eps d s =
      (True, on_send_request E m rq rid (el_list eps ! 0)
        (s\<lparr>next_rpc_id := rid, timerw := fst (armed E i s),
          sess_pool := (sess_pool s)[i := filled m rq rp l d rid (snd (armed E i s)) (sess_pool s ! i)],
          trace := trace s @ [EvAdd d (el_size eps), EvSend m rq rid (el_list eps ! 0)]\<rparr>))"
      using AddSession_found [OF t_def found(1,2) l(1,2)] l(3,4) eps
      by (simp add: Let_def with_session_def t(2,4)) (simp add: t_def)
    with found t l show ?thesis by (intro that) auto
  qed
qed

lemma AddSession_quiet:
  assumes inv: "mgr_inv core s" and eps: "el_wf eps" "0 < el_size eps" "el_size eps \<le> 65536"
    and free: "i0 < length (sess_pool s)" "rpc_id (sess_pool s ! i0) = 0"
  obtains i rid l tw own where "i < length (sess_pool s)" "rpc_id (sess_pool s ! i) = 0"
    "core_part rid = Suc core" "ring_slot (pool_size_order s) rid = i"
    "el_wf l" "el_list l = el_list eps" "(tw, own) = armed (quiet B) i s"
    "AddSession (quiet B) m rq rp eps d s =
      (True, s\<lparr>next_rpc_id := rid, timerw := tw,
        sess_pool := (sess_pool s)[i := filled m rq rp l d rid own (sess_pool s ! i)],
        trace := trace s @ [EvAdd d (el_size eps), EvSend m rq rid (el_list eps ! 0)]\<rparr>)"
  using inv eps free
proof (rule AddSession_run [where E = "quiet B" and m = m and rq = rq and rp = rp and d = d])
qed (rule that; simp)

lemma filled_inv:
  assumes inv: "mgr_inv core s" and i: "i < length (sess_pool s)"
    and rid: "core_part rid = Suc core" "ring_slot (pool_size_order s) rid = i" and l: "el_wf l"
  shows "mgr_inv core (s\<lparr>next_rpc_id := rid, timerw := tw,
    sess_pool := (sess_pool s)[i := filled m rq rp l d rid own n], trace := tr\<rparr>)"
proof -
  let ?s = "s\<lparr>next_rpc_id := rid, timerw := tw\<rparr>"
  have "mgr_inv core (s\<lparr>next_rpc_id := rid\<rparr>)"
    using inv rid(1) by (simp add: mgr_inv_def geometry_ok_def)
  then have "mgr_inv core ?s" by simp
  moreover have "node_ok core (pool_size_order s) i (filled m rq rp l d rid own n)"
    using rid l by (simp add: node_ok_def filled_def)
  ultimately show ?thesis
    using mgr_inv_update [of core ?s i "filled m rq rp l d rid own n"] i by simp
qed

section \<open>A failed send\<close>

lemma send_failed_next:
  assumes inv: "mgr_inv core s" and n: "live_at s i n"
    and more: "unat (endpoint_index n + 1) < el_size (endpoint_list n)"
  shows "OnSendRequestFailed (quiet B) (rpc_id n) s =
    s\<lparr>sess_pool := (sess_pool s)[i := n\<lparr>endpoint_index := endpoint_index n + 1\<rparr>],
      trace := trace s @ [EvSend (node_method n) (node_request n) (rpc_id n)
        (el_list (endpoint_list n) ! unat (endpoint_index n + 1))]\<rparr>"
proof -
  note f = live_find [OF inv n]
  let ?n = "n\<lparr>endpoint_index := endpoint_index n + 1\<rparr>"
  let ?s = "s\<lparr>sess_pool := (sess_pool s)[i := ?n]\<rparr>"
  have "node_send (quiet B) i (unat (endpoint_index n + 1)) ?s =
      ?s\<lparr>trace := trace s @ [EvSend (node_method n) (node_request n) (rpc_id n)
        (el_list (endpoint_list n) ! unat (endpoint_index n + 1))]\<rparr>"
    using f(2) n more by (subst node_send_in [of i ?s ?n]) (simp_all add: live_at_def node_ok_def Let_def)
  with f n more show ?thesis
    by (simp add: OnSendRequestFailed_def Let_def update_node_in live_at_def)
qed

lemma send_failed_last:
  assumes inv: "mgr_inv core s" and n: "live_at s i n" and d: "node_done n = Some d"
    and last: "\<not> unat (endpoint_index n + 1) < el_size (endpoint_list n)"
  shows "trace (OnSendRequestFailed (quiet B) (rpc_id n) s) = trace s @ [EvDone d kTimeout]"
    "rpc_id (sess_pool (OnSendRequestFailed (quiet B) (rpc_id n) s) ! i) = 0"
proof -
  note f = live_find [OF inv n]
  let ?s = "s\<lparr>sess_pool := (sess_pool s)[i := n\<lparr>endpoint_index := endpoint_index n + 1\<rparr>]\<rparr>"
  have "OnSendRequestFailed (quiet B) (rpc_id n) s =
      FreeSessionNode i (node_cancel_timer (quiet B) i (?s\<lparr>trace := trace s @ [EvDone d kTimeout]\<rparr>))"
    using f n d last
    by (simp add: OnSendRequestFailed_def Let_def update_node_in live_at_def node_call_done_in)
  with n show "trace (OnSendRequestFailed (quiet B) (rpc_id n) s) = trace s @ [EvDone d kTimeout]"
    "rpc_id (sess_pool (OnSendRequestFailed (quiet B) (rpc_id n) s) ! i) = 0"
    by (simp_all add: cancel_free_in live_at_def)
qed

text \<open>A run of failures walks the endpoints; the index is 16 bits wide and wraps.\<close>

definition sends :: "('own, 'd) SessionNode \<Rightarrow> nat \<Rightarrow> 'd event list" where
  "sends n j = map (\<lambda>k. EvSend (node_method n) (node_request n) (rpc_id n)
     (el_list (endpoint_list n) ! unat (endpoint_index n + of_nat k))) [1..<Suc j]"

lemma sends_Suc:
  "sends n (Suc j) = sends n j @ [EvSend (node_method n) (node_request n) (rpc_id n)
     (el_list (endpoint_list n) ! unat (endpoint_index n + of_nat (Suc j)))]"
  by (simp add: sends_def)

lemma retry_run:
  assumes inv: "mgr_inv core s" and n: "live_at s i n"
    and more: "\<And>k. 0 < k \<Longrightarrow> k \<le> j \<Longrightarrow>
      unat (endpoint_index n + of_nat k) < el_size (endpoint_list n)"
  shows "(OnSendRequestFailed (quiet B) (rpc_id n) ^^ j) s =
    s\<lparr>sess_pool := (sess_pool s)[i := n\<lparr>endpoint_index := endpoint_index n + of_nat j\<rparr>],
      trace := trace s @ sends n j\<rparr>"
  using more
proof (induction j)
  case 0
  from n have "(sess_pool s)[i := n] = sess_pool s" by (auto simp: live_at_def)
  then show ?case by (simp add: sends_def)
next
  case (Suc j)
  let ?n = "n\<lparr>endpoint_index := endpoint_index n + of_nat j\<rparr>"
  let ?s = "s\<lparr>sess_pool := (sess_pool s)[i := ?n], trace := trace s @ sends n j\<rparr>"
  have run: "(OnSendRequestFailed (quiet B) (rpc_id n) ^^ j) s = ?s"
    using Suc.IH Suc.prems by simp
  have "mgr_inv core (s\<lparr>sess_pool := (sess_pool s)[i := ?n]\<rparr>)"
    using inv n live_find(2) [OF inv n]
    by (intro mgr_inv_update) (auto simp: live_at_def node_ok_def)
  then have inv': "mgr_inv core ?s" by simp
  have n': "live_at ?s i ?n" using n by (auto simp: live_at_def)
  define w where "w = endpoint_index n + of_nat (Suc j)"
  have w: "endpoint_index ?n + 1 = w" by (simp add: w_def)
  have "unat w < el_size (endpoint_list n)" using Suc.prems [of "Suc j"] by (simp add: w_def)
  with send_failed_next [OF inv' n', of B] w
  have "OnSendRequestFailed (quiet B) (rpc_id n) ?s =
      s\<lparr>sess_pool := (sess_pool s)[i := n\<lparr>endpoint_index := w\<rparr>],
        trace := trace s @ sends n (Suc j)\<rparr>"
    by (simp add: sends_Suc w_def ac_simps)
  then show ?case by (simp only: funpow.simps o_apply run w_def)
qed

section \<open>A response and a timeout\<close>

lemma response_matched:
  assumes inv: "mgr_inv core s" and n: "live_at s i n" and d: "node_done n = Some d"
    and p: "ParseFromArray B (msgs s (node_response n)) body = (True, m)"
  shows "OnRecvResponse (quiet B) (service_name (node_method n)) (method_name (node_method n))
      (rpc_id n) r body s =
    s\<lparr>msgs := (msgs s)(node_response n := m), trace := trace s @ [EvDone d r],
      timerw := fst (cancelled B i s),
      sess_pool := (sess_pool s)[i := freed (snd (cancelled B i s)) n]\<rparr>"
  using live_find [OF inv n] n d p
  by (simp add: OnRecvResponse_def Let_def live_at_def node_call_done_in cancel_free_in
      cancelled_def)

lemma timeout_live:
  assumes "live_at s i n" and "node_done n = Some d"
  shows "OnSessionTimeout (quiet B) i s =
    s\<lparr>trace := trace s @ [EvDone d kTimeout], sess_pool := (sess_pool s)[i := freed (timer_owner n) n]\<rparr>"
  using assms by (simp add: OnSessionTimeout_def live_at_def node_at_def node_call_done_in free_in)

end
