(* ===== verification/SessionProperties.thy ===== *)
theory SessionProperties
  imports SessionBehaviour
begin

text \<open>
  The properties of the session manager, each a few steps over the library, and a small
  instance of it (\<open>demo_env\<close>) on which their hypotheses are met.
\<close>

section \<open>A concrete instance\<close>

definition demo_env :: "(bool, nat list, byte list, nat, unit) mgr_env" where
  "demo_env = \<lparr>default_rpc_timeout = 2500, has_timer = (\<lambda>own. own),
     AddTimer = (\<lambda>tw ms i own. (tw @ [i], True)), ResetTimer = (\<lambda>tw own ms. (tw, True)),
     CancelTimer = (\<lambda>tw own. (tw, False)), ParseFromArray = (\<lambda>m b. (b \<noteq> [], b)),
     run_done = (\<lambda>d r s. s), on_send_request = (\<lambda>m rq rid a s. s)\<rparr>"

definition demo_method :: MethodDescriptor where
  "demo_method = \<lparr>service_name = ''TestService'', method_name = ''Query'', method_index = 0\<rparr>"

definition demo_blank :: "(bool, nat list, byte list, nat) RpcSessionManager" where
  "demo_blank = \<lparr>pool_size_order = 0, pool_size_mask = 0, sess_pool = [], next_rpc_id = 0,
     timerw = [], msgs = (\<lambda>_. []), trace = [], fault = False\<rparr>"

lemma demo_start:
  "\<exists>s. mgr_reachable E 0 s \<and> mgr_inv 0 s \<and> trace s = [] \<and> 0 < length (sess_pool s) \<and>
     (\<forall>i<length (sess_pool s). rpc_id (sess_pool s ! i) = 0)"
  for E :: "(bool, nat list, byte list, nat, unit) mgr_env"
proof -
  from Init_inv [of 2 0 0 demo_blank undefined False] obtain s
    where s: "Init undefined False 0 2 0 demo_blank = Some s" "mgr_inv 0 s"
      "2 \<le> length (sess_pool s)" "\<forall>i<length (sess_pool s). rpc_id (sess_pool s ! i) = 0"
    by (auto simp: demo_blank_def)
  from reach_init [OF _ _ _ _ _ s(1)] Init_trace [OF s(1)] s show ?thesis
    by (intro exI [of _ s]) (auto simp: demo_blank_def)
qed

type_synonym demo_mgr = "(bool, nat list, byte list, nat) RpcSessionManager"

text \<open>A session with the endpoints \<open>as\<close> on the freshly initialised table.\<close>

lemma demo_session:
  assumes "as \<noteq> []" and "length as \<le> 65536"
  shows "\<exists>s i n. mgr_reachable (quiet demo_env) 0 s \<and> mgr_inv 0 s \<and> live_at s i n \<and>
    node_method n = demo_method \<and> node_response n = 2 \<and> node_done n = Some 7 \<and>
    endpoint_index n = 0 \<and> el_list (endpoint_list n) = as \<and> el_size (endpoint_list n) = length as"
proof -
  obtain s where s: "mgr_reachable (quiet demo_env) 0 s" "mgr_inv 0 s" "0 < length (sess_pool s)"
    "rpc_id (sess_pool s ! 0) = 0" using demo_start by blast
  from el.build [of as] obtain eps where eps: "el_wf eps" "el_list eps = as" "el_size eps = length as"
    by blast
  from assms eps have sz: "0 < el_size eps" "el_size eps \<le> 65536" by auto
  from s(2) eps(1) sz s(3,4) obtain i rid l tw own where a: "i < length (sess_pool s)"
    "rpc_id (sess_pool s ! i) = 0" "core_part rid = Suc 0" "ring_slot (pool_size_order s) rid = i"
    "el_wf l" "el_list l = el_list eps" "(tw, own) = armed (quiet demo_env) i s"
    "AddSession (quiet demo_env) demo_method 1 2 eps 7 s =
      (True, s\<lparr>next_rpc_id := rid, timerw := tw,
        sess_pool := (sess_pool s)[i := filled demo_method 1 2 l 7 rid own (sess_pool s ! i)],
        trace := trace s @ [EvAdd 7 (el_size eps), EvSend demo_method 1 rid (el_list eps ! 0)]\<rparr>)"
    by (rule AddSession_quiet)
  let ?s' = "snd (AddSession (quiet demo_env) demo_method 1 2 eps 7 s)"
  have step: "mgr_step (quiet demo_env) s ?s'"
    using eps(1) sz(1) by (rule step_add)
  have "rid \<noteq> 0" using a(3) by auto
  then have "live_at ?s' i (filled demo_method 1 2 l 7 rid own (sess_pool s ! i))"
    using a(1,8) by (simp add: live_at_def filled_def)
  moreover have "mgr_reachable (quiet demo_env) 0 ?s'" "mgr_inv 0 ?s'"
    using reach_step [OF s(1) step] quiet.step_keeps [OF step s(2)] by auto
  ultimately show ?thesis
    using a(5,6) eps length_el_list [OF a(5)]
    by (intro exI [of _ ?s'] exI [of _ i]
        exI [of _ "filled demo_method 1 2 l 7 rid own (sess_pool s ! i)"])
      (auto simp: filled_def)
qed

section \<open>Safety of the table\<close>

text \<open>C17: in every state the session manager can reach, from any initialisation with a pool of at
  most \<open>2 ^ 48\<close> nodes and through any calls, failures, responses, timer firings and closures
  that issue further RPCs from inside \<open>done\<close>: no access leaves the pool, no null closure is
  called, no assert fails; every id leads to a slot of the pool; each pending session sits in
  the slot of its own id, with the worker's own number in the id and a closure to call; and no
  two sessions share an id.\<close>

theorem reachable_table_safe:
  assumes "mgr_reachable (nested_env B calls depth) core s"
  shows "\<not> fault s \<and> (\<forall>rid. slot_of s rid < length (sess_pool s)) \<and>
    (\<forall>i n. live_at s i n \<longrightarrow> slot_of s (rpc_id n) = i \<and> core_part (rpc_id n) = Suc core \<and>
       node_done n \<noteq> None) \<and>
    (\<forall>i j n k. live_at s i n \<longrightarrow> live_at s j k \<longrightarrow> rpc_id n = rpc_id k \<longrightarrow> i = j)"
proof -
  from nested.reachable_inv [OF assms] have inv: "mgr_inv core s" by simp
  note geo = mgr_invD(1) [OF inv]
  have "slot_of s (rpc_id n) = i" "core_part (rpc_id n) = Suc core" "node_done n \<noteq> None"
    if "live_at s i n" for i n
    using live_find(2) [OF inv that] by (simp_all add: node_ok_def slot_of_ring [OF geo])
  moreover from this have "i = j"
    if "live_at s i n" "live_at s j k" "rpc_id n = rpc_id k" for i j n k using that by metis
  ultimately show ?thesis
    using slot_in_pool [OF geo] mgr_invD(3) [OF inv] by blast
qed

theorem reachable_table_safe_witness:
  "\<exists>(s :: demo_mgr) i n. live_at s i n \<and> \<not> fault s \<and> slot_of s (rpc_id n) = i \<and> core_part (rpc_id n) = Suc 0"
proof -
  obtain s i n where s: "mgr_reachable (quiet demo_env) 0 s" "live_at s i n"
    using demo_session [of "[(1, 1), (2, 2)]"] by auto
  then have "mgr_reachable (nested_env demo_env (\<lambda>_ _. []) 0) 0 s" by simp
  from reachable_table_safe [OF this] s(2) show ?thesis by blast
qed

text \<open>The books balance in every reachable state: the closures given to \<open>AddSession\<close>,
  counted with multiplicity, are exactly those already called, those stored in a pending
  session, and those whose endpoint list had more than 65536 entries. So no closure is called
  twice for one call, and none is lost but for the oversized lists.\<close>

theorem closures_accounted:
  assumes "mgr_reachable (nested_env B calls depth) core s"
  shows "added s = answered s + pending s + dropped s"
  using nested.reachable_inv [OF assms] by (simp add: owes_def)

theorem closures_accounted_witness:
  "\<exists>s :: demo_mgr.
     (\<exists>i n. live_at s i n) \<and> added s = answered s + pending s + dropped s"
proof -
  obtain s i n where s: "mgr_reachable (quiet demo_env) 0 s" "live_at s i n"
    using demo_session [of "[(1, 1), (2, 2)]"] by auto
  then have "mgr_reachable (nested_env demo_env (\<lambda>_ _. []) 0) 0 s" by simp
  from closures_accounted [OF this] s(2) show ?thesis by blast
qed

section \<open>Opening a session\<close>

text \<open>\<open>AddSession\<close> with a list of one to 65536 endpoints succeeds exactly if some node of the
  pool is free; allocation therefore finds a free node wherever it is.\<close>

lemma AddSession_succeeds_iff_free:
  assumes "mgr_inv core s" and "el_wf eps" and "el_size eps \<le> 65536"
  shows "fst (AddSession E m rq rp eps d s) \<longleftrightarrow>
    (\<exists>i<length (sess_pool s). rpc_id (sess_pool s ! i) = 0)"
proof -
  define t where "t = s\<lparr>trace := trace s @ [EvAdd d (el_size eps)]\<rparr>"
  have t: "mgr_inv core t" "sess_pool t = sess_pool s" using assms(1) by (simp_all add: t_def)
  have "fst (AddSession E m rq rp eps d s) \<longleftrightarrow> fst (AllocSessionNode t) \<noteq> None"
    using assms(3)
    by (simp add: AddSession_def t_def [symmetric] Let_def split: prod.split option.split)
  with t(1) show ?thesis
    by (cases rule: AllocSessionNode_cases) (auto simp: t)
qed

text \<open>A successful \<open>AddSession\<close> (callbacks not re-entering) fills one node that was free with
  the call's method, messages, closure and endpoints under a fresh id, arms that node's timer
  (a new one, or the node's old one reset), leaves every other session untouched, and sends
  the request exactly once, to the first endpoint.\<close>

lemma AddSession_opens_session:
  assumes "mgr_inv core s" and "el_wf eps" "0 < el_size eps" "el_size eps \<le> 65536"
    and "\<exists>i<length (sess_pool s). rpc_id (sess_pool s ! i) = 0"
  shows "\<exists>i n s'. AddSession (quiet B) m rq rp eps d s = (True, s') \<and> live_at s' i n \<and>
    \<not> (\<exists>k. live_at s i k) \<and> node_method n = m \<and> node_request n = rq \<and> node_response n = rp \<and>
    node_done n = Some d \<and> endpoint_index n = 0 \<and> el_list (endpoint_list n) = el_list eps \<and>
    (timerw s', timer_owner n) = armed (quiet B) i s \<and>
    (\<forall>j k. j \<noteq> i \<longrightarrow> live_at s' j k = live_at s j k) \<and>
    trace s' = trace s @ [EvAdd d (el_size eps), EvSend m rq (rpc_id n) (el_list eps ! 0)]"
proof -
  from assms(5) obtain i0 where "i0 < length (sess_pool s)" "rpc_id (sess_pool s ! i0) = 0" by blast
  from assms(1-4) this obtain i rid l tw own where a: "i < length (sess_pool s)"
    "rpc_id (sess_pool s ! i) = 0" "core_part rid = Suc core" "ring_slot (pool_size_order s) rid = i"
    "el_wf l" "el_list l = el_list eps" "(tw, own) = armed (quiet B) i s"
    "AddSession (quiet B) m rq rp eps d s =
      (True, s\<lparr>next_rpc_id := rid, timerw := tw,
        sess_pool := (sess_pool s)[i := filled m rq rp l d rid own (sess_pool s ! i)],
        trace := trace s @ [EvAdd d (el_size eps), EvSend m rq rid (el_list eps ! 0)]\<rparr>)"
    by (rule AddSession_quiet)
  have "rid \<noteq> 0" using a(3) by auto
  with a show ?thesis
    by (intro exI [of _ i] exI [of _ "filled m rq rp l d rid own (sess_pool s ! i)"]
        exI [of _ "snd (AddSession (quiet B) m rq rp eps d s)"])
      (auto simp: live_at_def filled_def)
qed

text \<open>C19: when every send of a session fails, the manager tries the endpoints one after the
  other in the order of the list, each once, and after the last one calls \<open>done(kTimeout)\<close>
  exactly once and frees the node; this holds for lists of up to 65535 endpoints.\<close>

theorem retry_all_then_timeout:
  assumes "mgr_inv core s" and "live_at s i n" and "node_done n = Some d" and "endpoint_index n = 0"
    and "0 < el_size (endpoint_list n)" and "el_size (endpoint_list n) \<le> 65535"
  shows "trace ((OnSendRequestFailed (quiet B) (rpc_id n) ^^ el_size (endpoint_list n)) s) =
      trace s @ map (EvSend (node_method n) (node_request n) (rpc_id n)) (tl (el_list (endpoint_list n))) @
      [EvDone d kTimeout] \<and>
    rpc_id (sess_pool ((OnSendRequestFailed (quiet B) (rpc_id n) ^^ el_size (endpoint_list n)) s) ! i) = 0"
proof -
  from assms(5) obtain j where j: "el_size (endpoint_list n) = Suc j" by (cases "el_size (endpoint_list n)") auto
  have small: "unat (of_nat k :: u16) = k" if "k \<le> Suc j" for k
    using that j assms(6) by (simp add: unsigned_of_nat take_bit_eq_mod)
  from small have small1: "unat (1 + of_nat k :: u16) = Suc k" if "k < Suc j" for k
    using that by (metis Suc_leI of_nat_Suc)
  let ?n = "n\<lparr>endpoint_index := of_nat j\<rparr>"
  let ?s = "s\<lparr>sess_pool := (sess_pool s)[i := ?n], trace := trace s @ sends n j\<rparr>"
  have run: "(OnSendRequestFailed (quiet B) (rpc_id n) ^^ j) s = ?s"
    using retry_run [OF assms(1,2), of j B] assms(4) j small by simp
  have "mgr_inv core (s\<lparr>sess_pool := (sess_pool s)[i := ?n]\<rparr>)"
    using assms(1,2) live_find(2) [OF assms(1,2)]
    by (intro mgr_inv_update) (auto simp: live_at_def node_ok_def)
  then have inv': "mgr_inv core ?s" by simp
  have n': "live_at ?s i ?n" using assms(2) by (auto simp: live_at_def)
  have last: "\<not> unat (endpoint_index ?n + 1) < el_size (endpoint_list ?n)"
    using small1 [of j] j by (simp add: add.commute)
  have wf: "el_wf (endpoint_list n)"
    using live_find(2) [OF assms(1,2)] by (simp add: node_ok_def)
  have "sends n j = map (EvSend (node_method n) (node_request n) (rpc_id n)) (tl (el_list (endpoint_list n)))"
    using j small1 wf assms(4)
    by (intro nth_equalityI) (simp_all add: sends_def nth_tl del: upt_Suc)
  then show ?thesis
    using send_failed_last [OF inv' n' _ last, of d B] assms(3) run
    unfolding j by simp
qed

theorem retry_all_then_timeout_witness:
  "\<exists>(s :: demo_mgr) (n :: (bool, nat) SessionNode). node_done n = Some 7 \<and>
     trace ((OnSendRequestFailed (quiet demo_env) (rpc_id n) ^^ 3) s) =
     trace s @ [EvSend demo_method (node_request n) (rpc_id n) (2, 2),
       EvSend demo_method (node_request n) (rpc_id n) (3, 3), EvDone 7 kTimeout]"
proof -
  obtain s :: demo_mgr and i n where s: "mgr_inv 0 s" "live_at s i n" "node_done n = Some 7"
    "endpoint_index n = 0"
    "el_list (endpoint_list n) = [(1, 1), (2, 2), (3, 3)]" "el_size (endpoint_list n) = 3"
    "node_method n = demo_method"
    using demo_session [of "[(1, 1), (2, 2), (3, 3)]"] by auto
  have "0 < el_size (endpoint_list n)" "el_size (endpoint_list n) \<le> 65535" using s(6) by auto
  from retry_all_then_timeout [OF s(1-4) this, of demo_env] s(3)
  show ?thesis unfolding s(5-7) by auto
qed

text \<open>C40: with exactly 65536 endpoints, which \<open>AddSession\<close> accepts, the 16-bit index wraps to
  zero after the last endpoint: however often the send fails, the manager goes round the list
  again, never calls \<open>done\<close> and keeps the node; only the session timer can end it.\<close>

theorem retry_wraps_at_65536:
  assumes "mgr_inv core s" and "live_at s i n" and "endpoint_index n = 0"
    and "el_size (endpoint_list n) = 65536"
  shows "trace ((OnSendRequestFailed (quiet B) (rpc_id n) ^^ j) s) = trace s @
      map (\<lambda>k. EvSend (node_method n) (node_request n) (rpc_id n)
        (el_list (endpoint_list n) ! (k mod 65536))) [1..<Suc j] \<and>
    live_at ((OnSendRequestFailed (quiet B) (rpc_id n) ^^ j) s) i (n\<lparr>endpoint_index := of_nat j\<rparr>)"
proof -
  have wrap: "unat (of_nat k :: u16) = k mod 65536" for k
    by (simp add: unsigned_of_nat take_bit_eq_mod)
  from retry_run [OF assms(1,2), of j B] assms(3,4) wrap
  have "(OnSendRequestFailed (quiet B) (rpc_id n) ^^ j) s =
    s\<lparr>sess_pool := (sess_pool s)[i := n\<lparr>endpoint_index := of_nat j\<rparr>], trace := trace s @ sends n j\<rparr>"
    by simp
  with assms(2,3) wrap show ?thesis by (simp add: sends_def live_at_def)
qed

theorem retry_wraps_at_65536_witness:
  "\<exists>(s :: demo_mgr) i n. live_at s i n \<and> el_size (endpoint_list n) = 65536 \<and>
     live_at ((OnSendRequestFailed (quiet demo_env) (rpc_id n) ^^ 1000000) s) i
       (n\<lparr>endpoint_index := of_nat 1000000\<rparr>)"
proof -
  have len: "length (replicate 65536 (1 :: u32, 1 :: u16)) = 65536" by (rule length_replicate)
  then have "replicate 65536 (1 :: u32, 1 :: u16) \<noteq> []" by (metis list.size(3) zero_neq_numeral)
  from demo_session [OF this] obtain s :: demo_mgr and i n where s: "mgr_inv 0 s" "live_at s i n"
    "endpoint_index n = 0" "el_size (endpoint_list n) = 65536"
    unfolding len by auto
  from retry_wraps_at_65536 [OF s, where B = demo_env and j = 1000000] s(2,4) show ?thesis by blast
qed

text \<open>A list of more than 65536 endpoints makes \<open>AddSession\<close> return false and do nothing
  else: no session is opened and the closure is never called, although the other failure of
  the same function (a full pool) does call it with \<open>kInError\<close>. Whatever the callbacks do,
  the table is unchanged and only the call itself is recorded.\<close>

theorem oversized_list_loses_closure:
  assumes "el_size eps > 65536"
  shows "AddSession E m rq rp eps d s = (False, s\<lparr>trace := trace s @ [EvAdd d (el_size eps)]\<rparr>)"
  using assms by (simp add: AddSession_def)

theorem oversized_list_loses_closure_witness:
  "\<exists>eps (s :: demo_mgr). el_wf eps \<and> AddSession demo_env demo_method 1 2 eps 7 s =
     (False, s\<lparr>trace := trace s @ [EvAdd 7 (el_size eps)]\<rparr>)"
proof -
  have len: "length (replicate 70000 (1 :: u32, 1 :: u16)) = 70000" by (rule length_replicate)
  from el.build [of "replicate 70000 (1, 1)"] obtain eps
    where "el_wf eps" "el_size eps = length (replicate 70000 (1 :: u32, 1 :: u16))" by blast
  then have "el_wf eps" "el_size eps > 65536" unfolding len by auto
  with oversized_list_loses_closure [OF this(2), of demo_env demo_method 1 2 7 demo_blank]
  show ?thesis by blast
qed

section \<open>Ending a session\<close>

text \<open>A response for a pending session whose service or method name is not the session's is
  ignored; one whose body does not parse changes the response message only and leaves the
  session pending; otherwise the message is filled, \<open>done\<close> is called exactly once with the
  response's result, the timer is cancelled and the node freed, and no other session is
  touched.\<close>

lemma response_effect:
  assumes "mgr_inv core s" and "live_at s i n" and "node_done n = Some d"
    and "ParseFromArray B (msgs s (node_response n)) body = (ok, m)"
  shows "OnRecvResponse (quiet B) svc mth (rpc_id n) r body s =
    (if (svc, mth) \<noteq> (service_name (node_method n), method_name (node_method n)) then s
     else if \<not> ok then s\<lparr>msgs := (msgs s)(node_response n := m)\<rparr>
     else s\<lparr>msgs := (msgs s)(node_response n := m), trace := trace s @ [EvDone d r],
       timerw := fst (CancelTimer B (timerw s) (timer_owner n)),
       sess_pool := (sess_pool s)[i := n\<lparr>timer_owner := snd (CancelTimer B (timerw s) (timer_owner n)),
         rpc_id := 0, node_done := None\<rparr>]\<rparr>)"
proof (cases "(svc, mth) = (service_name (node_method n), method_name (node_method n)) \<and> ok")
  case True
  with response_matched [OF assms(1-3), of B body m r] assms(2,4) show ?thesis
    by (simp add: cancelled_def freed_def live_at_def)
next
  case False
  with live_find [OF assms(1,2)] assms show ?thesis
    by (auto simp: OnRecvResponse_def live_at_def)
qed

text \<open>C25: once a session has been answered it is closed for good: a duplicate or late response
  with its id (whatever names, result and body it carries), a late failure report of one of
  its sends and a late firing of its timer change nothing and call nothing.\<close>

theorem answered_session_is_closed:
  assumes "mgr_inv core s" and "live_at s i n" and "node_done n = Some d"
    and "ParseFromArray B (msgs s (node_response n)) body = (True, m)"
    and "s1 = OnRecvResponse (quiet B) (service_name (node_method n)) (method_name (node_method n))
      (rpc_id n) r body s"
  shows "OnRecvResponse (quiet B) svc mth (rpc_id n) r' body' s1 = s1 \<and>
    OnSendRequestFailed (quiet B) (rpc_id n) s1 = s1 \<and> OnSessionTimeout (quiet B) i s1 = s1"
proof -
  have s1: "s1 = s\<lparr>msgs := (msgs s)(node_response n := m), trace := trace s @ [EvDone d r],
      timerw := fst (cancelled B i s),
      sess_pool := (sess_pool s)[i := freed (snd (cancelled B i s)) n]\<rparr>"
    using response_matched [OF assms(1-4)] assms(5) by simp
  have i: "i < length (sess_pool s)" "rpc_id n \<noteq> 0" using assms(2) by (simp_all add: live_at_def)
  have "mgr_inv core s1"
    using quiet.OnRecvResponse_keeps [OF assms(1) i(2)] assms(5) by (simp add: keeps_but_def)
  moreover have "rpc_id k \<noteq> rpc_id n" if "live_at s1 j k" for j k
  proof (cases "j = i")
    case True
    with that i show ?thesis by (auto simp: s1 live_at_def)
  next
    case False
    with that have "live_at s j k" by (simp add: s1 live_at_def)
    with live_id_unique [OF assms(1), of j i] assms(2) False show ?thesis
      by (auto simp: live_at_def)
  qed
  ultimately have "FindSessionNode (rpc_id n) s1 = (None, s1)"
    using i(2) by (intro not_live_find) auto
  moreover have "node_at s1 i = Some (freed (snd (cancelled B i s)) n)"
    using i by (simp add: s1 node_at_def)
  ultimately show ?thesis
    by (simp add: OnRecvResponse_def OnSendRequestFailed_def OnSessionTimeout_def)
qed

theorem answered_session_is_closed_witness:
  "\<exists>(s :: demo_mgr) (n :: (bool, nat) SessionNode). let s1 =
     OnRecvResponse (quiet demo_env) ''TestService'' ''Query'' (rpc_id n) kSuccess [1] s in
     trace s1 = trace s @ [EvDone 7 kSuccess] \<and>
     OnRecvResponse (quiet demo_env) ''TestService'' ''Query'' (rpc_id n) kFailure [2] s1 = s1"
proof -
  obtain s :: demo_mgr and i n where s: "mgr_inv 0 s" "live_at s i n" "node_done n = Some 7"
    "node_method n = demo_method"
    using demo_session [of "[(1, 1), (2, 2)]"] by auto
  have p: "ParseFromArray demo_env (msgs s (node_response n)) [1] = (True, [1])"
    by (simp add: demo_env_def)
  have names: "service_name (node_method n) = ''TestService''" "method_name (node_method n) = ''Query''"
    using s(4) by (simp_all add: demo_method_def)
  from answered_session_is_closed [OF s(1-3) p refl, unfolded names, where r = kSuccess]
    response_matched [OF s(1-3) p, unfolded names, where r = kSuccess]
  show ?thesis by (intro exI [of _ s] exI [of _ n]) (simp add: Let_def)
qed

text \<open>The session timer calls \<open>done(kTimeout)\<close> once and frees the node if a session is
  pending there, and does nothing on a node that is already free, the case of a timer whose
  cancellation came too late.\<close>

theorem session_timeout_effect:
  assumes "mgr_inv core s" and "i < length (sess_pool s)"
  shows "if rpc_id (sess_pool s ! i) = 0 then OnSessionTimeout (quiet B) i s = s
    else \<exists>d. node_done (sess_pool s ! i) = Some d \<and>
      trace (OnSessionTimeout (quiet B) i s) = trace s @ [EvDone d kTimeout] \<and>
      rpc_id (sess_pool (OnSessionTimeout (quiet B) i s) ! i) = 0 \<and>
      (\<forall>j. j \<noteq> i \<longrightarrow> sess_pool (OnSessionTimeout (quiet B) i s) ! j = sess_pool s ! j)"
proof (cases "rpc_id (sess_pool s ! i) = 0")
  case True
  with assms(2) show ?thesis by (simp add: OnSessionTimeout_def node_at_def)
next
  case False
  with assms(2) have n: "live_at s i (sess_pool s ! i)" by (simp add: live_at_def)
  from live_find(2) [OF assms(1) n] obtain d where d: "node_done (sess_pool s ! i) = Some d"
    by (auto simp: node_ok_def)
  from timeout_live [OF n d, of B] assms(2) d False show ?thesis by simp
qed

theorem session_timeout_effect_witness:
  "\<exists>(s :: demo_mgr) i. rpc_id (sess_pool s ! i) \<noteq> 0 \<and>
     (\<exists>d. trace (OnSessionTimeout (quiet demo_env) i s) = trace s @ [EvDone d kTimeout])"
proof -
  obtain s :: demo_mgr and i n where s: "mgr_inv 0 s" "live_at s i n"
    using demo_session [of "[(1, 1), (2, 2)]"] by auto
  then have "i < length (sess_pool s)" "rpc_id (sess_pool s ! i) \<noteq> 0" by (auto simp: live_at_def)
  with session_timeout_effect [OF s(1) this(1), of demo_env] show ?thesis by auto
qed

section \<open>Initialisation\<close>

text \<open>C37: \<open>Init\<close> returns for every requested pool size up to \<open>2 ^ 48\<close>: it rounds the size up to
  the next power of two (at least the request, less than twice it, one node for a request of
  zero), leaves every node free, and establishes the table's invariant.\<close>

theorem Init_rounds_up:
  assumes "n \<le> 2 ^ 48" and "core < 2 ^ 16 - 1" and "rand < 2 ^ 32" and "\<not> fault s0"
  shows "\<exists>s. Init garbage own0 rand n core s0 = Some s \<and> mgr_inv core s \<and>
    (\<exists>k. length (sess_pool s) = 2 ^ k) \<and>
    unat n \<le> length (sess_pool s) \<and> length (sess_pool s) < 2 * max 1 (unat n) \<and>
    (\<forall>i k. \<not> live_at s i k)"
proof -
  from Init_inv [OF assms, of garbage own0] obtain s
    where s: "Init garbage own0 rand n core s0 = Some s" "mgr_inv core s"
      "unat n \<le> length (sess_pool s)" "length (sess_pool s) < 2 * max 1 (unat n)"
      "\<forall>i<length (sess_pool s). rpc_id (sess_pool s ! i) = 0" by blast
  moreover have "length (sess_pool s) = 2 ^ pool_size_order s"
    using mgr_invD(1) [OF s(2)] by (simp add: geometry_ok_def)
  ultimately show ?thesis by (auto simp: live_at_def)
qed

theorem Init_rounds_up_witness:
  "\<exists>s. Init undefined False 5 100 3 demo_blank = Some s \<and> mgr_inv 3 s \<and>
     100 \<le> length (sess_pool s) \<and> length (sess_pool s) < 200"
proof -
  from Init_rounds_up [of 100 3 5 demo_blank undefined False] obtain s
    where "Init undefined False 5 100 3 demo_blank = Some s" "mgr_inv 3 s"
      "100 \<le> length (sess_pool s)" "length (sess_pool s) < 2 * max 1 100"
    by (auto simp: demo_blank_def)
  then show ?thesis by auto
qed

text \<open>A requested pool size above \<open>2 ^ 48\<close> breaks the table: \<open>Init\<close> caps the number of
  nodes at \<open>2 ^ 48\<close> but computes the index mask from the uncapped order, so there are ids
  whose slot lies outside the pool, and looking one up is an access out of bounds.\<close>

theorem oversized_pool_out_of_bounds:
  assumes "2 ^ 48 < n" and "n \<le> 2 ^ 63" and "Init garbage own0 rand n core s0 = Some s"
  shows "length (sess_pool s) = 2 ^ 48 \<and>
    (\<exists>rid. length (sess_pool s) \<le> slot_of s rid \<and> fault (snd (FindSessionNode rid s)))"
proof -
  from order_loop_spec [OF assms(2)] obtain k where k: "order_loop n = Some k" "unat n \<le> 2 ^ k"
    "k \<le> 63" by blast
  have "(2::nat) ^ 48 < unat n" using assms(1) by (simp add: word_less_nat_alt)
  from this k(2) have "(2::nat) ^ 48 < 2 ^ k" by (rule less_le_trans)
  then have "48 < k" by (simp only: power_strict_increasing_iff)
  with assms(3) k have s: "length (sess_pool s) = 2 ^ 48" "pool_size_mask s = mask k"
    by (auto simp: Init_def Let_def mask_eq_exp_minus_1 push_bit_of_1 simp del: power_numeral)
  define b :: u64 where "b = push_bit 48 1"
  have b: "bit b j \<longleftrightarrow> j = 48" for j
    unfolding b_def push_bit_of_1 bit_exp_iff by auto
  have "b AND pool_size_mask s = b"
    using \<open>48 < k\<close> by (intro bit_word_eqI) (simp add: bit_and_iff b s bit_mask_iff, arith)
  moreover have "unat b = 2 ^ 48" unfolding b_def by (rule unat_push_bit_1) simp
  ultimately have "length (sess_pool s) \<le> slot_of s b" by (simp only: slot_of_def s)
  then show ?thesis using s(1)
    by (auto simp: FindSessionNode_def node_at_def raise_fault_def Let_def intro!: exI [of _ b])
qed

theorem oversized_pool_out_of_bounds_witness:
  "\<exists>s. Init undefined False 5 (2 ^ 48 + 1) 3 demo_blank = Some s \<and> length (sess_pool s) = 2 ^ 48 \<and>
     (\<exists>rid. length (sess_pool s) \<le> slot_of s rid \<and> fault (snd (FindSessionNode rid s)))"
proof -
  have n: "2 ^ 48 < (2 ^ 48 + 1 :: u64)" "(2 ^ 48 + 1 :: u64) \<le> 2 ^ 63" by simp_all
  from order_loop_spec [OF n(2)] obtain s where s: "Init undefined False 5 (2 ^ 48 + 1) 3 demo_blank = Some s"
    by (auto simp: Init_def Let_def)
  from oversized_pool_out_of_bounds [OF n s] s show ?thesis by blast
qed

end
