(* ===== verification/RpcContext.thy ===== *)
theory RpcContext
  imports SessionManager
begin

text \<open>
  \<^verbatim>\<open>src/hyperrpc/rpc_context.{h,cc}\<close>: the contexts of incoming RPCs and the messages they
  allocate. The state of a worker is extended by the objects it has made with \<open>new\<close>: the
  contexts at their addresses, and for every allocated message who releases it. A message of
  \<open>New()\<close> is on the heap, released by a \<open>delete\<close> of its own; one of \<open>New(&arena_)\<close>
  belongs to the arena of its context and goes with it.
\<close>

record IncomingRpcContext =
  ctx_method :: MethodDescriptor
  ctx_request :: "msg_ptr option"
  ctx_response :: "msg_ptr option"
  ctx_rpc_id :: u64
  ctx_addr :: Addr
  ctx_arena :: "nat option"

datatype owner = Heap | Arena nat

record ('own, 'tw, 'msg, 'd) ContextHeap = "('own, 'tw, 'msg, 'd) RpcSessionManager" +
  contexts :: "nat \<Rightarrow> IncomingRpcContext option"
  next_context :: nat
  msg_owner :: "msg_ptr \<Rightarrow> owner option"
  next_msg :: msg_ptr

definition kArenaInitBufSize :: nat where
  "kArenaInitBufSize = 1024"

text \<open>\<open>BuildArenaOptions\<close> over the inline \<open>arena_buf_\<close>: the size of the arena's first block.\<close>

definition BuildArenaOptions :: "nat \<Rightarrow> nat option" where
  "BuildArenaOptions block_size = Some block_size"

definition IncomingRpcContext_init :: "MethodDescriptor \<Rightarrow> u64 \<Rightarrow> Addr \<Rightarrow> IncomingRpcContext" where
  "IncomingRpcContext_init method rid addr =
     \<lparr>ctx_method = method, ctx_request = None, ctx_response = None, ctx_rpc_id = rid,
      ctx_addr = addr, ctx_arena = None\<rparr>"

definition ArenaIncomingRpcContext_init :: "MethodDescriptor \<Rightarrow> u64 \<Rightarrow> Addr \<Rightarrow> IncomingRpcContext" where
  "ArenaIncomingRpcContext_init method rid addr =
     (IncomingRpcContext_init method rid addr)\<lparr>ctx_arena := BuildArenaOptions kArenaInitBufSize\<rparr>"

text \<open>\<open>new IncomingRpcContext(...)\<close> or \<open>new ArenaIncomingRpcContext(...)\<close>\<close>

definition new_context ::
  "IncomingRpcContext \<Rightarrow> ('own, 'tw, 'msg, 'd, 'z) ContextHeap_scheme \<Rightarrow>
   nat \<times> ('own, 'tw, 'msg, 'd, 'z) ContextHeap_scheme" where
  "new_context ctx s =
     (next_context s,
      s\<lparr>contexts := (contexts s)(next_context s \<mapsto> ctx), next_context := next_context s + 1\<rparr>)"

text \<open>\<open>prot.New()\<close> and \<open>prot.New(&arena_)\<close>: a fresh message, its content made from the
  prototype by protobuf (\<open>New\<close>).\<close>

definition new_message ::
  "('msg \<Rightarrow> 'msg) \<Rightarrow> owner \<Rightarrow> 'msg \<Rightarrow> ('own, 'tw, 'msg, 'd, 'z) ContextHeap_scheme \<Rightarrow>
   msg_ptr \<times> ('own, 'tw, 'msg, 'd, 'z) ContextHeap_scheme" where
  "new_message New ow prot s =
     (next_msg s,
      s\<lparr>msgs := (msgs s)(next_msg s := New prot),
        msg_owner := (msg_owner s)(next_msg s \<mapsto> ow), next_msg := next_msg s + 1\<rparr>)"

definition message_owner :: "nat \<Rightarrow> IncomingRpcContext \<Rightarrow> owner" where
  "message_owner c ctx = (case ctx_arena ctx of None \<Rightarrow> Heap | Some _ \<Rightarrow> Arena c)"

text \<open>\<open>ctx->Init(req_prot, resp_prot)\<close>, the virtual method of either class.\<close>

definition context_Init ::
  "('msg \<Rightarrow> 'msg) \<Rightarrow> nat \<Rightarrow> IncomingRpcContext \<Rightarrow> 'msg \<Rightarrow> 'msg \<Rightarrow>
   ('own, 'tw, 'msg, 'd, 'z) ContextHeap_scheme \<Rightarrow>
   IncomingRpcContext \<times> ('own, 'tw, 'msg, 'd, 'z) ContextHeap_scheme" where
  "context_Init New c ctx req_prot resp_prot s =
     (let (rq, s1) = new_message New (message_owner c ctx) req_prot s;
          (rp, s2) = new_message New (message_owner c ctx) resp_prot s1;
          ctx' = ctx\<lparr>ctx_request := Some rq, ctx_response := Some rp\<rparr>
      in (ctx', s2\<lparr>contexts := (contexts s2)(c \<mapsto> ctx')\<rparr>))"

text \<open>\<open>delete ctx\<close>: the destructors release the context and its arena, nothing else.\<close>

definition delete_context ::
  "nat \<Rightarrow> ('own, 'tw, 'msg, 'd, 'z) ContextHeap_scheme \<Rightarrow>
   ('own, 'tw, 'msg, 'd, 'z) ContextHeap_scheme" where
  "delete_context c s =
     s\<lparr>contexts := (contexts s)(c := None),
       msg_owner := (\<lambda>p. if msg_owner s p = Some (Arena c) then None else msg_owner s p)\<rparr>"

end
