(* ===== verification/Packet.thy ===== *)
theory Packet
  imports Common
begin

text \<open>
  The wire format: \<^verbatim>\<open>src/hyperrpc/protocol.h\<close>, the \<open>RpcHeader\<close> message of
  \<^verbatim>\<open>src/hyperrpc/rpc_message.proto\<close>, and the packet building and parsing that
  \<open>SendMessage\<close> and \<open>OnRecvPacket\<close> of \<^verbatim>\<open>src/hyperrpc/rpc_core.cc\<close> do. Protobuf's
  serialisers and parsers are parameters.
\<close>

section \<open>Integers in memory and in network order\<close>

text \<open>Storage of the integers of a struct on the little-endian machines the code runs on.\<close>

definition mem16 :: "u16 \<Rightarrow> byte list" where
  "mem16 w = [ucast w, ucast (drop_bit 8 w)]"

definition load16 :: "byte \<Rightarrow> byte \<Rightarrow> u16" where
  "load16 a b = ucast a OR push_bit 8 (ucast b)"

definition mem32 :: "u32 \<Rightarrow> byte list" where
  "mem32 w = [ucast w, ucast (drop_bit 8 w), ucast (drop_bit 16 w), ucast (drop_bit 24 w)]"

definition load32 :: "byte \<Rightarrow> byte \<Rightarrow> byte \<Rightarrow> byte \<Rightarrow> u32" where
  "load32 a b c d =
     ucast a OR push_bit 8 (ucast b) OR push_bit 16 (ucast c) OR push_bit 24 (ucast d)"

text \<open>The byte swaps of the C library.\<close>

definition htons :: "u16 \<Rightarrow> u16" where
  "htons w = load16 (ucast (drop_bit 8 w)) (ucast w)"

definition htonl :: "u32 \<Rightarrow> u32" where
  "htonl w =
     load32 (ucast (drop_bit 24 w)) (ucast (drop_bit 16 w)) (ucast (drop_bit 8 w)) (ucast w)"

section \<open>The fixed packet header\<close>

record RpcPacketHeader =
  hrpc_pkt_tag :: u8
  hrpc_pkt_ver :: u8
  rpc_header_len :: u16
  rpc_body_len :: u32

definition sizeof_RpcPacketHeader :: nat where
  "sizeof_RpcPacketHeader = 8"

definition header_mem :: "RpcPacketHeader \<Rightarrow> byte list" where
  "header_mem h = [hrpc_pkt_tag h, hrpc_pkt_ver h] @ mem16 (rpc_header_len h) @ mem32 (rpc_body_len h)"

fun header_load :: "byte list \<Rightarrow> RpcPacketHeader option" where
  "header_load (t # v # a # b # c # d # e # f # _) =
     Some \<lparr>hrpc_pkt_tag = t, hrpc_pkt_ver = v, rpc_header_len = load16 a b,
           rpc_body_len = load32 c d e f\<rparr>"
| "header_load _ = None"

section \<open>The header message\<close>

datatype Type = REQUEST | RESPONSE

record RpcHeader =
  hdr_packet_type :: "Type option"
  hdr_service_name :: "string option"
  hdr_method_name :: "string option"
  hdr_rpc_id :: "u64 option"
  hdr_rpc_result :: "32 word option"

text \<open>The generated accessors: the field, or proto2's default when it is absent.\<close>

definition get_field :: "'a \<Rightarrow> 'a option \<Rightarrow> 'a" where
  "get_field dflt x = (case x of None \<Rightarrow> dflt | Some v \<Rightarrow> v)"

abbreviation "get_packet_type h \<equiv> get_field REQUEST (hdr_packet_type h)"
abbreviation "get_service_name h \<equiv> get_field [] (hdr_service_name h)"
abbreviation "get_method_name h \<equiv> get_field [] (hdr_method_name h)"
abbreviation "get_rpc_id h \<equiv> get_field 0 (hdr_rpc_id h)"
abbreviation "get_rpc_result h \<equiv> sint (get_field 0 (hdr_rpc_result h))"

lemma get_field_Some [simp]: "get_field z (Some v) = v"
  by (simp add: get_field_def)

text \<open>Protobuf: sizes, serialisers and the parser of the header.\<close>

record 'msg Protobuf =
  header_ByteSize :: "RpcHeader \<Rightarrow> nat"
  header_Serialize :: "RpcHeader \<Rightarrow> byte list option"
  header_Parse :: "byte list \<Rightarrow> RpcHeader option"
  msg_ByteSize :: "'msg \<Rightarrow> nat"
  msg_Serialize :: "'msg \<Rightarrow> byte list option"

section \<open>Building and parsing packets\<close>

text \<open>Writing to an \<open>ArrayOutputStream\<close> of a fixed size.\<close>

definition stream_write :: "nat \<Rightarrow> byte list \<Rightarrow> byte list option \<Rightarrow> byte list option" where
  "stream_write cap out bs = do {
     b \<leftarrow> bs;
     if length out + length b \<le> cap then Some (out @ b) else None }"

text \<open>
  \<open>garbage\<close> is what the stack buffer holds before it is written. \<open>None\<close> is a failed
  \<open>HRPC_ASSERT\<close>.
\<close>

definition build_packet ::
  "'msg Protobuf \<Rightarrow> (nat \<Rightarrow> byte) \<Rightarrow> RpcHeader \<Rightarrow> 'msg \<Rightarrow> byte list option" where
  "build_packet P garbage header body =
     (let hl = header_ByteSize P header;
          bl = msg_ByteSize P body;
          pkt_size = sizeof_RpcPacketHeader + hl + bl;
          pkt_header = \<lparr>hrpc_pkt_tag = kHyperRpcPacketTag, hrpc_pkt_ver = kHyperRpcPacketVer,
                        rpc_header_len = htons (of_nat hl), rpc_body_len = htonl (of_nat bl)\<rparr>
      in do {
        out \<leftarrow> stream_write (hl + bl) [] (header_Serialize P header);
        out \<leftarrow> stream_write (hl + bl) out (msg_Serialize P body);
        Some (header_mem pkt_header @ out @
              map garbage [sizeof_RpcPacketHeader + length out..<pkt_size])
      })"

text \<open>The first half of \<open>OnRecvPacket\<close>: the header message and the body, or a drop.\<close>

definition parse_packet :: "'msg Protobuf \<Rightarrow> byte list \<Rightarrow> (RpcHeader \<times> byte list) option" where
  "parse_packet P buf =
     (if length buf \<le> sizeof_RpcPacketHeader then None
      else do {
        h \<leftarrow> header_load buf;
        if hrpc_pkt_tag h \<noteq> kHyperRpcPacketTag then None
        else if hrpc_pkt_ver h \<noteq> kHyperRpcPacketVer then None
        else
          let hl = unat (htons (rpc_header_len h));
              bl = unat (htonl (rpc_body_len h))
          in if length buf \<noteq> sizeof_RpcPacketHeader + hl + bl then None
          else do {
            rpc_header \<leftarrow> header_Parse P (take hl (drop sizeof_RpcPacketHeader buf));
            Some (rpc_header, take bl (drop (sizeof_RpcPacketHeader + hl) buf))
          }
      })"

section \<open>The byte order\<close>

lemma bit_byteD: "bit (a :: byte) n \<Longrightarrow> n < 8"
  by (simp add: bit_imp_le_length [where 'a = 8, simplified])

lemma load16_mem: "load16 (ucast w) (ucast (drop_bit 8 w)) = w"
  unfolding load16_def by (rule bit_word_eqI) (auto simp: bit_simps)

lemma load16_bytes:
  "ucast (load16 a b) = a" "ucast (drop_bit 8 (load16 a b)) = b"
  unfolding load16_def by (rule bit_word_eqI; auto simp: bit_simps dest: bit_byteD)+

lemma load32_mem:
  "load32 (ucast w) (ucast (drop_bit 8 w)) (ucast (drop_bit 16 w)) (ucast (drop_bit 24 w)) = w"
proof (rule bit_word_eqI)
  fix n :: nat
  assume "n < LENGTH(32)"
  then have "n < 8 \<or> (8 \<le> n \<and> n < 16) \<or> (16 \<le> n \<and> n < 24) \<or> (24 \<le> n \<and> n < 32)"
    by (simp, linarith)
  then show "bit (load32 (ucast w) (ucast (drop_bit 8 w)) (ucast (drop_bit 16 w))
      (ucast (drop_bit 24 w))) n \<longleftrightarrow> bit w n"
    unfolding load32_def by (elim disjE) (auto simp: bit_simps)
qed

lemma load32_bytes:
  "ucast (load32 a b c d) = a" "ucast (drop_bit 8 (load32 a b c d)) = b"
  "ucast (drop_bit 16 (load32 a b c d)) = c" "ucast (drop_bit 24 (load32 a b c d)) = d"
  unfolding load32_def by (rule bit_word_eqI; auto simp: bit_simps dest: bit_byteD)+

lemma htons_htons [simp]: "htons (htons w) = w"
  by (simp add: htons_def load16_bytes load16_mem)

lemma htonl_htonl [simp]: "htonl (htonl w) = w"
  by (simp add: htonl_def load32_bytes load32_mem)

text \<open>In memory a swapped integer has its most significant byte first.\<close>

lemma network_order:
  "mem16 (htons v) = [ucast (drop_bit 8 v), ucast v]"
  "mem32 (htonl w) = [ucast (drop_bit 24 w), ucast (drop_bit 16 w), ucast (drop_bit 8 w), ucast w]"
  by (simp_all add: mem16_def mem32_def htons_def htonl_def load16_bytes load32_bytes)

lemma length_header_mem [simp]: "length (header_mem h) = sizeof_RpcPacketHeader"
  by (simp add: header_mem_def mem16_def mem32_def sizeof_RpcPacketHeader_def)

lemma header_load_mem [simp]: "header_load (header_mem h @ rest) = Some h"
  by (simp add: header_mem_def mem16_def mem32_def load16_mem load32_mem)

lemma header_load_total: "sizeof_RpcPacketHeader \<le> length buf \<Longrightarrow> \<exists>h. header_load buf = Some h"
  by (cases buf rule: header_load.cases) (auto simp: sizeof_RpcPacketHeader_def)

section \<open>What the code relies on of protobuf\<close>

text \<open>\<open>ByteSizeLong\<close> is the length of what \<open>SerializeToZeroCopyStream\<close> writes, which succeeds
  if the stream has room.\<close>

definition sizes_agree :: "'msg Protobuf \<Rightarrow> bool" where
  "sizes_agree P \<longleftrightarrow>
     (\<forall>h. \<exists>b. header_Serialize P h = Some b \<and> length b = header_ByteSize P h) \<and>
     (\<forall>m. \<exists>b. msg_Serialize P m = Some b \<and> length b = msg_ByteSize P m)"

lemma build_packet_eq:
  assumes "header_Serialize P h = Some hb" "length hb = header_ByteSize P h"
    and "msg_Serialize P m = Some mb" "length mb = msg_ByteSize P m"
  shows "build_packet P garbage h m = Some (header_mem
    \<lparr>hrpc_pkt_tag = kHyperRpcPacketTag, hrpc_pkt_ver = kHyperRpcPacketVer,
     rpc_header_len = htons (of_nat (length hb)), rpc_body_len = htonl (of_nat (length mb))\<rparr>
    @ hb @ mb)"
  using assms by (simp add: build_packet_def stream_write_def Let_def)

lemma build_packet_total:
  assumes "sizes_agree P"
  obtains pkt where "build_packet P garbage h m = Some pkt"
  using assms build_packet_eq unfolding sizes_agree_def by metis

lemma parse_built:
  assumes "length hb < 2 ^ 16" "length mb < 2 ^ 32" "0 < length hb + length mb"
  shows "parse_packet P (header_mem
    \<lparr>hrpc_pkt_tag = kHyperRpcPacketTag, hrpc_pkt_ver = kHyperRpcPacketVer,
     rpc_header_len = htons (of_nat (length hb)), rpc_body_len = htonl (of_nat (length mb))\<rparr>
    @ hb @ mb) = map_option (\<lambda>h. (h, mb)) (header_Parse P hb)"
proof -
  have "unat (of_nat (length hb) :: u16) = length hb" "unat (of_nat (length mb) :: u32) = length mb"
    using assms by (simp_all add: unsigned_of_nat take_bit_nat_eq_self)
  then show ?thesis
    using assms by (auto simp: parse_packet_def Let_def map_conv_bind_option comp_def)
qed

end
