(* ===== verification/Options.thy ===== *)
theory Options
  imports Common
begin

text \<open>
  \<^verbatim>\<open>src/hyperrpc/options.{h,cc}\<close> and the \<open>OptionsBuilder\<close> of \<^verbatim>\<open>src/hyperrpc/hyperrpc.h\<close>:
  building the options, with the setters' exceptions as \<open>Inl\<close> and the overrides by
  command-line flags; and \<open>CalcSessionPoolSize\<close> of \<^verbatim>\<open>src/hyperrpc/rpc_core.cc\<close>, which turns
  them into the pool size of one worker. HyperUdp's own options and their builder, and
  gflags, are parameters.
\<close>

section \<open>Data\<close>

datatype error = invalid_argument string

definition ebind :: "'e + 'a \<Rightarrow> ('a \<Rightarrow> 'e + 'b) \<Rightarrow> 'e + 'b" where
  "ebind x f = (case x of Inl e \<Rightarrow> Inl e | Inr a \<Rightarrow> f a)"

record 'h Options =
  hudp_options :: 'h
  max_rpc_sessions :: u64
  rpc_timeout_opt :: u64

record ('b, 'h) OptionsBuilder =
  hudp_opt_builder :: 'b
  hrpc_opt :: "'h Options"

text \<open>HyperUdp: the default options, \<open>worker_num\<close>, the builder's setters and \<open>Build\<close>.\<close>

record ('b, 'h, 'log) HudpOptions =
  hudp_default :: 'h
  worker_num :: "'h \<Rightarrow> u64"
  hudp_builder_new :: 'b
  hudp_LogHandler :: "'log \<Rightarrow> 'b \<Rightarrow> error + 'b"
  hudp_WorkerNumber :: "u64 \<Rightarrow> 'b \<Rightarrow> error + 'b"
  hudp_WorkerQueueSize :: "u64 \<Rightarrow> 'b \<Rightarrow> error + 'b"
  hudp_Build :: "'b \<Rightarrow> error + 'h"

text \<open>gflags: \<open>is_default\<close> of a flag that exists, and the flag's value.\<close>

record GFlags =
  flag_is_default :: "string \<Rightarrow> bool option"
  FLAGS :: "string \<Rightarrow> u64"

text \<open>The flags the library defines (each by \<open>GFLAGS_DEFINE_U64\<close>, with the default 0), as gflags
  holds them when the command line sets none.\<close>

definition hrpc_flags :: "string list" where
  "hrpc_flags =
     [''hrpc_worker_num'', ''hrpc_worker_queue_size'',
      ''hrpc_max_rpc_sessions'', ''hrpc_default_rpc_timeout'']"

definition no_flags :: GFlags where
  "no_flags =
     \<lparr>flag_is_default = (\<lambda>name. if name \<in> set hrpc_flags then Some True else None), FLAGS = (\<lambda>_. 0)\<rparr>"

section \<open>Setters\<close>

definition LogHandler ::
  "('b, 'h, 'log) HudpOptions \<Rightarrow> 'log \<Rightarrow> ('b, 'h) OptionsBuilder \<Rightarrow> error + ('b, 'h) OptionsBuilder" where
  "LogHandler H f b =
     ebind (hudp_LogHandler H f (hudp_opt_builder b)) (\<lambda>hb. Inr (b\<lparr>hudp_opt_builder := hb\<rparr>))"

definition WorkerNumber ::
  "('b, 'h, 'log) HudpOptions \<Rightarrow> u64 \<Rightarrow> ('b, 'h) OptionsBuilder \<Rightarrow> error + ('b, 'h) OptionsBuilder" where
  "WorkerNumber H num b =
     ebind (hudp_WorkerNumber H num (hudp_opt_builder b)) (\<lambda>hb. Inr (b\<lparr>hudp_opt_builder := hb\<rparr>))"

definition WorkerQueueSize ::
  "('b, 'h, 'log) HudpOptions \<Rightarrow> u64 \<Rightarrow> ('b, 'h) OptionsBuilder \<Rightarrow> error + ('b, 'h) OptionsBuilder" where
  "WorkerQueueSize H num b =
     ebind (hudp_WorkerQueueSize H num (hudp_opt_builder b)) (\<lambda>hb. Inr (b\<lparr>hudp_opt_builder := hb\<rparr>))"

definition MaxRpcSessions ::
  "('b, 'h, 'log) HudpOptions \<Rightarrow> u64 \<Rightarrow> ('b, 'h) OptionsBuilder \<Rightarrow> error + ('b, 'h) OptionsBuilder" where
  "MaxRpcSessions H num b =
     (if num < worker_num H (hudp_options (hrpc_opt b)) then Inl (invalid_argument ''Invalid value!'')
      else Inr (b\<lparr>hrpc_opt := (hrpc_opt b)\<lparr>max_rpc_sessions := num\<rparr>\<rparr>))"

definition DefaultRpcTimeout :: "u64 \<Rightarrow> ('b, 'h) OptionsBuilder \<Rightarrow> error + ('b, 'h) OptionsBuilder" where
  "DefaultRpcTimeout ms b =
     (if ms > 2 ^ 32 - 1 \<or> ms \<le> 0 then Inl (invalid_argument ''Invalid timeout value!'')
      else Inr (b\<lparr>hrpc_opt := (hrpc_opt b)\<lparr>rpc_timeout_opt := ms\<rparr>\<rparr>))"

section \<open>Construction and Build\<close>

text \<open>The constructor of the builder, from the \<open>Options\<close> object \<open>new Options\<close> makes.\<close>

definition OptionsBuilder_new ::
  "('b, 'h, 'log) HudpOptions \<Rightarrow> error + ('b, 'h) OptionsBuilder" where
  "OptionsBuilder_new H =
     ebind (MaxRpcSessions H 1000000
              \<lparr>hudp_opt_builder = hudp_builder_new H,
               hrpc_opt = \<lparr>hudp_options = hudp_default H, max_rpc_sessions = 0,
                           rpc_timeout_opt = 0\<rparr>\<rparr>)
       (DefaultRpcTimeout 2500)"

definition GFLAGS_MAY_OVERRIDE ::
  "GFlags \<Rightarrow> string \<Rightarrow> (u64 \<Rightarrow> 's \<Rightarrow> error + 's) \<Rightarrow> 's \<Rightarrow> error + 's" where
  "GFLAGS_MAY_OVERRIDE G name setter b =
     (case flag_is_default G (''hrpc_'' @ name) of
        Some False \<Rightarrow> setter (FLAGS G (''hrpc_'' @ name)) b
      | _ \<Rightarrow> Inr b)"

text \<open>
  \<open>Build\<close> returns the builder too: an exception leaves it with the overrides done so far,
  and a completed \<open>Build\<close> leaves the built HyperUdp options in it.
\<close>

primrec override_flags ::
  "GFlags \<Rightarrow> (string \<times> (u64 \<Rightarrow> 's \<Rightarrow> error + 's)) list \<Rightarrow> 's \<Rightarrow> error option \<times> 's" where
  "override_flags G [] b = (None, b)"
| "override_flags G (f # fs) b =
     (case GFLAGS_MAY_OVERRIDE G (fst f) (snd f) b of
        Inl e \<Rightarrow> (Some e, b)
      | Inr b' \<Rightarrow> override_flags G fs b')"

definition flag_setters ::
  "('b, 'h, 'log) HudpOptions \<Rightarrow>
   (string \<times> (u64 \<Rightarrow> ('b, 'h) OptionsBuilder \<Rightarrow> error + ('b, 'h) OptionsBuilder)) list" where
  "flag_setters H =
     [(''worker_num'', WorkerNumber H),
      (''worker_queue_size'', WorkerQueueSize H),
      (''max_rpc_sessions'', MaxRpcSessions H),
      (''default_rpc_timeout'', DefaultRpcTimeout)]"

definition Build ::
  "('b, 'h, 'log) HudpOptions \<Rightarrow> GFlags \<Rightarrow> ('b, 'h) OptionsBuilder \<Rightarrow>
   (error + 'h Options) \<times> ('b, 'h) OptionsBuilder" where
  "Build H G b =
     (case override_flags G (flag_setters H) b of
        (Some e, b') \<Rightarrow> (Inl e, b')
      | (None, b') \<Rightarrow>
          (case hudp_Build H (hudp_opt_builder b') of
             Inl e \<Rightarrow> (Inl e, b')
           | Inr h \<Rightarrow>
               let b'' = b'\<lparr>hrpc_opt := (hrpc_opt b')\<lparr>hudp_options := h\<rparr>\<rparr>
               in (Inr (hrpc_opt b''), b'')))"

section \<open>The pool size of a worker\<close>

definition CalcSessionPoolSize :: "('b, 'h, 'log) HudpOptions \<Rightarrow> 'h Options \<Rightarrow> u64" where
  "CalcSessionPoolSize H opt =
     (let size_per_core = max_rpc_sessions opt div worker_num H (hudp_options opt)
      in size_per_core * 10 div 9)"

end
