(* ===== verification/RpcCore.thy ===== *)
theory RpcCore
  imports RpcContext Packet Options
begin

text \<open>
  \<^verbatim>\<open>src/hyperrpc/rpc_core.{h,cc}\<close> and \<^verbatim>\<open>src/hyperrpc/route_info_builder.{h,cc}\<close>: one worker's
  dispatcher. Outgoing calls are routed and handed to the session manager, packets are parsed
  and dispatched to a service or to the session they answer, results of services are sent back.
  The state extends the worker's session table and contexts by ghost fields: \<open>sent\<close>, the
  packets handed to \<open>on_send_packet_\<close>, \<open>served\<close>, the calls of services, and
  \<open>core_fault\<close>, raised by a failed \<open>HRPC_ASSERT\<close>, a null dereference or a use of a deleted
  context. Services, the routing closure, the user's closures, HyperUdp and protobuf are
  parameters; those that run code of the user are state transformers, so they may call back.
\<close>

section \<open>Data\<close>

record ('own, 'tw, 'msg, 'd) RpcCore = "('own, 'tw, 'msg, 'd) ContextHeap" +
  rpc_core_id :: nat
  sent :: "(byte list \<times> Addr \<times> u64) list"
  served :: "(MethodDescriptor \<times> msg_ptr \<times> msg_ptr \<times> nat) list"
  core_fault :: bool

type_synonym ('own, 'tw, 'msg, 'd, 'z) core = "('own, 'tw, 'msg, 'd, 'z) RpcCore_scheme"

text \<open>
  The environment of a worker: what the session manager needs (its \<open>on_send_request\<close> is not
  used, \<open>Init\<close> binds \<open>OnOutgoingRpcSend\<close> instead), the number of workers, protobuf, the
  \<open>Service\<close> interface, and the closures \<open>on_send_packet_\<close>, \<open>on_find_service_\<close> and
  \<open>on_service_routing_\<close>. The routing closure returns its answer and the addresses it gave to
  \<open>AddEndpoint\<close>; it may be empty.
\<close>

record ('own, 'tw, 'msg, 'd, 'svc, 'sd, 's) CoreEnv =
  sess_env :: "('own, 'tw, 'msg, 'd, 's) SessionEnv"
  workers :: u64
  pb :: "'msg Protobuf"
  stack_garbage :: "nat \<Rightarrow> byte"
  NewMessage :: "'msg \<Rightarrow> 'msg"
  cc_enable_arenas :: "'msg \<Rightarrow> bool"
  GetDescriptor :: "'svc \<Rightarrow> 'sd option"
  FindMethodByName :: "'sd \<Rightarrow> string \<Rightarrow> MethodDescriptor option"
  GetRequestPrototype :: "'svc \<Rightarrow> MethodDescriptor \<Rightarrow> 'msg"
  GetResponsePrototype :: "'svc \<Rightarrow> MethodDescriptor \<Rightarrow> 'msg"
  Service_CallMethod :: "'svc \<Rightarrow> MethodDescriptor \<Rightarrow> msg_ptr \<Rightarrow> msg_ptr \<Rightarrow> nat \<Rightarrow> 's \<Rightarrow> 's"
  on_send_packet :: "byte list \<Rightarrow> Addr \<Rightarrow> u64 \<Rightarrow> 's \<Rightarrow> 's"
  on_find_service :: "string \<Rightarrow> 'svc option"
  on_service_routing ::
    "(string \<Rightarrow> string \<Rightarrow> 'msg \<Rightarrow> 's \<Rightarrow> bool \<times> Addr list \<times> 's) option"

type_synonym ('own, 'tw, 'msg, 'd, 'svc, 'sd, 'z) core_env =
  "('own, 'tw, 'msg, 'd, 'svc, 'sd, ('own, 'tw, 'msg, 'd, 'z) RpcCore_scheme) CoreEnv"

definition raise_core_fault ::
  "('own, 'tw, 'msg, 'd, 'z) core \<Rightarrow> ('own, 'tw, 'msg, 'd, 'z) core" where
  "raise_core_fault s = s\<lparr>core_fault := True\<rparr>"

section \<open>Sending\<close>

definition SendMessage ::
  "('own, 'tw, 'msg, 'd, 'svc, 'sd, 'z) core_env \<Rightarrow> RpcHeader \<Rightarrow> 'msg \<Rightarrow> Addr \<Rightarrow> u64 \<Rightarrow>
   ('own, 'tw, 'msg, 'd, 'z) core \<Rightarrow> ('own, 'tw, 'msg, 'd, 'z) core" where
  "SendMessage C header body addr ctx s =
     (case build_packet (pb C) (stack_garbage C) header body of
        None \<Rightarrow> raise_core_fault s
      | Some pkt \<Rightarrow> on_send_packet C pkt addr ctx (s\<lparr>sent := sent s @ [(pkt, addr, ctx)]\<rparr>))"

definition request_header :: "MethodDescriptor \<Rightarrow> u64 \<Rightarrow> RpcHeader" where
  "request_header method rid =
     \<lparr>hdr_packet_type = Some REQUEST, hdr_service_name = Some (service_name method),
      hdr_method_name = Some (method_name method), hdr_rpc_id = Some rid, hdr_rpc_result = None\<rparr>"

definition OnOutgoingRpcSend ::
  "('own, 'tw, 'msg, 'd, 'svc, 'sd, 'z) core_env \<Rightarrow> MethodDescriptor \<Rightarrow> msg_ptr \<Rightarrow> u64 \<Rightarrow> Addr \<Rightarrow>
   ('own, 'tw, 'msg, 'd, 'z) core \<Rightarrow> ('own, 'tw, 'msg, 'd, 'z) core" where
  "OnOutgoingRpcSend C method request rid addr s =
     SendMessage C (request_header method rid) (msgs s request) addr rid s"

text \<open>The environment in which \<open>Init\<close> sets up the session manager.\<close>

definition mgr_env_of ::
  "('own, 'tw, 'msg, 'd, 'svc, 'sd, 'z) core_env \<Rightarrow>
   ('own, 'tw, 'msg, 'd, ('own, 'tw, 'msg, 'd, 'z) RpcCore_scheme) SessionEnv" where
  "mgr_env_of C = (sess_env C)\<lparr>on_send_request := OnOutgoingRpcSend C\<rparr>"

definition response_header :: "IncomingRpcContext \<Rightarrow> Result \<Rightarrow> RpcHeader" where
  "response_header ctx result =
     \<lparr>hdr_packet_type = Some RESPONSE, hdr_service_name = Some (service_name (ctx_method ctx)),
      hdr_method_name = Some (method_name (ctx_method ctx)),
      hdr_rpc_id = Some (ctx_rpc_id ctx), hdr_rpc_result = Some (of_int (Result_value result))\<rparr>"

text \<open>The closure \<open>done\<close> of an incoming RPC.\<close>

definition OnIncomingRpcDone ::
  "('own, 'tw, 'msg, 'd, 'svc, 'sd, 'z) core_env \<Rightarrow> nat \<Rightarrow> Result \<Rightarrow>
   ('own, 'tw, 'msg, 'd, 'z) core \<Rightarrow> ('own, 'tw, 'msg, 'd, 'z) core" where
  "OnIncomingRpcDone C c result s =
     (case contexts s c of
        None \<Rightarrow> raise_core_fault s
      | Some ctx \<Rightarrow>
          (case ctx_response ctx of
             None \<Rightarrow> raise_core_fault s
           | Some rp \<Rightarrow>
               delete_context c
                 (SendMessage C (response_header ctx result) (msgs s rp) (ctx_addr ctx) 0 s)))"

section \<open>Initialisation and outgoing calls\<close>

definition core_Init ::
  "('b, 'h, 'log) HudpOptions \<Rightarrow> 'h Options \<Rightarrow> (nat \<Rightarrow> ('own, 'd) SessionNode) \<Rightarrow> 'own \<Rightarrow> u64 \<Rightarrow>
   nat \<Rightarrow> ('own, 'tw, 'msg, 'd, 'z) core \<Rightarrow> ('own, 'tw, 'msg, 'd, 'z) core option" where
  "core_Init H opt garbage own0 rand core_id s =
     Init garbage own0 rand (CalcSessionPoolSize H opt) core_id (s\<lparr>rpc_core_id := core_id\<rparr>)"

text \<open>\<open>RouteInfoBuilderImpl::AddEndpoint\<close>, on the list the builder points to.\<close>

definition AddEndpoint :: "EndpointList \<Rightarrow> Addr \<Rightarrow> EndpointList option" where
  "AddEndpoint eps endpoint = PushBack eps endpoint"

text \<open>The routing closure called with a builder over an empty list.\<close>

definition resolve_endpoints ::
  "('own, 'tw, 'msg, 'd, 'svc, 'sd, 'z) core_env \<Rightarrow> MethodDescriptor \<Rightarrow> msg_ptr \<Rightarrow>
   ('own, 'tw, 'msg, 'd, 'z) core \<Rightarrow>
   EndpointList option \<times> ('own, 'tw, 'msg, 'd, 'z) core" where
  "resolve_endpoints C method request s =
     (case on_service_routing C of
        None \<Rightarrow> (None, s)
      | Some routing \<Rightarrow>
          (let (ok, addrs, s1) =
             routing (service_name method) (method_name method) (msgs s request) s
           in case mfold AddEndpoint EndpointList_init addrs of
                None \<Rightarrow> (None, raise_core_fault s1)
              | Some endpoints \<Rightarrow>
                  (if \<not> ok \<or> el_empty endpoints then None else Some endpoints, s1)))"

text \<open>The ghost event \<open>EvAdd\<close> is that of a closure handed over with no endpoints.\<close>

definition CallMethod ::
  "('own, 'tw, 'msg, 'd, 'svc, 'sd, 'z) core_env \<Rightarrow> MethodDescriptor \<Rightarrow> msg_ptr \<Rightarrow> msg_ptr \<Rightarrow> 'd \<Rightarrow>
   ('own, 'tw, 'msg, 'd, 'z) core \<Rightarrow> ('own, 'tw, 'msg, 'd, 'z) core" where
  "CallMethod C method request response done_f s =
     (case resolve_endpoints C method request s of
        (None, s1) \<Rightarrow>
          invoke_done (mgr_env_of C) done_f kNoRoute (s1\<lparr>trace := trace s1 @ [EvAdd done_f 0]\<rparr>)
      | (Some endpoints, s1) \<Rightarrow>
          snd (AddSession (mgr_env_of C) method request response endpoints done_f s1))"

section \<open>Incoming packets\<close>

definition GetCoreIdFromRpcId ::
  "('own, 'tw, 'msg, 'd, 'svc, 'sd, 'z) core_env \<Rightarrow> u64 \<Rightarrow> nat option" where
  "GetCoreIdFromRpcId C rid =
     (let rpc_core_id_plus_1 = drop_bit kRpcIdSeqPartBits rid in
      if rpc_core_id_plus_1 = 0 \<or> rpc_core_id_plus_1 > workers C then None
      else Some (unat (rpc_core_id_plus_1 - 1)))"

text \<open>The class of the context, by whether the request's file enables arenas.\<close>

definition request_context ::
  "('own, 'tw, 'msg, 'd, 'svc, 'sd, 'z) core_env \<Rightarrow> 'msg \<Rightarrow> MethodDescriptor \<Rightarrow> u64 \<Rightarrow> Addr \<Rightarrow>
   IncomingRpcContext" where
  "request_context C request_prot method rid addr =
     (if \<not> cc_enable_arenas C request_prot then IncomingRpcContext_init method rid addr
      else ArenaIncomingRpcContext_init method rid addr)"

definition OnRecvRequestMessage ::
  "('own, 'tw, 'msg, 'd, 'svc, 'sd, 'z) core_env \<Rightarrow> RpcHeader \<Rightarrow> byte list \<Rightarrow> Addr \<Rightarrow>
   ('own, 'tw, 'msg, 'd, 'z) core \<Rightarrow> ('own, 'tw, 'msg, 'd, 'z) core" where
  "OnRecvRequestMessage C header body addr s =
     (case on_find_service C (get_service_name header) of
        None \<Rightarrow> s
      | Some service \<Rightarrow>
     (case GetDescriptor C service of
        None \<Rightarrow> s
      | Some service_desc \<Rightarrow>
     (case FindMethodByName C service_desc (get_method_name header) of
        None \<Rightarrow> s
      | Some method \<Rightarrow>
          let request_prot = GetRequestPrototype C service method;
              response_prot = GetResponsePrototype C service method;
              ctx0 = request_context C request_prot method (get_rpc_id header) addr;
              (c, s1) = new_context ctx0 s;
              (ctx, s2) = context_Init (NewMessage C) c ctx0 request_prot response_prot s1
          in case (ctx_request ctx, ctx_response ctx) of
               (Some rq, Some rp) \<Rightarrow>
                 let (ok, m) = ParseFromArray (sess_env C) (msgs s2 rq) body;
                     s3 = s2\<lparr>msgs := (msgs s2)(rq := m)\<rparr>
                 in if \<not> ok then s3
                    else Service_CallMethod C service method rq rp c
                           (s3\<lparr>served := served s3 @ [(method, rq, rp, c)]\<rparr>)
             | _ \<Rightarrow> raise_core_fault s2)))"

definition OnRecvResponseMessage ::
  "('own, 'tw, 'msg, 'd, 'svc, 'sd, 'z) core_env \<Rightarrow> RpcHeader \<Rightarrow> byte list \<Rightarrow> Addr \<Rightarrow>
   ('own, 'tw, 'msg, 'd, 'z) core \<Rightarrow> ('own, 'tw, 'msg, 'd, 'z) core" where
  "OnRecvResponseMessage C header body addr s =
     (if get_rpc_result header < 0 \<or> get_rpc_result header > kMaxResultValue then s
      else case Result_of (get_rpc_result header) of
             None \<Rightarrow> raise_core_fault s
           | Some rpc_result \<Rightarrow>
               OnRecvResponse (mgr_env_of C) (get_service_name header) (get_method_name header)
                 (get_rpc_id header) rpc_result body s)"

text \<open>The first component is the worker the packet is to be handled by.\<close>

definition OnRecvPacket ::
  "('own, 'tw, 'msg, 'd, 'svc, 'sd, 'z) core_env \<Rightarrow> byte list \<Rightarrow> Addr \<Rightarrow>
   ('own, 'tw, 'msg, 'd, 'z) core \<Rightarrow> nat \<times> ('own, 'tw, 'msg, 'd, 'z) core" where
  "OnRecvPacket C buf addr s =
     (let cur_rpc_core_id = rpc_core_id s in
      case parse_packet (pb C) buf of
        None \<Rightarrow> (cur_rpc_core_id, s)
      | Some (rpc_header, body) \<Rightarrow>
          if get_packet_type rpc_header = REQUEST
          then (0, OnRecvRequestMessage C rpc_header body addr s)
          else
            let rpc_core_id_plus_1 = drop_bit kRpcIdSeqPartBits (get_rpc_id rpc_header) in
            if rpc_core_id_plus_1 = 0 \<or> rpc_core_id_plus_1 > workers C then (cur_rpc_core_id, s)
            else
              let dst_rpc_core_id = unat (rpc_core_id_plus_1 - 1) in
              if dst_rpc_core_id \<noteq> cur_rpc_core_id then (dst_rpc_core_id, s)
              else (0, OnRecvResponseMessage C rpc_header body addr s))"

definition OnSendPacketFailed ::
  "('own, 'tw, 'msg, 'd, 'svc, 'sd, 'z) core_env \<Rightarrow> u64 \<Rightarrow>
   ('own, 'tw, 'msg, 'd, 'z) core \<Rightarrow> nat \<times> ('own, 'tw, 'msg, 'd, 'z) core" where
  "OnSendPacketFailed C ctx s =
     (let cur_rpc_core_id = rpc_core_id s in
      if ctx \<noteq> 0 then
        (case GetCoreIdFromRpcId C ctx of
           None \<Rightarrow> (cur_rpc_core_id, s)
         | Some dst_rpc_core_id \<Rightarrow>
             if dst_rpc_core_id \<noteq> cur_rpc_core_id then (dst_rpc_core_id, s)
             else (cur_rpc_core_id, OnSendRequestFailed (mgr_env_of C) ctx s))
      else (cur_rpc_core_id, s))"

text \<open>The session timer of a node fires: \<open>AddSession\<close> bound it to \<open>OnSessionTimeout\<close>.\<close>

definition OnTimer ::
  "('own, 'tw, 'msg, 'd, 'svc, 'sd, 'z) core_env \<Rightarrow> nat \<Rightarrow>
   ('own, 'tw, 'msg, 'd, 'z) core \<Rightarrow> ('own, 'tw, 'msg, 'd, 'z) core" where
  "OnTimer C i s = OnSessionTimeout (mgr_env_of C) i s"

end
