(* ===== verification/HyperRpc.thy ===== *)
theory HyperRpc
  imports RpcCore
begin

text \<open>
  \<^verbatim>\<open>src/hyperrpc/hyperrpc.cc\<close>: the facade that owns the workers. The state holds the workers'
  dispatchers and, for each worker, the queue of tasks posted to it; ghost fields record the
  closures handed to \<open>CallMethod\<close>, the closures called outside the workers, the redirect
  buffers that are allocated, and a failed \<open>HRPC_ASSERT\<close>. HyperUdp and its worker group are
  external: whether a \<open>PostTask\<close> is accepted, and by which worker, is an argument.
\<close>

section \<open>Data\<close>

text \<open>The closures of the workers: the user's, or the one \<open>CallMethod\<close> makes for a synchronous
  call of a thread, which stores the result and notifies the thread's event.\<close>

datatype 'u closure = User 'u | SyncDone nat

datatype 'u task =
    RedirectPacket "byte list" Addr
  | RedirectFailed u64
  | CallTask MethodDescriptor msg_ptr msg_ptr "'u closure"

record ('core, 'svc, 'routing, 'u) HyperRpc =
  is_initialized :: bool
  rpc_core_vec :: "'core list"
  service_map :: "string \<Rightarrow> 'svc option"
  client_routing :: "'routing option"
  core_routing :: "'routing option"
  queues :: "'u task list list"
  handed :: "'u closure list"
  outer_trace :: "('u closure \<times> Result) list"
  redirect_buffers :: nat
  aborted :: bool

type_synonym ('own, 'tw, 'msg, 'u, 'svc, 'z) hyper =
  "(('own, 'tw, 'msg, 'u closure, 'z) RpcCore_scheme, 'svc,
    string \<Rightarrow> string \<Rightarrow> 'msg \<Rightarrow> ('own, 'tw, 'msg, 'u closure, 'z) RpcCore_scheme \<Rightarrow>
      bool \<times> Addr list \<times> ('own, 'tw, 'msg, 'u closure, 'z) RpcCore_scheme, 'u) HyperRpc"

definition abort_process :: "('core, 'svc, 'routing, 'u) HyperRpc \<Rightarrow> ('core, 'svc, 'routing, 'u) HyperRpc" where
  "abort_process s = s\<lparr>aborted := True\<rparr>"

section \<open>Configuration\<close>

definition Impl_init :: "('core, 'svc, 'routing, 'u) HyperRpc" where
  "Impl_init = \<lparr>is_initialized = False, rpc_core_vec = [], service_map = (\<lambda>_. None),
     client_routing = None, core_routing = None, queues = [], handed = [], outer_trace = [],
     redirect_buffers = 0, aborted = False\<rparr>"

definition InitAsClient ::
  "'routing option \<Rightarrow> ('core, 'svc, 'routing, 'u) HyperRpc \<Rightarrow>
   bool \<times> ('core, 'svc, 'routing, 'u) HyperRpc" where
  "InitAsClient on_svc_routing s = (True, s\<lparr>client_routing := on_svc_routing\<rparr>)"

text \<open>\<open>svc_name\<close> is \<open>svc->GetDescriptor()->name()\<close>.\<close>

definition InitAsServer ::
  "('svc \<Rightarrow> string) \<Rightarrow> 'svc list \<Rightarrow> ('core, 'svc, 'routing, 'u) HyperRpc \<Rightarrow>
   bool \<times> ('core, 'svc, 'routing, 'u) HyperRpc" where
  "InitAsServer svc_name services s =
     (True, fold (\<lambda>svc s. s\<lparr>service_map := (service_map s)(svc_name svc \<mapsto> svc)\<rparr>) services s)"

definition OnFindService ::
  "('core, 'svc, 'routing, 'u) HyperRpc \<Rightarrow> string \<Rightarrow> 'svc option" where
  "OnFindService s name = service_map s name"

text \<open>
  The loop of \<open>Start\<close> over the workers. \<open>new_core i\<close> is the object \<open>new RpcCore(env_)\<close> makes for
  worker i, \<open>garbage i\<close> what its session nodes hold before construction, \<open>rands i\<close> the number
  \<open>env_.Rand()\<close> returns in its \<open>Init\<close>. \<open>RpcCore::Init\<close> never returns false; \<open>None\<close> is an \<open>Init\<close>
  that does not return.
\<close>

definition init_cores ::
  "('b, 'h, 'log) HudpOptions \<Rightarrow> 'h Options \<Rightarrow> (nat \<Rightarrow> ('own, 'tw, 'msg, 'd, 'z) core) \<Rightarrow>
   (nat \<Rightarrow> nat \<Rightarrow> ('own, 'd) SessionNode) \<Rightarrow> 'own \<Rightarrow> (nat \<Rightarrow> u64) \<Rightarrow>
   ('own, 'tw, 'msg, 'd, 'z) core list option" where
  "init_cores H opt new_core garbage own0 rands =
     mfold (\<lambda>cores i. map_option (\<lambda>core. cores @ [core])
              (core_Init H opt (garbage i) own0 (rands i) i (new_core i)))
       [] [0..<unat (worker_num H (hudp_options opt))]"

text \<open>\<open>udp_ok\<close> is what \<open>hyper_udp_.Init\<close> returns; it starts the workers and their queues.\<close>

definition Start ::
  "('b, 'h, 'log) HudpOptions \<Rightarrow> 'h Options \<Rightarrow> (nat \<Rightarrow> ('own, 'tw, 'msg, 'u closure, 'z) core) \<Rightarrow>
   (nat \<Rightarrow> nat \<Rightarrow> ('own, 'u closure) SessionNode) \<Rightarrow> 'own \<Rightarrow> (nat \<Rightarrow> u64) \<Rightarrow> bool \<Rightarrow>
   ('own, 'tw, 'msg, 'u, 'svc, 'z) hyper \<Rightarrow> (bool \<times> ('own, 'tw, 'msg, 'u, 'svc, 'z) hyper) option" where
  "Start H opt new_core garbage own0 rands udp_ok s =
     (if is_initialized s then Some (False, abort_process s)
      else do {
        cores \<leftarrow> init_cores H opt new_core garbage own0 rands;
        Some (if udp_ok
          then (True, s\<lparr>is_initialized := True, rpc_core_vec := cores,
                       core_routing := client_routing s,
                       queues := replicate (length cores) []\<rparr>)
          else (False, s\<lparr>rpc_core_vec := []\<rparr>))
      })"

section \<open>The workers\<close>

text \<open>The environment the workers' dispatchers run in: the closures \<open>Start\<close> gave them.\<close>

definition core_env_of ::
  "('own, 'tw, 'msg, 'u closure, 'svc, 'sd, 'z) core_env \<Rightarrow> ('own, 'tw, 'msg, 'u, 'svc, 'z) hyper \<Rightarrow>
   ('own, 'tw, 'msg, 'u closure, 'svc, 'sd, 'z) core_env" where
  "core_env_of C s = C\<lparr>on_find_service := OnFindService s, on_service_routing := core_routing s\<rparr>"

definition set_core ::
  "nat \<Rightarrow> 'core \<Rightarrow> ('core, 'svc, 'routing, 'u) HyperRpc \<Rightarrow> ('core, 'svc, 'routing, 'u) HyperRpc" where
  "set_core w core s = s\<lparr>rpc_core_vec := (rpc_core_vec s)[w := core]\<rparr>"

text \<open>\<open>PostTask(w, ...)\<close> when it is accepted.\<close>

definition post ::
  "nat \<Rightarrow> 'u task \<Rightarrow> ('core, 'svc, 'routing, 'u) HyperRpc \<Rightarrow> ('core, 'svc, 'routing, 'u) HyperRpc" where
  "post w t s = s\<lparr>queues := (queues s)[w := queues s ! w @ [t]]\<rparr>"

text \<open>A packet received by worker \<open>w\<close>'s thread. \<open>accepted\<close> is what \<open>PostTask\<close> returns. A refused
  redirect frees its buffer at once.\<close>

definition Impl_OnRecvPacket ::
  "('own, 'tw, 'msg, 'u closure, 'svc, 'sd, 'z) core_env \<Rightarrow> nat \<Rightarrow> bool \<Rightarrow> byte list \<Rightarrow> Addr \<Rightarrow>
   ('own, 'tw, 'msg, 'u, 'svc, 'z) hyper \<Rightarrow> ('own, 'tw, 'msg, 'u, 'svc, 'z) hyper" where
  "Impl_OnRecvPacket C w accepted buf addr s =
     (if \<not> w < length (rpc_core_vec s) then abort_process s
      else
        let (dst, core) = OnRecvPacket (core_env_of C s) buf addr (rpc_core_vec s ! w);
            s1 = set_core w core s
        in if dst \<noteq> w \<and> dst < length (rpc_core_vec s1)
           then if accepted
                then post dst (RedirectPacket buf addr)
                       (s1\<lparr>redirect_buffers := redirect_buffers s1 + 1\<rparr>)
                else s1
           else s1)"

definition Impl_OnSentResult ::
  "('own, 'tw, 'msg, 'u closure, 'svc, 'sd, 'z) core_env \<Rightarrow> nat \<Rightarrow> bool \<Rightarrow> bool \<Rightarrow> u64 \<Rightarrow>
   ('own, 'tw, 'msg, 'u, 'svc, 'z) hyper \<Rightarrow> ('own, 'tw, 'msg, 'u, 'svc, 'z) hyper" where
  "Impl_OnSentResult C w accepted success ctx s =
     (if success then s
      else
        let (dst, core) = OnSendPacketFailed (core_env_of C s) ctx (rpc_core_vec s ! w);
            s1 = set_core w core s
        in if dst \<noteq> w
           then if accepted then post dst (RedirectFailed ctx) s1 else s1
           else s1)"

text \<open>Worker \<open>w\<close> takes the first task of its queue. The worker a redirected packet or failure
  names is not looked at again.\<close>

definition run_task ::
  "('own, 'tw, 'msg, 'u closure, 'svc, 'sd, 'z) core_env \<Rightarrow> nat \<Rightarrow>
   ('own, 'tw, 'msg, 'u, 'svc, 'z) hyper \<Rightarrow> ('own, 'tw, 'msg, 'u, 'svc, 'z) hyper" where
  "run_task C w s =
     (case queues s ! w of
        [] \<Rightarrow> s
      | t # ts \<Rightarrow>
          let s1 = s\<lparr>queues := (queues s)[w := ts]\<rparr>;
              core = rpc_core_vec s ! w;
              E = core_env_of C s
          in case t of
               RedirectPacket buf addr \<Rightarrow>
                 set_core w (snd (OnRecvPacket E buf addr core))
                   (s1\<lparr>redirect_buffers := redirect_buffers s1 - 1\<rparr>)
             | RedirectFailed ctx \<Rightarrow> set_core w (snd (OnSendPacketFailed E ctx core)) s1
             | CallTask method request response done_f \<Rightarrow>
                 set_core w (RpcCore.CallMethod E method request response done_f core) s1)"

section \<open>Calls\<close>

text \<open>Who calls \<open>CallMethod\<close>: the thread of a worker, or another thread.\<close>

datatype caller = InWorker nat | Outside nat

text \<open>What the caller sees: the call returned, or its thread waits for its event.\<close>

datatype call_result = Return Result | Wait

text \<open>\<open>accepted_by\<close> is the worker whose queue takes the task, \<open>None\<close> if \<open>PostTask\<close> fails.\<close>

definition Impl_CallMethod ::
  "('own, 'tw, 'msg, 'u closure, 'svc, 'sd, 'z) core_env \<Rightarrow> caller \<Rightarrow> nat option \<Rightarrow>
   MethodDescriptor \<Rightarrow> msg_ptr \<Rightarrow> msg_ptr \<Rightarrow> 'u option \<Rightarrow>
   ('own, 'tw, 'msg, 'u, 'svc, 'z) hyper \<Rightarrow> call_result \<times> ('own, 'tw, 'msg, 'u, 'svc, 'z) hyper" where
  "Impl_CallMethod C caller accepted_by method request response done_f s =
     (if \<not> is_initialized s then (Wait, abort_process s)
      else case caller of
        InWorker w \<Rightarrow>
          (case done_f of
             None \<Rightarrow> (Return kInError, s)
           | Some d \<Rightarrow>
               (Return kSuccess,
                set_core w (RpcCore.CallMethod (core_env_of C s) method request response (User d)
                              (rpc_core_vec s ! w))
                  (s\<lparr>handed := handed s @ [User d]\<rparr>)))
      | Outside thread \<Rightarrow>
          let is_sync = (done_f = None);
              f = (case done_f of None \<Rightarrow> SyncDone thread | Some d \<Rightarrow> User d);
              s1 = s\<lparr>handed := handed s @ [f]\<rparr>;
              s2 = (case accepted_by of
                      Some w \<Rightarrow> post w (CallTask method request response f) s1
                    | None \<Rightarrow> s1\<lparr>outer_trace := outer_trace s1 @ [(f, kInError)]\<rparr>)
          in (if is_sync then Wait else Return kSuccess, s2))"

text \<open>The results a waiting thread has been notified of, wherever its closure was called.\<close>

definition notified ::
  "('own, 'tw, 'msg, 'u, 'svc, 'z) hyper \<Rightarrow> nat \<Rightarrow> Result list" where
  "notified s thread =
     map snd (filter (\<lambda>x. fst x = SyncDone thread) (outer_trace s)) @
     concat (map (\<lambda>core. List.map_filter
       (\<lambda>e. case e of EvDone f r \<Rightarrow> if f = SyncDone thread then Some r else None | _ \<Rightarrow> None)
       (trace core)) (rpc_core_vec s))"

end
