(* ===== verification/CoreContract.thy ===== *)
theory CoreContract
  imports RpcCore SessionRuns "HOL-Library.Sublist"
begin

text \<open>
  The invariant of a worker and the contract of its callbacks. The session table is covered by
  the session manager's own contract; the contexts and the worker's number live in fields the
  session manager never touches, which \<open>frame_callbacks\<close> turns into a contract of its own.
\<close>

section \<open>The session manager leaves the other fields alone\<close>

locale frame_callbacks =
  fixes E :: "('own, 'tw, 'msg, 'd, 'z) mgr_env"
    and J :: "('own, 'tw, 'msg, 'd, 'z) mgr \<Rightarrow> bool"
  assumes J_fields [simp]:
      "J (s\<lparr>sess_pool := p\<rparr>) = J s" "J (s\<lparr>timerw := w\<rparr>) = J s"
      "J (s\<lparr>msgs := m\<rparr>) = J s" "J (s\<lparr>next_rpc_id := x\<rparr>) = J s" "J (s\<lparr>fault := b\<rparr>) = J s"
    and trace_J: "J s \<Longrightarrow> J (s\<lparr>trace := trace s @ es\<rparr>)"
    and done_J: "J s \<Longrightarrow> J (run_done E d r s)"
    and send_J: "J s \<Longrightarrow> J (on_send_request E m' rq rid a s)"
begin

lemma helpers_J:
  "J (update_node i f s) = J s" "J (raise_fault s) = J s"
  "J s \<Longrightarrow> J (invoke_done E d r s)" "J s \<Longrightarrow> J (node_call_done E i r s)"
  "J s \<Longrightarrow> J (node_send E i k s)" "J (node_arm_timer E i s) = J s"
  "J (node_cancel_timer E i s) = J s" "J (FreeSessionNode i s) = J s"
  by (auto simp: update_node_def raise_fault_def invoke_done_def node_call_done_def node_send_def
      node_arm_timer_def node_cancel_timer_def FreeSessionNode_def done_J send_J trace_J
      split: option.split prod.split)

lemma alloc_J: "J (snd (AllocSessionNode s)) = J s"
proof -
  have "J (snd (alloc_loop k s)) = J s" for k s
    by (induction k arbitrary: s)
      (auto simp: NextRpcId_def Let_def helpers_J split: option.split)
  then show ?thesis by (simp add: AllocSessionNode_def)
qed

lemma find_state: "snd (FindSessionNode rid s) = s \<or> snd (FindSessionNode rid s) = raise_fault s"
  by (simp add: FindSessionNode_def Let_def split: option.split)

lemma find_J: "FindSessionNode rid s = (x, s1) \<Longrightarrow> J s1 = J s"
  using find_state [of rid s] by (auto simp: helpers_J)

lemma AddSession_J:
  assumes "J (s\<lparr>trace := trace s @ [EvAdd d (el_size eps)]\<rparr>)"
  shows "J (snd (AddSession E m' rq rp eps d s))"
proof -
  let ?t = "s\<lparr>trace := trace s @ [EvAdd d (el_size eps)]\<rparr>"
  have "J s1" if "AllocSessionNode ?t = (x, s1)" for x s1
    using alloc_J [of ?t] that assms by simp
  with assms show ?thesis
    by (auto simp: AddSession_def Let_def helpers_J split: prod.split option.split)
qed

lemma ops_J:
  assumes "J s"
  shows "J (snd (AddSession E m' rq rp eps d s))" "J (OnSendRequestFailed E rid s)"
    "J (OnRecvResponse E svc mth rid r body s)" "J (OnSessionTimeout E i s)"
proof -
  show "J (snd (AddSession E m' rq rp eps d s))"
    using assms by (intro AddSession_J trace_J)
  show "J (OnSendRequestFailed E rid s)"
    using assms
    by (auto simp: OnSendRequestFailed_def Let_def helpers_J find_J split: prod.split option.split)
  show "J (OnRecvResponse E svc mth rid r body s)"
    using assms
    by (auto simp: OnRecvResponse_def Let_def helpers_J find_J split: prod.split option.split)
  show "J (OnSessionTimeout E i s)"
    using assms by (auto simp: OnSessionTimeout_def helpers_J split: option.split)
qed

end

section \<open>The invariant of a worker\<close>

text \<open>A context that can be answered: its two messages are distinct and still allocated, and
  each is released by the one who is to release it.\<close>

definition context_ok ::
  "('own, 'tw, 'msg, 'd, 'z) core \<Rightarrow> nat \<Rightarrow> IncomingRpcContext \<Rightarrow> bool" where
  "context_ok s c ctx \<longleftrightarrow>
     ctx_request ctx \<noteq> None \<and> ctx_response ctx \<noteq> None \<and> ctx_request ctx \<noteq> ctx_response ctx \<and>
     msg_owner s (the (ctx_request ctx)) = Some (message_owner c ctx) \<and>
     msg_owner s (the (ctx_response ctx)) = Some (message_owner c ctx)"

definition context_inv :: "nat \<Rightarrow> ('own, 'tw, 'msg, 'd, 'z) core \<Rightarrow> bool" where
  "context_inv core s \<longleftrightarrow>
     \<not> core_fault s \<and> rpc_core_id s = core \<and>
     (\<forall>c ctx. contexts s c = Some ctx \<longrightarrow> c < next_context s \<and> context_ok s c ctx) \<and>
     (\<forall>p. msg_owner s p \<noteq> None \<longrightarrow> p < next_msg s) \<and>
     (\<forall>p c. msg_owner s p = Some (Arena c) \<longrightarrow> contexts s c \<noteq> None)"

definition core_inv :: "nat \<Rightarrow> ('own, 'tw, 'msg, 'd, 'z) core \<Rightarrow> bool" where
  "core_inv core s \<longleftrightarrow> mgr_inv core s \<and> context_inv core s"

text \<open>What a callback may do; the trace only grows.\<close>

definition harmless ::
  "nat \<Rightarrow> ('own, 'tw, 'msg, 'd, 'z) core \<Rightarrow> ('own, 'tw, 'msg, 'd, 'z) core \<Rightarrow> bool" where
  "harmless core s s' \<longleftrightarrow>
     (mgr_inv core s \<longrightarrow> keeps core s s') \<and> (context_inv core s \<longrightarrow> context_inv core s') \<and>
     prefix (trace s) (trace s')"

lemma harmless_refl [simp]: "harmless core s s"
  by (simp add: harmless_def keeps_refl)

lemma harmless_trans: "harmless core s s' \<Longrightarrow> harmless core s' s'' \<Longrightarrow> harmless core s s''"
  unfolding harmless_def by (meson keeps_def keeps_trans prefix_order.trans)

lemma context_inv_fields [simp]:
  "context_inv core (s\<lparr>sess_pool := p\<rparr>) = context_inv core s"
  "context_inv core (s\<lparr>timerw := w\<rparr>) = context_inv core s"
  "context_inv core (s\<lparr>trace := t\<rparr>) = context_inv core s"
  "context_inv core (s\<lparr>msgs := m\<rparr>) = context_inv core s"
  "context_inv core (s\<lparr>next_rpc_id := x\<rparr>) = context_inv core s"
  "context_inv core (s\<lparr>fault := b\<rparr>) = context_inv core s"
  "context_inv core (s\<lparr>sent := u\<rparr>) = context_inv core s"
  "context_inv core (s\<lparr>served := v\<rparr>) = context_inv core s"
  by (simp_all add: context_inv_def context_ok_def)

text \<open>Changes of the worker's own fields do not touch the session table.\<close>

lemma keeps_same_table:
  assumes "mgr_inv core s"
    and "sess_pool s' = sess_pool s" "pool_size_order s' = pool_size_order s"
    "pool_size_mask s' = pool_size_mask s" "next_rpc_id s' = next_rpc_id s"
    "trace s' = trace s" "fault s' = fault s"
  shows "keeps core s s'"
  using assms
  by (simp add: keeps_def mgr_inv_def geometry_ok_def owes_def added_def answered_def
      pending_def dropped_def)

lemma delete_context_inv:
  assumes "context_inv core s"
  shows "context_inv core (delete_context c s)"
proof -
  have "message_owner c' ctx \<noteq> Arena c" if "c' \<noteq> c" for c' ctx
    using that by (simp add: message_owner_def split: option.split)
  with assms show ?thesis
    by (auto simp: context_inv_def context_ok_def delete_context_def split: if_splits)
qed

section \<open>The contract\<close>

locale core_callbacks =
  fixes C :: "('own, 'tw, 'msg, 'd, 'svc, 'sd, 'z) core_env"
    and core :: nat
  assumes done_harmless: "harmless core s (run_done (sess_env C) d r s)"
    and send_harmless: "harmless core s (on_send_packet C pkt a ctx s)"
    and service_harmless: "harmless core s (Service_CallMethod C svc m rq rp c s)"
    and routing_harmless: "on_service_routing C = Some f \<Longrightarrow> f sv mt msg s = (ok, addrs, s') \<Longrightarrow>
      harmless core s s'"
    and pb_sizes: "sizes_agree (pb C)"
begin

lemma SendMessage_harmless: "harmless core s (SendMessage C h body a ctx s)"
proof -
  obtain pkt where pkt: "build_packet (pb C) (stack_garbage C) h body = Some pkt"
    using pb_sizes by (rule build_packet_total)
  have "harmless core s (s\<lparr>sent := sent s @ [(pkt, a, ctx)]\<rparr>)"
    by (simp add: harmless_def keeps_same_table)
  with pkt show ?thesis
    using send_harmless harmless_trans by (simp add: SendMessage_def) blast
qed

lemma OnOutgoingRpcSend_harmless: "harmless core s (OnOutgoingRpcSend C m rq rid a s)"
  by (simp add: OnOutgoingRpcSend_def SendMessage_harmless)

end

sublocale core_callbacks \<subseteq> mgr: session_callbacks "mgr_env_of C" core
  by unfold_locales
    (use done_harmless OnOutgoingRpcSend_harmless in \<open>auto simp: mgr_env_of_def harmless_def\<close>)

sublocale core_callbacks \<subseteq> frame: frame_callbacks "mgr_env_of C" "context_inv core"
  by unfold_locales
    (use done_harmless OnOutgoingRpcSend_harmless in \<open>auto simp: mgr_env_of_def harmless_def\<close>)

sublocale core_callbacks \<subseteq> grows: frame_callbacks "mgr_env_of C" "\<lambda>s. prefix tr (trace s)" for tr
proof unfold_locales
  fix s :: "('own, 'tw, 'msg, 'd, 'z) RpcCore_scheme" and d r m' rq rid a
  assume p: "prefix tr (trace s)"
  have "prefix (trace s) (trace (run_done (sess_env C) d r s))"
    "prefix (trace s) (trace (OnOutgoingRpcSend C m' rq rid a s))"
    using done_harmless OnOutgoingRpcSend_harmless by (simp_all add: harmless_def)
  from this [THEN prefix_order.trans [OF p]]
  show "prefix tr (trace (run_done (mgr_env_of C) d r s))"
    "prefix tr (trace (on_send_request (mgr_env_of C) m' rq rid a s))"
    by (simp_all add: mgr_env_of_def)
qed (simp_all add: prefix_prefix)

context core_callbacks
begin

lemma AddSession_harmless:
  assumes "el_wf eps" "0 < el_size eps"
  shows "harmless core s (snd (AddSession (mgr_env_of C) m rq rp eps d s))"
  using assms mgr.AddSession_keeps [of s eps m rq rp d] frame.ops_J(1) grows.ops_J(1)
  by (simp add: harmless_def)

lemma keeps_core_inv:
  "core_inv core s \<Longrightarrow> harmless core s s' \<Longrightarrow> core_inv core s'"
  by (auto simp: core_inv_def harmless_def keeps_def)

lemma refuse_harmless:
  "harmless core s (invoke_done (mgr_env_of C) d kNoRoute (s\<lparr>trace := trace s @ [EvAdd d 0]\<rparr>))"
proof -
  let ?t = "s\<lparr>trace := trace s @ [EvAdd d 0]\<rparr>"
  have "keeps core s (invoke_done (mgr_env_of C) d kNoRoute ?t)" if "mgr_inv core s"
    using mgr.invoke_keeps [of ?t d kNoRoute] owes_trace_refused [of 0 _ s d kNoRoute] that
    by (simp add: keeps_def)
  moreover have "prefix (trace s) (trace (invoke_done (mgr_env_of C) d kNoRoute ?t))"
    by (rule grows.helpers_J) simp
  ultimately show ?thesis by (simp add: harmless_def frame.helpers_J)
qed

lemma resolve_endpoints_cases:
  obtains s1 where "resolve_endpoints C m rq s = (None, s1)" "harmless core s s1"
  | eps s1 where "resolve_endpoints C m rq s = (Some eps, s1)" "harmless core s s1"
      "el_wf eps" "0 < el_size eps"
proof (cases "on_service_routing C")
  case None
  then show thesis using that(1) by (simp add: resolve_endpoints_def)
next
  case (Some f)
  obtain ok addrs s1 where f: "f (service_name m) (method_name m) (msgs s rq) s = (ok, addrs, s1)"
    by (metis prod_cases3)
  have "AddEndpoint = PushBack" by (intro ext) (simp add: AddEndpoint_def)
  with el.build [of addrs] obtain eps where eps: "mfold AddEndpoint EndpointList_init addrs = Some eps"
    "el_wf eps" by auto
  with Some f that routing_harmless [OF Some f] show thesis
    by (cases "\<not> ok \<or> el_empty eps") (auto simp: resolve_endpoints_def el_empty_def)
qed

lemma CallMethod_harmless: "harmless core s (CallMethod C m rq rp d s)"
  by (rule resolve_endpoints_cases [of m rq s])
    (auto simp: CallMethod_def intro: harmless_trans refuse_harmless AddSession_harmless)

text \<open>A call's closure is in the trace once the call is made.\<close>

lemma CallMethod_adds:
  "\<exists>es k. prefix (trace s @ es @ [EvAdd d k]) (trace (CallMethod C m rq rp d s))"
proof (rule resolve_endpoints_cases [of m rq s])
  fix s1
  assume s1: "resolve_endpoints C m rq s = (None, s1)" "harmless core s s1"
  then obtain es where es: "trace s1 = trace s @ es" by (auto simp: harmless_def prefix_def)
  have "prefix (trace s1 @ [EvAdd d 0]) (trace (CallMethod C m rq rp d s))"
    unfolding CallMethod_def s1(1) by simp (rule grows.helpers_J, simp)
  with es show ?thesis by auto
next
  fix eps s1
  assume s1: "resolve_endpoints C m rq s = (Some eps, s1)" "harmless core s s1"
  then obtain es where es: "trace s1 = trace s @ es" by (auto simp: harmless_def prefix_def)
  have "prefix (trace s1 @ [EvAdd d (el_size eps)]) (trace (CallMethod C m rq rp d s))"
    unfolding CallMethod_def s1(1) by simp (rule grows.AddSession_J, simp)
  with es show ?thesis by auto
qed

lemma OnIncomingRpcDone_harmless:
  assumes "\<exists>ctx. contexts s c = Some ctx \<and> ctx_response ctx \<noteq> None"
  shows "harmless core s (OnIncomingRpcDone C c r s)"
proof -
  have delete: "harmless core t (delete_context c t)" for t :: "('own, 'tw, 'msg, 'd, 'z) core"
    using keeps_same_table [of core t "delete_context c t"] delete_context_inv [of core t c]
    by (simp add: harmless_def) (simp add: delete_context_def)
  from assms obtain ctx rp where "contexts s c = Some ctx" "ctx_response ctx = Some rp" by auto
  then show ?thesis
    by (simp add: OnIncomingRpcDone_def) (rule harmless_trans [OF SendMessage_harmless delete])
qed

end

end
