(* ===== verification/CoreOps.thy ===== *)
theory CoreOps
  imports CoreContract
begin

text \<open>
  Every operation of a worker keeps its invariant and the books of the closures, under the
  contract of its callbacks; then the runs of a worker, with the user's closures and services
  calling back into it.
\<close>

section \<open>A new incoming context\<close>

definition accepted_context ::
  "('msg \<Rightarrow> 'msg) \<Rightarrow> IncomingRpcContext \<Rightarrow> 'msg \<Rightarrow> 'msg \<Rightarrow>
   ('own, 'tw, 'msg, 'd, 'z) core \<Rightarrow> ('own, 'tw, 'msg, 'd, 'z) core" where
  "accepted_context New ctx0 rqp rpp s =
     (let c = next_context s; rq = next_msg s; rp = next_msg s + 1; ow = message_owner c ctx0;
          ctx = ctx0\<lparr>ctx_request := Some rq, ctx_response := Some rp\<rparr> in
      s\<lparr>contexts := (contexts s)(c \<mapsto> ctx), next_context := c + 1,
        msgs := (msgs s)(rq := New rqp, rp := New rpp),
        msg_owner := (msg_owner s)(rq \<mapsto> ow, rp \<mapsto> ow), next_msg := next_msg s + 2\<rparr>)"

lemma new_context_Init:
  assumes "new_context ctx0 s = (c, s1)" and "context_Init New c ctx0 rqp rpp s1 = (ctx, s2)"
  shows "c = next_context s" "s2 = accepted_context New ctx0 rqp rpp s"
    "ctx = ctx0\<lparr>ctx_request := Some (next_msg s), ctx_response := Some (next_msg s + 1)\<rparr>"
  using assms
  by (auto simp: new_context_def context_Init_def new_message_def accepted_context_def Let_def)

definition incoming_context ::
  "('own, 'tw, 'msg, 'd, 'svc, 'sd, 'z) core_env \<Rightarrow> 'svc \<Rightarrow> MethodDescriptor \<Rightarrow> RpcHeader \<Rightarrow> Addr \<Rightarrow>
   IncomingRpcContext" where
  "incoming_context C svc m h a =
     request_context C (GetRequestPrototype C svc m) m (get_rpc_id h) a"

text \<open>The service and the method a request header names.\<close>

definition names_method ::
  "('own, 'tw, 'msg, 'd, 'svc, 'sd, 'z) core_env \<Rightarrow> RpcHeader \<Rightarrow> 'svc \<Rightarrow> 'sd \<Rightarrow>
   MethodDescriptor \<Rightarrow> bool" where
  "names_method C h svc sd m \<longleftrightarrow>
     on_find_service C (get_service_name h) = Some svc \<and> GetDescriptor C svc = Some sd \<and>
     FindMethodByName C sd (get_method_name h) = Some m"

lemma OnRecvRequestMessage_cases:
  obtains (found) svc sd m where "names_method C h svc sd m"
  | (dropped) "\<not> (\<exists>svc sd m. names_method C h svc sd m)"
  by blast

lemma OnRecvRequestMessage_dropped:
  "\<not> (\<exists>svc sd m. names_method C h svc sd m) \<Longrightarrow> OnRecvRequestMessage C h body a s = s"
  by (auto simp: OnRecvRequestMessage_def names_method_def split: option.split)

lemma OnRecvRequestMessage_found:
  assumes "names_method C h svc sd m"
  shows "OnRecvRequestMessage C h body a s =
    (let rq = next_msg s; rp = next_msg s + 1; c = next_context s;
         t = accepted_context (NewMessage C) (incoming_context C svc m h a)
               (GetRequestPrototype C svc m) (GetResponsePrototype C svc m) s;
         (ok, msg) = ParseFromArray (sess_env C) (msgs t rq) body
     in if \<not> ok then t\<lparr>msgs := (msgs t)(rq := msg)\<rparr>
        else Service_CallMethod C svc m rq rp c
               (t\<lparr>msgs := (msgs t)(rq := msg), served := served s @ [(m, rq, rp, c)]\<rparr>))"
proof -
  let ?ctx0 = "incoming_context C svc m h a"
  obtain c s1 where c: "new_context ?ctx0 s = (c, s1)" by force
  obtain ctx s2 where ctx: "context_Init (NewMessage C) c ?ctx0 (GetRequestPrototype C svc m)
    (GetResponsePrototype C svc m) s1 = (ctx, s2)" by force
  note init = new_context_Init [OF c ctx]
  have "served s2 = served s" by (simp add: init(2) accepted_context_def Let_def)
  with assms c ctx init(1,3) show ?thesis
    unfolding Let_def init(2) [symmetric]
    by (simp add: OnRecvRequestMessage_def names_method_def incoming_context_def
        split: prod.split)
qed

lemma accepted_harmless: "harmless core s (accepted_context New ctx0 rqp rpp s)"
proof -
  let ?s' = "accepted_context New ctx0 rqp rpp s"
  have "keeps core s ?s'" if "mgr_inv core s"
    using that by (rule keeps_same_table) (simp_all add: accepted_context_def Let_def)
  moreover have "context_inv core ?s'" if J: "context_inv core s"
  proof -
    have fresh: "msg_owner s p = Some ow \<Longrightarrow> p < next_msg s" for p ow
      using J by (auto simp: context_inv_def)
    show ?thesis
      unfolding context_inv_def
    proof (intro conjI allI impI)
      fix c ctx
      assume c: "contexts ?s' c = Some ctx"
      show "c < next_context ?s'"
        using c J by (auto simp: accepted_context_def Let_def context_inv_def less_SucI split: if_splits)
      show "context_ok ?s' c ctx"
      proof (cases "c = next_context s")
        case True
        with c show ?thesis
          by (auto simp: accepted_context_def Let_def context_ok_def message_owner_def)
      next
        case False
        with c J have "context_ok s c ctx"
          by (auto simp: accepted_context_def Let_def context_inv_def)
        then show ?thesis
          using fresh by (fastforce simp: accepted_context_def Let_def context_ok_def)
      qed
    next
      fix p
      assume "msg_owner ?s' p \<noteq> None"
      then show "p < next_msg ?s'"
        using fresh by (fastforce simp: accepted_context_def Let_def split: if_splits)
    next
      fix p c
      assume "msg_owner ?s' p = Some (Arena c)"
      then show "contexts ?s' c \<noteq> None"
        using J by (auto simp: accepted_context_def Let_def context_inv_def message_owner_def
            split: if_splits option.splits)
    qed (use J in \<open>auto simp: context_inv_def accepted_context_def Let_def\<close>)
  qed
  moreover have "trace ?s' = trace s" by (simp add: accepted_context_def Let_def)
  ultimately show ?thesis by (simp add: harmless_def)
qed

section \<open>The operations\<close>

definition advances ::
  "nat \<Rightarrow> ('own, 'tw, 'msg, 'd, 'z) core \<Rightarrow> ('own, 'tw, 'msg, 'd, 'z) core \<Rightarrow> bool" where
  "advances core s s' \<longleftrightarrow>
     (core_inv core s \<longrightarrow> core_inv core s' \<and> (\<forall>X. owes X s \<longrightarrow> owes X s')) \<and>
     prefix (trace s) (trace s')"

lemma harmless_advances: "harmless core s s' \<Longrightarrow> advances core s s'"
  by (auto simp: harmless_def advances_def core_inv_def keeps_def)

lemma advances_refl [simp]: "advances core s s"
  by (simp add: advances_def)

lemma core_bits_nonzero: "drop_bit kRpcIdSeqPartBits (rid :: u64) \<noteq> 0 \<Longrightarrow> rid \<noteq> 0"
  by auto

context core_callbacks
begin

lemma OnRecvRequestMessage_harmless: "harmless core s (OnRecvRequestMessage C h body a s)"
proof (cases rule: OnRecvRequestMessage_cases [of C h])
  case (found svc sd m)
  let ?t = "accepted_context (NewMessage C) (incoming_context C svc m h a)
    (GetRequestPrototype C svc m) (GetResponsePrototype C svc m) s"
  have "harmless core ?t (?t\<lparr>msgs := ms\<rparr>)" "harmless core ?t (?t\<lparr>msgs := ms, served := v\<rparr>)" for ms v
    by (simp_all add: harmless_def keeps_same_table)
  note here = this [THEN harmless_trans [OF accepted_harmless]]
  show ?thesis
    by (simp add: OnRecvRequestMessage_found [OF found] Let_def here(1)
        harmless_trans [OF here(2) service_harmless] split: prod.split)
qed (simp add: OnRecvRequestMessage_dropped)

lemma OnRecvResponseMessage_advances:
  assumes "get_rpc_id h \<noteq> 0"
  shows "advances core s (OnRecvResponseMessage C h body a s)"
proof (cases "Result_of (get_rpc_result h)")
  case None
  then have "get_rpc_result h < 0 \<or> get_rpc_result h > kMaxResultValue"
    using Result_of_total [of "get_rpc_result h"] by auto
  then show ?thesis by (simp add: OnRecvResponseMessage_def)
next
  case (Some r)
  have "advances core s (OnRecvResponse (mgr_env_of C) sv mt (get_rpc_id h) r body s)" for sv mt
    using mgr.OnRecvResponse_keeps [of s "get_rpc_id h" sv mt r body] frame.ops_J(3) grows.ops_J(3) assms
    by (auto simp: advances_def core_inv_def keeps_but_def)
  with Some show ?thesis by (simp add: OnRecvResponseMessage_def)
qed

lemma OnRecvPacket_advances: "advances core s (snd (OnRecvPacket C buf a s))"
  using harmless_advances [OF OnRecvRequestMessage_harmless]
    OnRecvResponseMessage_advances [OF core_bits_nonzero]
  by (auto simp: OnRecvPacket_def Let_def split: option.split prod.split)

lemma OnSendPacketFailed_advances: "advances core s (snd (OnSendPacketFailed C rid s))"
proof -
  have "advances core s (OnSendRequestFailed (mgr_env_of C) rid s)" if "rid \<noteq> 0"
    using mgr.OnSendRequestFailed_keeps [of s rid] frame.ops_J(2) grows.ops_J(2) that
    by (auto simp: advances_def core_inv_def keeps_but_def)
  then show ?thesis
    by (auto simp: OnSendPacketFailed_def Let_def split: option.split)
qed

lemma OnTimer_advances:
  assumes "i < length (sess_pool s)"
  shows "advances core s (OnTimer C i s)"
  using mgr.OnSessionTimeout_keeps [of s i] frame.ops_J(4) grows.ops_J(4) assms
  by (auto simp: OnTimer_def advances_def core_inv_def keeps_but_def)

end

end
