(* ===== verification/OptionsProperties.thy ===== *)
theory OptionsProperties
  imports Options SessionAlloc
begin

text \<open>
  What the options builder guarantees: the range of the timeout, which of flag, setter and
  default wins, and how many sessions the workers' pools hold together.
\<close>

section \<open>Sequences of setter calls\<close>

datatype 'log setting =
    SetLogHandler 'log
  | SetWorkerNumber u64
  | SetWorkerQueueSize u64
  | SetMaxRpcSessions u64
  | SetDefaultRpcTimeout u64

fun apply_setting ::
  "('b, 'h, 'log) HudpOptions \<Rightarrow> 'log setting \<Rightarrow> ('b, 'h) OptionsBuilder \<Rightarrow>
   error + ('b, 'h) OptionsBuilder" where
  "apply_setting H (SetLogHandler f) = LogHandler H f"
| "apply_setting H (SetWorkerNumber n) = WorkerNumber H n"
| "apply_setting H (SetWorkerQueueSize n) = WorkerQueueSize H n"
| "apply_setting H (SetMaxRpcSessions n) = MaxRpcSessions H n"
| "apply_setting H (SetDefaultRpcTimeout n) = DefaultRpcTimeout n"

text \<open>A caller that catches the exceptions goes on with the builder as it was.\<close>

fun apply_settings ::
  "('b, 'h, 'log) HudpOptions \<Rightarrow> 'log setting list \<Rightarrow> ('b, 'h) OptionsBuilder \<Rightarrow>
   ('b, 'h) OptionsBuilder" where
  "apply_settings H [] b = b"
| "apply_settings H (x # xs) b =
     apply_settings H xs (case apply_setting H x b of Inl _ \<Rightarrow> b | Inr b' \<Rightarrow> b')"

fun timeout_of :: "'log setting \<Rightarrow> u64 \<Rightarrow> u64" where
  "timeout_of (SetDefaultRpcTimeout n) t = (if 0 < n \<and> n \<le> 2 ^ 32 - 1 then n else t)"
| "timeout_of _ t = t"

fun max_of :: "u64 \<Rightarrow> 'log setting \<Rightarrow> u64 \<Rightarrow> u64" where
  "max_of w (SetMaxRpcSessions n) m = (if w \<le> n then n else m)"
| "max_of w _ m = m"

definition timeout_ok :: "u64 \<Rightarrow> bool" where
  "timeout_ok t \<longleftrightarrow> 0 < t \<and> t \<le> 2 ^ 32 - 1"

definition flag_set :: "GFlags \<Rightarrow> string \<Rightarrow> bool" where
  "flag_set G name \<longleftrightarrow> flag_is_default G (''hrpc_'' @ name) = Some False"

named_theorems setter_defs \<open>the builder's setters\<close>

lemmas [setter_defs] = LogHandler_def WorkerNumber_def WorkerQueueSize_def MaxRpcSessions_def
  DefaultRpcTimeout_def ebind_def

lemma apply_setting_effect:
  assumes "apply_setting H x b = Inr b'"
  shows "rpc_timeout_opt (hrpc_opt b') = timeout_of x (rpc_timeout_opt (hrpc_opt b))"
    and "max_rpc_sessions (hrpc_opt b') =
      max_of (worker_num H (hudp_options (hrpc_opt b))) x (max_rpc_sessions (hrpc_opt b))"
    and "hudp_options (hrpc_opt b') = hudp_options (hrpc_opt b)"
  using assms by (cases x; auto simp: setter_defs not_less split: sum.splits if_splits)+

lemma apply_setting_throws:
  assumes "apply_setting H x b = Inl e"
  shows "timeout_of x t = t"
    and "max_of (worker_num H (hudp_options (hrpc_opt b))) x m = m"
  using assms by (cases x; auto simp: setter_defs not_less split: sum.splits if_splits)+

lemma apply_settings_effect:
  "rpc_timeout_opt (hrpc_opt (apply_settings H xs b)) =
     fold timeout_of xs (rpc_timeout_opt (hrpc_opt b)) \<and>
   max_rpc_sessions (hrpc_opt (apply_settings H xs b)) =
     fold (max_of (worker_num H (hudp_options (hrpc_opt b)))) xs (max_rpc_sessions (hrpc_opt b)) \<and>
   hudp_options (hrpc_opt (apply_settings H xs b)) = hudp_options (hrpc_opt b)"
proof (induction xs arbitrary: b)
  case (Cons x xs)
  show ?case
  proof (cases "apply_setting H x b")
    case (Inl e)
    with Cons.IH [of b] show ?thesis by (simp add: apply_setting_throws [OF Inl])
  next
    case (Inr b')
    with Cons.IH [of b'] show ?thesis by (simp add: apply_setting_effect [OF Inr])
  qed
qed simp

lemma fold_timeout_ok: "timeout_ok t \<Longrightarrow> timeout_ok (fold timeout_of xs t)"
proof (induction xs arbitrary: t)
  case (Cons x xs)
  have "timeout_ok (timeout_of x t)"
    using Cons.prems by (cases x) (auto simp: timeout_ok_def)
  with Cons.IH show ?case by simp
qed simp

lemma fold_max_ge: "w \<le> m \<Longrightarrow> w \<le> fold (max_of w) xs m"
proof (induction xs arbitrary: m)
  case (Cons x xs)
  have "w \<le> max_of w x m" using Cons.prems by (cases x) auto
  with Cons.IH show ?case by simp
qed simp

section \<open>Build\<close>

lemma override_cases:
  assumes "GFLAGS_MAY_OVERRIDE G name setter b = Inr b'"
  obtains "flag_set G name" "setter (FLAGS G (''hrpc_'' @ name)) b = Inr b'"
  | "\<not> flag_set G name" "b' = b"
  using assms by (auto simp: GFLAGS_MAY_OVERRIDE_def flag_set_def split: option.splits bool.splits)

lemma forwarded_keep_hrpc_opt:
  "WorkerNumber H n b = Inr b' \<Longrightarrow> hrpc_opt b' = hrpc_opt b"
  "WorkerQueueSize H n b = Inr b' \<Longrightarrow> hrpc_opt b' = hrpc_opt b"
  "LogHandler H f b = Inr b' \<Longrightarrow> hrpc_opt b' = hrpc_opt b"
  by (auto simp: setter_defs split: sum.splits)

lemma MaxRpcSessions_Inr:
  assumes "MaxRpcSessions H n b = Inr b'"
  shows "worker_num H (hudp_options (hrpc_opt b)) \<le> n" "max_rpc_sessions (hrpc_opt b') = n"
    "rpc_timeout_opt (hrpc_opt b') = rpc_timeout_opt (hrpc_opt b)"
  using assms by (auto simp: setter_defs not_less split: if_splits)

lemma DefaultRpcTimeout_Inr:
  assumes "DefaultRpcTimeout n b = Inr b'"
  shows "timeout_ok n" "rpc_timeout_opt (hrpc_opt b') = n"
    "max_rpc_sessions (hrpc_opt b') = max_rpc_sessions (hrpc_opt b)"
  using assms by (auto simp: setter_defs timeout_ok_def word_gt_0 not_less split: if_splits)

lemma Build_steps:
  assumes "Build H G b = (Inr opt, b')"
  obtains b2 b3 b4 h where "hrpc_opt b2 = hrpc_opt b"
    "GFLAGS_MAY_OVERRIDE G ''max_rpc_sessions'' (MaxRpcSessions H) b2 = Inr b3"
    "GFLAGS_MAY_OVERRIDE G ''default_rpc_timeout'' DefaultRpcTimeout b3 = Inr b4"
    "opt = (hrpc_opt b4)\<lparr>hudp_options := h\<rparr>" "hrpc_opt b' = opt"
proof -
  from assms obtain b4 h where b4: "override_flags G (flag_setters H) b = (None, b4)"
    and opt: "opt = (hrpc_opt b4)\<lparr>hudp_options := h\<rparr>" "hrpc_opt b' = opt"
    by (auto simp: Build_def Let_def split: prod.splits option.splits sum.splits)
  from b4 obtain b1 b2 b3 where
    o1: "GFLAGS_MAY_OVERRIDE G ''worker_num'' (WorkerNumber H) b = Inr b1"
    and o2: "GFLAGS_MAY_OVERRIDE G ''worker_queue_size'' (WorkerQueueSize H) b1 = Inr b2"
    and o: "GFLAGS_MAY_OVERRIDE G ''max_rpc_sessions'' (MaxRpcSessions H) b2 = Inr b3"
      "GFLAGS_MAY_OVERRIDE G ''default_rpc_timeout'' DefaultRpcTimeout b3 = Inr b4"
    by (auto simp: flag_setters_def split: sum.splits)
  have "hrpc_opt b1 = hrpc_opt b"
    using o1 by (rule override_cases) (simp_all add: forwarded_keep_hrpc_opt)
  moreover have "hrpc_opt b2 = hrpc_opt b1"
    using o2 by (rule override_cases) (simp_all add: forwarded_keep_hrpc_opt)
  ultimately show thesis using that [OF _ o opt] by simp
qed

lemma Build_effect:
  assumes "Build H G b = (Inr opt, b')"
  defines "v \<equiv> \<lambda>name. FLAGS G (''hrpc_'' @ name)"
  shows "rpc_timeout_opt opt =
      (if flag_set G ''default_rpc_timeout'' then v ''default_rpc_timeout''
       else rpc_timeout_opt (hrpc_opt b))"
    and "flag_set G ''default_rpc_timeout'' \<Longrightarrow> timeout_ok (v ''default_rpc_timeout'')"
    and "max_rpc_sessions opt =
      (if flag_set G ''max_rpc_sessions'' then v ''max_rpc_sessions''
       else max_rpc_sessions (hrpc_opt b))"
    and "flag_set G ''max_rpc_sessions'' \<Longrightarrow>
      worker_num H (hudp_options (hrpc_opt b)) \<le> v ''max_rpc_sessions''"
    and "hrpc_opt b' = opt"
proof -
  from assms(1) obtain b2 b3 b4 h where b2: "hrpc_opt b2 = hrpc_opt b"
    and o3: "GFLAGS_MAY_OVERRIDE G ''max_rpc_sessions'' (MaxRpcSessions H) b2 = Inr b3"
    and o4: "GFLAGS_MAY_OVERRIDE G ''default_rpc_timeout'' DefaultRpcTimeout b3 = Inr b4"
    and opt: "opt = (hrpc_opt b4)\<lparr>hudp_options := h\<rparr>" "hrpc_opt b' = opt"
    by (rule Build_steps)
  have m3: "max_rpc_sessions (hrpc_opt b3) = (if flag_set G ''max_rpc_sessions''
      then v ''max_rpc_sessions'' else max_rpc_sessions (hrpc_opt b))"
    and t3: "rpc_timeout_opt (hrpc_opt b3) = rpc_timeout_opt (hrpc_opt b)"
    and w3: "flag_set G ''max_rpc_sessions'' \<Longrightarrow>
      worker_num H (hudp_options (hrpc_opt b)) \<le> v ''max_rpc_sessions''"
    using o3 b2 MaxRpcSessions_Inr [of H "v ''max_rpc_sessions''" b2 b3]
    by (auto simp only: v_def if_True if_False elim!: override_cases)
  have m4: "max_rpc_sessions (hrpc_opt b4) = max_rpc_sessions (hrpc_opt b3)"
    and t4: "rpc_timeout_opt (hrpc_opt b4) = (if flag_set G ''default_rpc_timeout''
      then v ''default_rpc_timeout'' else rpc_timeout_opt (hrpc_opt b3))"
    and ok4: "flag_set G ''default_rpc_timeout'' \<Longrightarrow> timeout_ok (v ''default_rpc_timeout'')"
    using o4 DefaultRpcTimeout_Inr [of "v ''default_rpc_timeout''" b3 b4]
    by (auto simp only: v_def if_True if_False elim!: override_cases)
  show "rpc_timeout_opt opt = (if flag_set G ''default_rpc_timeout'' then v ''default_rpc_timeout''
       else rpc_timeout_opt (hrpc_opt b))"
    using opt(1) t4 t3 by simp
  show "max_rpc_sessions opt = (if flag_set G ''max_rpc_sessions'' then v ''max_rpc_sessions''
       else max_rpc_sessions (hrpc_opt b))"
    using opt(1) m4 m3 by simp
  show "flag_set G ''default_rpc_timeout'' \<Longrightarrow> timeout_ok (v ''default_rpc_timeout'')"
    by (rule ok4)
  show "flag_set G ''max_rpc_sessions'' \<Longrightarrow>
      worker_num H (hudp_options (hrpc_opt b)) \<le> v ''max_rpc_sessions''"
    by (rule w3)
  show "hrpc_opt b' = opt" by (rule opt(2))
qed

lemma OptionsBuilder_new_effect:
  assumes "OptionsBuilder_new H = Inr b0"
  shows "rpc_timeout_opt (hrpc_opt b0) = 2500" "max_rpc_sessions (hrpc_opt b0) = 1000000"
    "hudp_options (hrpc_opt b0) = hudp_default H" "worker_num H (hudp_default H) \<le> 1000000"
  using assms
  by (auto simp: OptionsBuilder_new_def setter_defs not_less split: if_splits)

text \<open>C32: whatever setters were called on a new builder (those that throw change nothing), if
  \<open>Build\<close> returns options then their timeout lies between 1 and 2^32 - 1 ms and is the
  value of the command-line flag if it was given, else the last value a setter accepted, else
  2500; and the number of sessions is the flag's value, else the last value accepted, else
  1000000, and never below HyperUdp's default number of workers.\<close>

theorem built_options:
  assumes "OptionsBuilder_new H = Inr b0"
    and "Build H G (apply_settings H xs b0) = (Inr opt, b')"
  shows "0 < rpc_timeout_opt opt \<and> rpc_timeout_opt opt \<le> 2 ^ 32 - 1 \<and>
    rpc_timeout_opt opt = (if flag_set G ''default_rpc_timeout''
      then FLAGS G ''hrpc_default_rpc_timeout'' else fold timeout_of xs 2500) \<and>
    max_rpc_sessions opt = (if flag_set G ''max_rpc_sessions''
      then FLAGS G ''hrpc_max_rpc_sessions''
      else fold (max_of (worker_num H (hudp_default H))) xs 1000000) \<and>
    worker_num H (hudp_default H) \<le> max_rpc_sessions opt"
  using Build_effect [OF assms(2)] OptionsBuilder_new_effect [OF assms(1)]
    apply_settings_effect [of H xs b0]
    fold_timeout_ok [of 2500 xs] fold_max_ge [of "worker_num H (hudp_default H)" 1000000 xs]
  by (simp add: timeout_ok_def split: if_splits)

definition demo_hudp :: "(u64, u64, unit) HudpOptions" where
  "demo_hudp =
     \<lparr>hudp_default = 1, worker_num = (\<lambda>h. h), hudp_builder_new = 1,
      hudp_LogHandler = (\<lambda>_ b. Inr b),
      hudp_WorkerNumber = (\<lambda>n b. if n = 0 then Inl (invalid_argument ''worker_num'') else Inr n),
      hudp_WorkerQueueSize = (\<lambda>_ b. Inr b), hudp_Build = Inr\<rparr>"

lemmas options_eval = Build_def flag_setters_def GFLAGS_MAY_OVERRIDE_def no_flags_def demo_hudp_def
  setter_defs OptionsBuilder_new_def Let_def

theorem built_options_witness:
  "\<exists>(b0 :: (u64, u64) OptionsBuilder) opt b'. OptionsBuilder_new demo_hudp = Inr b0 \<and>
     Build demo_hudp no_flags
       (apply_settings demo_hudp [SetDefaultRpcTimeout 0, SetDefaultRpcTimeout 80, SetMaxRpcSessions 0] b0)
       = (Inr opt, b') \<and>
     rpc_timeout_opt opt = 80 \<and> max_rpc_sessions opt = 1000000"
proof -
  let ?xs = "[SetDefaultRpcTimeout 0, SetDefaultRpcTimeout 80, SetMaxRpcSessions 0] :: unit setting list"
  obtain b0 where b0: "OptionsBuilder_new demo_hudp = Inr b0"
    by (simp add: options_eval)
  then obtain opt b' where "Build demo_hudp no_flags (apply_settings demo_hudp ?xs b0) = (Inr opt, b')"
    by (auto simp: options_eval)
  with b0 built_options [OF b0 this] show ?thesis
    by (intro exI [of _ b0] exI [of _ opt] exI [of _ b'])
      (simp add: flag_set_def no_flags_def demo_hudp_def)
qed

text \<open>C39: the check in \<open>MaxRpcSessions\<close> compares with the worker number HyperUdp has by
  default, not with the one set on the same builder: a value at least the default but below
  the configured number of workers is accepted and built, and every worker's pool is computed
  as 0 sessions.\<close>

theorem fewer_sessions_than_workers:
  assumes "OptionsBuilder_new H = Inr b0" and "worker_num H (hudp_default H) \<le> n"
    and "\<not> flag_set G ''max_rpc_sessions''"
    and "Build H G (apply_settings H [SetWorkerNumber w, SetMaxRpcSessions n] b0) = (Inr opt, b')"
    and "n < worker_num H (hudp_options opt)"
  shows "max_rpc_sessions opt = n \<and> CalcSessionPoolSize H opt = 0"
proof -
  have "max_rpc_sessions opt = n"
    using Build_effect(3) [OF assms(4)] assms(2,3) OptionsBuilder_new_effect [OF assms(1)]
      apply_settings_effect [of H "[SetWorkerNumber w, SetMaxRpcSessions n]" b0] by simp
  moreover from this assms(5) have "max_rpc_sessions opt div worker_num H (hudp_options opt) = 0"
    by (simp add: word_arith_nat_div word_less_nat_alt)
  ultimately show ?thesis by (simp add: CalcSessionPoolSize_def)
qed

theorem fewer_sessions_than_workers_witness:
  "\<exists>(b0 :: (u64, u64) OptionsBuilder) opt b'. OptionsBuilder_new demo_hudp = Inr b0 \<and>
     Build demo_hudp no_flags (apply_settings demo_hudp [SetWorkerNumber 4, SetMaxRpcSessions 2] b0)
       = (Inr opt, b') \<and>
     worker_num demo_hudp (hudp_options opt) = 4 \<and> max_rpc_sessions opt = 2 \<and>
     CalcSessionPoolSize demo_hudp opt = 0"
proof -
  obtain b0 where b0: "OptionsBuilder_new demo_hudp = Inr b0"
    by (simp add: options_eval)
  then obtain opt b' where bu: "Build demo_hudp no_flags
      (apply_settings demo_hudp [SetWorkerNumber 4, SetMaxRpcSessions 2] b0) = (Inr opt, b')"
    and w: "worker_num demo_hudp (hudp_options opt) = 4"
    by (auto simp: options_eval)
  have "\<not> flag_set no_flags ''max_rpc_sessions''" by (simp add: flag_set_def no_flags_def)
  from fewer_sessions_than_workers [OF b0 _ this bu] w b0 bu show ?thesis
    by (auto simp: demo_hudp_def)
qed

section \<open>The pools\<close>

lemma CalcSessionPoolSize_unat:
  assumes "max_rpc_sessions opt \<le> 2 ^ 47"
  shows "unat (CalcSessionPoolSize H opt) =
    unat (max_rpc_sessions opt) div unat (worker_num H (hudp_options opt)) * 10 div 9"
    and "CalcSessionPoolSize H opt \<le> 2 ^ 48"
proof -
  let ?q = "unat (max_rpc_sessions opt) div unat (worker_num H (hudp_options opt))"
  have "unat (max_rpc_sessions opt) \<le> 2 ^ 47" using assms by (simp add: word_le_nat_alt)
  then have q: "?q \<le> 2 ^ 47" using div_le_dividend order_trans by blast
  then have "unat (max_rpc_sessions opt div worker_num H (hudp_options opt) * 10) = ?q * 10"
    by (simp add: unat_mult_lem [THEN iffD1] unat_div)
  then show eq: "unat (CalcSessionPoolSize H opt) = ?q * 10 div 9"
    by (simp add: CalcSessionPoolSize_def unat_div)
  from q have "?q * 10 \<le> 2 ^ 47 * 10" by (rule mult_le_mono1)
  then have "?q * 10 div 9 \<le> 2 ^ 47 * 10 div 9" by (rule div_le_mono)
  then have "?q * 10 div 9 \<le> 2 ^ 48" by simp
  with eq show "CalcSessionPoolSize H opt \<le> 2 ^ 48" by (simp add: word_le_nat_alt)
qed

lemma pool_share_enough:
  fixes m w :: nat
  assumes "0 < w" and "9 * w \<le> m"
  shows "m \<le> w * (m div w * 10 div 9)"
proof -
  have "9 \<le> m div w" using assms by (simp add: less_eq_div_iff_mult_less_eq)
  then have "m div w + 1 \<le> m div w * 10 div 9" by linarith
  then have "w * (m div w + 1) \<le> w * (m div w * 10 div 9)" by (rule mult_le_mono2)
  moreover have "m < w * (m div w + 1)"
    using assms(1) by (simp add: dividend_less_times_div)
  ultimately show ?thesis by linarith
qed



end
