(* ===== verification/CoreRuns.thy ===== *)
theory CoreRuns
  imports CoreOps OptionsProperties
begin

text \<open>
  Runs of a worker. A step is one event on the worker's thread: a packet, the result of a send,
  a timer, the timer wheel moving on, a call, a service answering a context it was given, or a write to a message by user
  code. The user's code (closures, services, routing) is a \<open>UserCode\<close>: what it does when it is
  called, depending on the state it sees, as a list of calls into the worker; these re-enter the
  worker from inside the callback, to a nesting depth that is a parameter.
\<close>

section \<open>Steps\<close>

definition answerable :: "('own, 'tw, 'msg, 'd, 'z) core \<Rightarrow> nat \<Rightarrow> bool" where
  "answerable s c = (case contexts s c of None \<Rightarrow> False | Some ctx \<Rightarrow> ctx_response ctx \<noteq> None)"

lemma answerable_iff:
  "answerable s c \<longleftrightarrow> (\<exists>ctx. contexts s c = Some ctx \<and> ctx_response ctx \<noteq> None)"
  by (auto simp: answerable_def split: option.split)

lemma answerable_context: "context_inv core s \<Longrightarrow> answerable s c \<longleftrightarrow> contexts s c \<noteq> None"
  by (auto simp: answerable_def context_inv_def context_ok_def split: option.split)

inductive core_event ::
  "('own, 'tw, 'msg, 'd, 'svc, 'sd, 'z) core_env \<Rightarrow> ('own, 'tw, 'msg, 'd, 'z) core \<Rightarrow>
   ('own, 'tw, 'msg, 'd, 'z) core \<Rightarrow> bool"
  for C :: "('own, 'tw, 'msg, 'd, 'svc, 'sd, 'z) core_env" where
  event_packet: "core_event C s (snd (OnRecvPacket C buf a s))"
| event_failed: "core_event C s (snd (OnSendPacketFailed C rid s))"
| event_call: "core_event C s (CallMethod C m rq rp d s)"
| event_answer: "contexts s c \<noteq> None \<Longrightarrow> core_event C s (OnIncomingRpcDone C c r s)"
| event_write: "core_event C s (s\<lparr>msgs := ms\<rparr>)"

inductive core_step ::
  "('own, 'tw, 'msg, 'd, 'svc, 'sd, 'z) core_env \<Rightarrow> ('own, 'tw, 'msg, 'd, 'z) core \<Rightarrow>
   ('own, 'tw, 'msg, 'd, 'z) core \<Rightarrow> bool"
  for C :: "('own, 'tw, 'msg, 'd, 'svc, 'sd, 'z) core_env" where
  core_happens: "core_event C s s' \<Longrightarrow> core_step C s s'"
| core_timer: "i < length (sess_pool s) \<Longrightarrow> core_step C s (OnTimer C i s)"
| core_pass: "core_step C s (s\<lparr>timerw := tw\<rparr>)"

lemmas core_call = event_call [THEN core_happens]

text \<open>A worker object as \<open>new RpcCore\<close> makes it: no context, no message of a context.\<close>

definition blank_core :: "('own, 'tw, 'msg, 'd, 'z) core \<Rightarrow> bool" where
  "blank_core s \<longleftrightarrow> \<not> fault s \<and> \<not> core_fault s \<and> trace s = [] \<and> sent s = [] \<and> served s = [] \<and>
     contexts s = (\<lambda>_. None) \<and> msg_owner s = (\<lambda>_. None)"

inductive core_reachable ::
  "('own, 'tw, 'msg, 'd, 'svc, 'sd, 'z) core_env \<Rightarrow> nat \<Rightarrow> ('own, 'tw, 'msg, 'd, 'z) core \<Rightarrow> bool"
  for C :: "('own, 'tw, 'msg, 'd, 'svc, 'sd, 'z) core_env" and core :: nat where
  core_start: "blank_core s0 \<Longrightarrow> n \<le> 2 ^ 48 \<Longrightarrow> core < 2 ^ 16 - 1 \<Longrightarrow> rand < 2 ^ 32 \<Longrightarrow>
     Init garbage own0 rand n core (s0\<lparr>rpc_core_id := core\<rparr>) = Some s \<Longrightarrow> core_reachable C core s"
| core_next: "core_reachable C core s \<Longrightarrow> core_step C s s' \<Longrightarrow> core_reachable C core s'"

lemma core_Init_inv:
  assumes "blank_core s0" "n \<le> 2 ^ 48" "core < 2 ^ 16 - 1" "rand < 2 ^ 32"
    and I: "Init garbage own0 rand n core (s0\<lparr>rpc_core_id := core\<rparr>) = Some s"
  shows "core_inv core s" "owes {#} s" "\<forall>i<length (sess_pool s). rpc_id (sess_pool s ! i) = 0"
    "sent s = []" "served s = []" "contexts s = (\<lambda>_. None)"
proof -
  let ?s0 = "s0\<lparr>rpc_core_id := core\<rparr>"
  have "\<not> fault ?s0" "trace ?s0 = []" using assms(1) by (simp_all add: blank_core_def)
  with Init_inv [OF assms(2-4) this(1), of garbage own0] I
  show free: "\<forall>i<length (sess_pool s). rpc_id (sess_pool s ! i) = 0" and "owes {#} s"
    by (auto intro: Init_owes)
  have "context_inv core s"
    using I assms(1)
    by (auto simp: Init_def Let_def context_inv_def blank_core_def split: Option.bind_splits)
  moreover have "mgr_inv core s"
    using Init_inv [OF assms(2-4) \<open>\<not> fault ?s0\<close>, of garbage own0] I by auto
  ultimately show "core_inv core s" by (simp add: core_inv_def)
  show "sent s = []" "served s = []" "contexts s = (\<lambda>_. None)"
    using I assms(1) by (auto simp: Init_def Let_def blank_core_def split: Option.bind_splits)
qed

lemma core_Init_reachable:
  assumes "blank_core s0" "max_rpc_sessions opt \<le> 2 ^ 47" "core < 2 ^ 16 - 1" "rand < 2 ^ 32"
    and "core_Init H opt garbage own0 rand core s0 = Some s"
  shows "core_reachable C core s"
  using assms(1) CalcSessionPoolSize_unat(2) [OF assms(2)] assms(3,4) assms(5) [unfolded core_Init_def]
  by (rule core_start)

context core_callbacks
begin

lemma event_advances: "core_event C s s' \<Longrightarrow> advances core s s'"
proof (induction rule: core_event.induct)
  case (event_answer s c r)
  show ?case
  proof (cases "answerable s c")
    case True
    then show ?thesis
      using OnIncomingRpcDone_harmless by (simp add: answerable_iff harmless_advances)
  next
    case False
    with event_answer have "\<not> core_inv core s"
      using answerable_context by (auto simp: core_inv_def)
    moreover have "trace (OnIncomingRpcDone C c r s) = trace s"
      using False by (auto simp: answerable_def OnIncomingRpcDone_def raise_core_fault_def split: option.split)
    ultimately show ?thesis by (simp add: advances_def)
  qed
next
  case (event_write s ms)
  have "harmless core s (s\<lparr>msgs := ms\<rparr>)" by (simp add: harmless_def keeps_same_table)
  then show ?case by (rule harmless_advances)
qed (simp_all add: OnRecvPacket_advances OnSendPacketFailed_advances
    CallMethod_harmless harmless_advances)

lemma step_advances: "core_step C s s' \<Longrightarrow> advances core s s'"
proof (induction rule: core_step.induct)
  case (core_pass s tw)
  have "harmless core s (s\<lparr>timerw := tw\<rparr>)" by (simp add: harmless_def keeps_same_table)
  then show ?case by (rule harmless_advances)
qed (simp_all add: event_advances OnTimer_advances)

lemma reachable_core_inv: "core_reachable C core s \<Longrightarrow> core_inv core s \<and> owes {#} s"
proof (induction rule: core_reachable.induct)
  case (core_start s0 n rand garbage own0 s)
  show ?case
    using core_Init_inv(1) [OF core_start] core_Init_inv(2) [OF core_start] by (rule conjI)
next
  case (core_next s s')
  then show ?case using step_advances by (auto simp: advances_def)
qed

end

section \<open>User code\<close>

datatype ('msg, 'd) action =
    ActCall MethodDescriptor msg_ptr msg_ptr 'd
  | ActAnswer nat Result
  | ActWrite msg_ptr 'msg

text \<open>A service calls the closure of a context at most once.\<close>

fun run_action ::
  "('own, 'tw, 'msg, 'd, 'svc, 'sd, 'z) core_env \<Rightarrow> ('msg, 'd) action \<Rightarrow>
   ('own, 'tw, 'msg, 'd, 'z) core \<Rightarrow> ('own, 'tw, 'msg, 'd, 'z) core" where
  "run_action C (ActCall m rq rp d) s = CallMethod C m rq rp d s"
| "run_action C (ActAnswer c r) s = (if answerable s c then OnIncomingRpcDone C c r s else s)"
| "run_action C (ActWrite p v) s = s\<lparr>msgs := (msgs s)(p := v)\<rparr>"

record ('msg, 'd, 'svc, 's) UserCode =
  done_acts :: "'d \<Rightarrow> Result \<Rightarrow> 's \<Rightarrow> ('msg, 'd) action list"
  service_acts :: "'svc \<Rightarrow> MethodDescriptor \<Rightarrow> msg_ptr \<Rightarrow> msg_ptr \<Rightarrow> nat \<Rightarrow> 's \<Rightarrow>
    ('msg, 'd) action list"
  routing_acts :: "(string \<Rightarrow> string \<Rightarrow> 'msg \<Rightarrow> 's \<Rightarrow> bool \<times> Addr list \<times> ('msg, 'd) action list) option"

definition user_env ::
  "('own, 'tw, 'msg, 'd, 'svc, 'sd, 'z) core_env \<Rightarrow>
   ('msg, 'd, 'svc, ('own, 'tw, 'msg, 'd, 'z) core) UserCode \<Rightarrow>
   (('msg, 'd) action list \<Rightarrow> ('own, 'tw, 'msg, 'd, 'z) core \<Rightarrow> ('own, 'tw, 'msg, 'd, 'z) core) \<Rightarrow>
   ('own, 'tw, 'msg, 'd, 'svc, 'sd, 'z) core_env" where
  "user_env B U run =
     B\<lparr>sess_env := (sess_env B)\<lparr>run_done := (\<lambda>d r s. run (done_acts U d r s) s)\<rparr>,
       Service_CallMethod := (\<lambda>svc m rq rp c s. run (service_acts U svc m rq rp c s) s),
       on_send_packet := (\<lambda>pkt a ctx s. s),
       on_service_routing := map_option (\<lambda>f sv mt msg s.
         case f sv mt msg s of (ok, addrs, acts) \<Rightarrow> (ok, addrs, run acts s)) (routing_acts U)\<rparr>"

primrec nested_core ::
  "('own, 'tw, 'msg, 'd, 'svc, 'sd, 'z) core_env \<Rightarrow>
   ('msg, 'd, 'svc, ('own, 'tw, 'msg, 'd, 'z) core) UserCode \<Rightarrow> nat \<Rightarrow>
   ('own, 'tw, 'msg, 'd, 'svc, 'sd, 'z) core_env" where
  "nested_core B U 0 = user_env B U (\<lambda>acts s. s)"
| "nested_core B U (Suc n) = user_env B U (fold (run_action (nested_core B U n)))"

text \<open>Protobuf as its contract has it; the identity where the contract holds.\<close>

definition lawful_pb :: "'msg Protobuf \<Rightarrow> 'msg Protobuf" where
  "lawful_pb P = (if sizes_agree P then P
     else P\<lparr>header_Serialize := (\<lambda>h. Some (replicate (header_ByteSize P h) 0)),
            msg_Serialize := (\<lambda>m. Some (replicate (msg_ByteSize P m) 0))\<rparr>)"

definition lawful ::
  "('own, 'tw, 'msg, 'd, 'svc, 'sd, 'z) core_env \<Rightarrow> ('own, 'tw, 'msg, 'd, 'svc, 'sd, 'z) core_env" where
  "lawful B = B\<lparr>pb := lawful_pb (pb B)\<rparr>"

lemma lawful_sizes: "sizes_agree (lawful_pb P)"
  by (simp add: lawful_pb_def) (simp add: sizes_agree_def)

lemma lawful_id: "sizes_agree (pb B) \<Longrightarrow> lawful B = B"
  by (simp add: lawful_def lawful_pb_def)

context core_callbacks
begin

lemma run_action_harmless: "harmless core s (run_action C a s)"
proof (cases a)
  case (ActAnswer c r)
  then show ?thesis using OnIncomingRpcDone_harmless by (simp add: answerable_iff)
next
  case (ActWrite p v)
  then show ?thesis by (simp add: harmless_def keeps_same_table)
qed (simp add: CallMethod_harmless)

lemma run_actions_harmless: "harmless core s (fold (run_action C) acts s)"
  by (induction acts arbitrary: s) (auto intro: harmless_trans run_action_harmless)

end

lemma user_env_callbacks:
  assumes "\<And>acts s. harmless core s (run acts s)" and "sizes_agree (pb B)"
  shows "core_callbacks (user_env B U run) core"
  using assms by unfold_locales (auto simp: user_env_def split: prod.splits)

lemma nested_core_callbacks: "core_callbacks (nested_core (lawful B) U n) core"
proof (induction n)
  case 0
  show ?case by (simp, rule user_env_callbacks) (simp_all add: lawful_def lawful_sizes)
next
  case (Suc n)
  from core_callbacks.run_actions_harmless [OF this] show ?case
    by (simp, intro user_env_callbacks) (simp_all add: lawful_def lawful_sizes)
qed

interpretation user: core_callbacks "nested_core (lawful B) U n" core for B U n core
  by (rule nested_core_callbacks)

end
