(* ===== verification/CoreBehaviour.thy ===== *)
theory CoreBehaviour
  imports CoreRuns SessionBehaviour
begin

text \<open>
  What a worker does when its callbacks do not call back into it: a call sends one request
  packet, a request is answered with one response packet, a response completes the session.
\<close>

section \<open>Messages that go through\<close>

text \<open>Protobuf carries this header and this message: both fit the packet's length fields, are
  serialised to the sizes announced (the message to \<open>b\<close>), and the header parses back.\<close>

definition carries :: "'msg Protobuf \<Rightarrow> RpcHeader \<Rightarrow> 'msg \<Rightarrow> byte list \<Rightarrow> bool" where
  "carries P h m b \<longleftrightarrow>
     (\<exists>hb. header_Serialize P h = Some hb \<and> length hb = header_ByteSize P h \<and> hb \<noteq> [] \<and>
        length hb < 2 ^ 16 \<and> header_Parse P hb = Some h) \<and>
     msg_Serialize P m = Some b \<and> length b = msg_ByteSize P m \<and> length b < 2 ^ 32"

lemma carries_packet:
  assumes "carries P h m b"
  obtains pkt where "build_packet P g h m = Some pkt" "parse_packet P pkt = Some (h, b)"
proof -
  from assms obtain hb where hb: "header_Serialize P h = Some hb" "length hb = header_ByteSize P h"
    "hb \<noteq> []" "length hb < 2 ^ 16" "header_Parse P hb = Some h"
    and b: "msg_Serialize P m = Some b" "length b = msg_ByteSize P m" "length b < 2 ^ 32"
    by (auto simp: carries_def)
  from hb(3) have "0 < length hb + length b" by simp
  with build_packet_eq [OF hb(1,2) b(1,2)] parse_built [OF hb(4) b(3), of P] hb(5) that
  show thesis by simp
qed

lemma SendMessage_carried:
  assumes "carries (pb C) h m b" and "\<And>pkt a ctx t. on_send_packet C pkt a ctx t = t"
  obtains pkt where "SendMessage C h m addr ctx s = s\<lparr>sent := sent s @ [(pkt, addr, ctx)]\<rparr>"
    "parse_packet (pb C) pkt = Some (h, b)"
proof -
  from assms(1) obtain pkt where "build_packet (pb C) (stack_garbage C) h m = Some pkt"
    "parse_packet (pb C) pkt = Some (h, b)" by (rule carries_packet)
  with assms(2) that show thesis by (simp add: SendMessage_def)
qed

lemma user_env_simps [simp]:
  "pb (user_env B U run) = pb B" "workers (user_env B U run) = workers B"
  "on_send_packet (user_env B U run) pkt a ctx s = s"
  "Service_CallMethod (user_env B U run) svc m rq rp c s = run (service_acts U svc m rq rp c s) s"
  "stack_garbage (user_env B U run) = stack_garbage B"
  "NewMessage (user_env B U run) = NewMessage B"
  "ParseFromArray (sess_env (user_env B U run)) = ParseFromArray (sess_env B)"
  "CancelTimer (sess_env (user_env B U run)) = CancelTimer (sess_env B)"
  "GetRequestPrototype (user_env B U run) = GetRequestPrototype B"
  "GetResponsePrototype (user_env B U run) = GetResponsePrototype B"
  "names_method (user_env B U run) = names_method B"
  "request_context (user_env B U run) = request_context B"
  "incoming_context (user_env B U run) = incoming_context B"
  by (simp_all add: user_env_def names_method_def request_context_def incoming_context_def fun_eq_iff)

section \<open>The client's call\<close>

abbreviation "idle_env B U \<equiv> user_env B U (\<lambda>acts s. s)"

lemma idle_mgr_env:
  fixes B :: "('own, 'tw, 'msg, 'd, 'svc, 'sd, 'z) core_env"
    and U :: "('msg, 'd, 'svc, ('own, 'tw, 'msg, 'd, 'z) core) UserCode"
  defines "E \<equiv> mgr_env_of (idle_env B U)"
  shows "OnRecvResponse E = OnRecvResponse (quiet (sess_env B))"
    "OnSessionTimeout E = OnSessionTimeout (quiet (sess_env B))"
proof -
  have invoke: "invoke_done E = invoke_done (quiet (sess_env B))"
    by (intro ext) (simp add: E_def mgr_env_of_def user_env_def invoke_done_def quiet_def)
  have call: "node_call_done E = node_call_done (quiet (sess_env B))"
    by (intro ext) (simp only: node_call_done_def invoke)
  have timer: "CancelTimer E = CancelTimer (quiet (sess_env B))"
    "ParseFromArray E = ParseFromArray (quiet (sess_env B))"
    by (simp_all add: E_def mgr_env_of_def user_env_def quiet_def)
  have cancel: "node_cancel_timer E = node_cancel_timer (quiet (sess_env B))"
    by (intro ext) (simp only: node_cancel_timer_def timer)
  show "OnRecvResponse E = OnRecvResponse (quiet (sess_env B))"
    by (intro ext) (simp only: OnRecvResponse_def call cancel timer)
  show "OnSessionTimeout E = OnSessionTimeout (quiet (sess_env B))"
    by (intro ext) (simp only: OnSessionTimeout_def call)
qed

lemma client_call:
  assumes inv: "mgr_inv k s" and free: "i0 < length (sess_pool s)" "rpc_id (sess_pool s ! i0) = 0"
    and route: "routing_acts U = Some f"
      "f (service_name m) (method_name m) (msgs s rq) s = (True, a # as, acts)"
    and len: "length as < 65536"
    and carry: "\<And>rid. carries (pb B) (request_header m rid) (msgs s rq) b"
  obtains i rid l tw own pkt where "i < length (sess_pool s)" "rpc_id (sess_pool s ! i) = 0"
    "core_part rid = Suc k" "ring_slot (pool_size_order s) rid = i" "el_wf l" "el_list l = a # as"
    "parse_packet (pb B) pkt = Some (request_header m rid, b)"
    "CallMethod (idle_env B U) m rq rp d s =
      s\<lparr>next_rpc_id := rid, timerw := tw,
        sess_pool := (sess_pool s)[i := filled m rq rp l d rid own (sess_pool s ! i)],
        trace := trace s @ [EvAdd d (Suc (length as)), EvSend m rq rid a],
        sent := sent s @ [(pkt, a, rid)]\<rparr>"
    "build_packet (pb B) (stack_garbage B) (request_header m rid) (msgs s rq) = Some pkt"
proof -
  let ?C = "idle_env B U"
  have "AddEndpoint = PushBack" by (intro ext) (simp add: AddEndpoint_def)
  with el.build [of "a # as"] obtain eps where eps: "mfold AddEndpoint EndpointList_init (a # as) = Some eps"
    "el_wf eps" "el_list eps = a # as" "el_size eps = Suc (length as)" by auto
  have res: "resolve_endpoints ?C m rq s = (Some eps, s)"
    using route eps by (simp add: resolve_endpoints_def user_env_def el_empty_def)
  have sz: "0 < el_size eps" "el_size eps \<le> 65536" using eps(4) len by simp_all
  from inv eps(2) sz free obtain i rid l tw own where a: "i < length (sess_pool s)"
    "rpc_id (sess_pool s ! i) = 0" "core_part rid = Suc k" "ring_slot (pool_size_order s) rid = i"
    "el_wf l" "el_list l = el_list eps"
    "AddSession (mgr_env_of ?C) m rq rp eps d s =
      (True, on_send_request (mgr_env_of ?C) m rq rid (el_list eps ! 0)
        (s\<lparr>next_rpc_id := rid, timerw := tw,
          sess_pool := (sess_pool s)[i := filled m rq rp l d rid own (sess_pool s ! i)],
          trace := trace s @ [EvAdd d (el_size eps), EvSend m rq rid (el_list eps ! 0)]\<rparr>))"
    by (rule AddSession_run)
  let ?u = "s\<lparr>next_rpc_id := rid, timerw := tw,
    sess_pool := (sess_pool s)[i := filled m rq rp l d rid own (sess_pool s ! i)],
    trace := trace s @ [EvAdd d (Suc (length as)), EvSend m rq rid a]\<rparr>"
  obtain pkt where built: "build_packet (pb B) (stack_garbage B) (request_header m rid) (msgs s rq) = Some pkt"
    "parse_packet (pb B) pkt = Some (request_header m rid, b)" using carry by (rule carries_packet)
  then have pkt: "SendMessage ?C (request_header m rid) (msgs s rq) a rid ?u = ?u\<lparr>sent := sent s @ [(pkt, a, rid)]\<rparr>"
    by (simp add: SendMessage_def)
  have "CallMethod ?C m rq rp d s = ?u\<lparr>sent := sent s @ [(pkt, a, rid)]\<rparr>"
    using res a(7) pkt eps(3,4) by (simp add: CallMethod_def mgr_env_of_def OnOutgoingRpcSend_def)
  with a built eps(3) show thesis by (intro that [of i rid l pkt own tw]) simp_all
qed

text \<open>A send that fails: the same packet to the next endpoint.\<close>

lemma resend:
  assumes inv: "mgr_inv k s" and n: "live_at s i n"
    and more: "unat (endpoint_index n + 1) < el_size (endpoint_list n)"
    and pkt: "build_packet (pb B) (stack_garbage B) (request_header (node_method n) (rpc_id n)) (msgs s (node_request n)) = Some pkt"
  shows "OnSendRequestFailed (mgr_env_of (idle_env B U)) (rpc_id n) s =
    (let a = el_list (endpoint_list n) ! unat (endpoint_index n + 1) in
     s\<lparr>sess_pool := (sess_pool s)[i := n\<lparr>endpoint_index := endpoint_index n + 1\<rparr>],
       trace := trace s @ [EvSend (node_method n) (node_request n) (rpc_id n) a],
       sent := sent s @ [(pkt, a, rpc_id n)]\<rparr>)"
proof -
  note f = live_find [OF inv n]
  let ?E = "mgr_env_of (idle_env B U)" and ?n = "n\<lparr>endpoint_index := endpoint_index n + 1\<rparr>"
  let ?s = "s\<lparr>sess_pool := (sess_pool s)[i := ?n]\<rparr>" and ?a = "el_list (endpoint_list n) ! unat (endpoint_index n + 1)"
  have "node_send ?E i (unat (endpoint_index n + 1)) ?s =
      ?s\<lparr>trace := trace s @ [EvSend (node_method n) (node_request n) (rpc_id n) ?a], sent := sent s @ [(pkt, ?a, rpc_id n)]\<rparr>"
    using f(2) n more pkt by (subst node_send_in [of i ?s ?n])
      (simp_all add: live_at_def node_ok_def Let_def mgr_env_of_def OnOutgoingRpcSend_def SendMessage_def)
  with f n more show ?thesis
    by (simp add: OnSendRequestFailed_def Let_def update_node_in live_at_def)
qed


section \<open>The server's answer\<close>

text \<open>A service that writes a response and answers before it returns, when it is called with the request
  \<open>req\<close> and the empty response \<open>out\<close>.\<close>

definition replies ::
  "('msg, 'd, 'svc, ('own, 'tw, 'msg, 'd, 'z) core) UserCode \<Rightarrow> 'svc \<Rightarrow> MethodDescriptor \<Rightarrow> 'msg \<Rightarrow>
   'msg \<Rightarrow> 'msg \<Rightarrow> Result \<Rightarrow> bool" where
  "replies U svc m out req resp r \<longleftrightarrow>
     (\<forall>q p c st. msgs st q = req \<longrightarrow> msgs st p = out \<longrightarrow>
        service_acts U svc m q p c st = [ActWrite p resp, ActAnswer c r])"

definition reply_header :: "MethodDescriptor \<Rightarrow> u64 \<Rightarrow> Result \<Rightarrow> RpcHeader" where
  "reply_header m rid r =
     \<lparr>hdr_packet_type = Some RESPONSE, hdr_service_name = Some (service_name m),
      hdr_method_name = Some (method_name m), hdr_rpc_id = Some rid,
      hdr_rpc_result = Some (of_int (Result_value r))\<rparr>"

lemma incoming_context_simps [simp]:
  "ctx_method (incoming_context B svc m h a) = m"
  "ctx_rpc_id (incoming_context B svc m h a) = get_rpc_id h"
  "ctx_addr (incoming_context B svc m h a) = a"
  by (simp_all add: incoming_context_def request_context_def IncomingRpcContext_init_def
      ArenaIncomingRpcContext_init_def)

lemma accepted_simps [simp]:
  "contexts (accepted_context New ctx0 q p t) = (contexts t)(next_context t \<mapsto>
     ctx0\<lparr>ctx_request := Some (next_msg t), ctx_response := Some (next_msg t + 1)\<rparr>)"
  "msgs (accepted_context New ctx0 q p t) =
     (msgs t)(next_msg t := New q, next_msg t + 1 := New p)"
  "sent (accepted_context New ctx0 q p t) = sent t"
  "served (accepted_context New ctx0 q p t) = served t"
  "trace (accepted_context New ctx0 q p t) = trace t"
  "sess_pool (accepted_context New ctx0 q p t) = sess_pool t"
  "core_fault (accepted_context New ctx0 q p t) = core_fault t"
  by (simp_all add: accepted_context_def Let_def)

lemma delete_context_simps [simp]:
  "contexts (delete_context c t) = (contexts t)(c := None)"
  "sent (delete_context c t) = sent t" "served (delete_context c t) = served t"
  "trace (delete_context c t) = trace t" "sess_pool (delete_context c t) = sess_pool t"
  "core_fault (delete_context c t) = core_fault t" "msgs (delete_context c t) = msgs t"
  "msg_owner (delete_context c t) =
     (\<lambda>p. if msg_owner t p = Some (Arena c) then None else msg_owner t p)"
  by (simp_all add: delete_context_def)

lemma OnIncomingRpcDone_carried:
  assumes "contexts s c = Some ctx" "ctx_response ctx = Some p"
    and "carries (pb C) (reply_header (ctx_method ctx) (ctx_rpc_id ctx) r) (msgs s p) vb"
    and "\<And>pkt a x t. on_send_packet C pkt a x t = t"
  obtains rpkt where
    "OnIncomingRpcDone C c r s = delete_context c (s\<lparr>sent := sent s @ [(rpkt, ctx_addr ctx, 0)]\<rparr>)"
    "parse_packet (pb C) rpkt = Some (reply_header (ctx_method ctx) (ctx_rpc_id ctx) r, vb)"
proof -
  have head: "response_header ctx r = reply_header (ctx_method ctx) (ctx_rpc_id ctx) r"
    by (simp add: response_header_def reply_header_def)
  obtain rpkt where "SendMessage C (reply_header (ctx_method ctx) (ctx_rpc_id ctx) r) (msgs s p)
      (ctx_addr ctx) 0 s = s\<lparr>sent := sent s @ [(rpkt, ctx_addr ctx, 0)]\<rparr>"
    "parse_packet (pb C) rpkt = Some (reply_header (ctx_method ctx) (ctx_rpc_id ctx) r, vb)"
    using assms(3,4) by (rule SendMessage_carried)
  with assms(1,2) that show thesis by (simp add: OnIncomingRpcDone_def head)
qed

lemma delete_accepted_owner:
  assumes "\<And>p. msg_owner t p \<noteq> Some (Arena (next_context t))"
    and "\<And>p. msg_owner t p \<noteq> None \<Longrightarrow> p < next_msg t"
  shows "(\<lambda>p. if msg_owner (accepted_context New (incoming_context B svc m h a) rqp rpp t) p =
        Some (Arena (next_context t)) then None
      else msg_owner (accepted_context New (incoming_context B svc m h a) rqp rpp t) p) =
    (if cc_enable_arenas B (GetRequestPrototype B svc m) then msg_owner t
     else (msg_owner t)(next_msg t \<mapsto> Heap, Suc (next_msg t) \<mapsto> Heap))"
proof -
  have "msg_owner t (next_msg t) = None" "msg_owner t (Suc (next_msg t)) = None"
    using assms(2) by fastforce+
  with assms(1) show ?thesis
    by (auto simp: fun_eq_iff accepted_context_def Let_def incoming_context_def request_context_def
        message_owner_def IncomingRpcContext_init_def ArenaIncomingRpcContext_init_def
        BuildArenaOptions_def)
qed

lemma server_answer:
  assumes inv: "context_inv j t"
    and p: "parse_packet (pb B) pkt = Some (h, qb)" "get_packet_type h = REQUEST"
    and svc: "names_method B h svc sd m"
    and req: "ParseFromArray (sess_env B) (NewMessage B (GetRequestPrototype B svc m)) qb = (True, req)"
    and reply: "replies U svc m (NewMessage B (GetResponsePrototype B svc m)) req resp r"
    and carry: "carries (pb B) (reply_header m (get_rpc_id h) r) resp vb"
  obtains t' rpkt where "OnRecvPacket (nested_core B U 1) pkt addr t = (0, t')"
    "sent t' = sent t @ [(rpkt, addr, 0)]"
    "parse_packet (pb B) rpkt = Some (reply_header m (get_rpc_id h) r, vb)"
    "served t' = served t @ [(m, next_msg t, next_msg t + 1, next_context t)]"
    "contexts t' = contexts t" "core_fault t' = core_fault t" "sess_pool t' = sess_pool t"
    "trace t' = trace t"
    "msg_owner t' = (if cc_enable_arenas B (GetRequestPrototype B svc m) then msg_owner t
       else (msg_owner t)(next_msg t \<mapsto> Heap, next_msg t + 1 \<mapsto> Heap))"
proof -
  let ?q = "next_msg t" and ?p = "Suc (next_msg t)" and ?c = "next_context t"
  define acc where "acc = accepted_context (NewMessage B) (incoming_context B svc m h addr)
    (GetRequestPrototype B svc m) (GetResponsePrototype B svc m) t"
  define t1 where "t1 = acc\<lparr>msgs := (msgs acc)(?q := req), served := served t @ [(m, ?q, ?p, ?c)]\<rparr>"
  define t2 where "t2 = t1\<lparr>msgs := (msgs t1)(?p := resp)\<rparr>"
  let ?ctx = "(incoming_context B svc m h addr)\<lparr>ctx_request := Some ?q, ctx_response := Some ?p\<rparr>"
  have ctx: "contexts t2 ?c = Some ?ctx" by (simp add: t2_def t1_def acc_def)
  have resp: "msgs t2 ?p = resp" by (simp add: t2_def)
  from ctx obtain rpkt where rp: "OnIncomingRpcDone (idle_env B U) ?c r t2 =
      delete_context ?c (t2\<lparr>sent := sent t2 @ [(rpkt, addr, 0)]\<rparr>)"
    "parse_packet (pb B) rpkt = Some (reply_header m (get_rpc_id h) r, vb)"
    by (rule OnIncomingRpcDone_carried [where p = ?p and vb = vb and C = "idle_env B U" and r = r])
      (simp_all add: resp carry)
  have "service_acts U svc m ?q ?p ?c t1 = [ActWrite ?p resp, ActAnswer ?c r]"
    using reply by (simp add: replies_def t1_def acc_def)
  moreover have "answerable t2 ?c" using ctx by (simp add: answerable_def)
  ultimately have run: "fold (run_action (idle_env B U)) (service_acts U svc m ?q ?p ?c t1) t1 =
      delete_context ?c (t2\<lparr>sent := sent t2 @ [(rpkt, addr, 0)]\<rparr>)" (is "_ = ?t'")
    using rp(1) by (simp add: t2_def [symmetric])
  have "msgs acc ?q = NewMessage B (GetRequestPrototype B svc m)" by (simp add: acc_def)
  with svc req have "OnRecvRequestMessage (nested_core B U 1) h qb addr t = ?t'"
    by (simp add: OnRecvRequestMessage_found [where svc = svc and sd = sd and m = m] Let_def
        acc_def [symmetric] t1_def [symmetric] run [simplified])
  moreover have "msg_owner t p \<noteq> Some (Arena ?c)" "msg_owner t p \<noteq> None \<Longrightarrow> p < next_msg t" for p
    using inv by (force simp: context_inv_def)+
  note owners = delete_accepted_owner [OF this, where B = B and svc = svc and m = m and h = h and a = addr
      and rqp = "GetRequestPrototype B svc m" and rpp = "GetResponsePrototype B svc m"]
  have "contexts t ?c = None"
    using inv by (cases "contexts t ?c") (auto simp: context_inv_def)
  then have "(contexts t)(?c := None) = contexts t" by auto
  moreover have "msg_owner ?t' = (if cc_enable_arenas B (GetRequestPrototype B svc m) then msg_owner t
       else (msg_owner t)(next_msg t \<mapsto> Heap, next_msg t + 1 \<mapsto> Heap))"
  proof -
    have own: "msg_owner (t2\<lparr>sent := x\<rparr>) = msg_owner acc" for x by (simp add: t2_def t1_def)
    show ?thesis
      unfolding delete_context_simps own acc_def using owners [of "NewMessage B"] by simp
  qed
  ultimately show thesis
    using p rp(2)
    by (intro that [of ?t' rpkt]) (simp_all add: OnRecvPacket_def t2_def t1_def acc_def)
qed

section \<open>The worker an id belongs to\<close>

lemma core_part_worker:
  assumes "core_part rid = Suc k"
  shows "drop_bit kRpcIdSeqPartBits rid \<noteq> 0"
    and "drop_bit kRpcIdSeqPartBits rid > w \<longleftrightarrow> unat w \<le> k"
    and "unat (drop_bit kRpcIdSeqPartBits rid - 1) = k"
proof -
  have u: "unat (drop_bit kRpcIdSeqPartBits rid) = Suc k"
    using assms by (simp add: core_part_def)
  then show nz: "drop_bit kRpcIdSeqPartBits rid \<noteq> 0" by auto
  show "drop_bit kRpcIdSeqPartBits rid > w \<longleftrightarrow> unat w \<le> k"
    using u by (auto simp: word_less_nat_alt)
  show "unat (drop_bit kRpcIdSeqPartBits rid - 1) = k"
    using u nz by (simp add: unat_minus_one)
qed

text \<open>\<open>j\<close> sends that fail, one after the other.\<close>

lemma failed_sends:
  assumes inv: "mgr_inv k s" and id: "rpc_core_id s = k" "k < unat (workers B)"
    and n: "live_at s i n" "endpoint_index n = 0" "el_size (endpoint_list n) \<le> 65536"
    and pkt: "build_packet (pb B) (stack_garbage B) (request_header (node_method n) (rpc_id n)) (msgs s (node_request n)) = Some pkt"
    and j: "j < el_size (endpoint_list n)"
  shows "((\<lambda>x. snd (OnSendPacketFailed (idle_env B U) (rpc_id n) x)) ^^ j) s =
    (let tried = take j (tl (el_list (endpoint_list n))) in
     s\<lparr>sess_pool := (sess_pool s)[i := n\<lparr>endpoint_index := of_nat j\<rparr>],
       trace := trace s @ map (EvSend (node_method n) (node_request n) (rpc_id n)) tried,
       sent := sent s @ map (\<lambda>a. (pkt, a, rpc_id n)) tried\<rparr>)"
  using j
proof (induction j)
  case 0
  have "n\<lparr>endpoint_index := 0\<rparr> = n" using n(2) by (cases n) simp
  moreover have "(sess_pool s)[i := n] = sess_pool s" using n(1) by (auto simp: live_at_def)
  ultimately show ?case by simp
next
  case (Suc j)
  have ok: "node_ok k (pool_size_order s) i n" "core_part (rpc_id n) = Suc k" "rpc_id n \<noteq> 0"
    using live_find(2) [OF inv n(1)] n(1) by (simp_all add: node_ok_def live_at_def)
  let ?as = "el_list (endpoint_list n)" and ?n = "n\<lparr>endpoint_index := of_nat j\<rparr>"
  let ?s = "s\<lparr>sess_pool := (sess_pool s)[i := ?n],
    trace := trace s @ map (EvSend (node_method n) (node_request n) (rpc_id n)) (take j (tl ?as)),
    sent := sent s @ map (\<lambda>a. (pkt, a, rpc_id n)) (take j (tl ?as))\<rparr>"
  have len: "length ?as = el_size (endpoint_list n)" using ok(1) by (simp add: node_ok_def)
  have "mgr_inv k (s\<lparr>sess_pool := (sess_pool s)[i := ?n]\<rparr>)"
    using inv n(1) ok(1) by (intro mgr_inv_update) (auto simp: live_at_def node_ok_def)
  then have inv': "mgr_inv k ?s"
    by (simp add: mgr_inv_def geometry_ok_def)
  have n': "live_at ?s i ?n" using n(1) by (auto simp: live_at_def)
  have w: "of_nat j + 1 = (of_nat (Suc j) :: u16)" "unat (of_nat (Suc j) :: u16) = Suc j"
    using Suc.prems n(3) by (simp, simp only: unat_of_nat) simp
  have step: "snd (OnSendPacketFailed (idle_env B U) (rpc_id n) ?s) = OnSendRequestFailed (mgr_env_of (idle_env B U)) (rpc_id n) ?s"
    using ok(2,3) core_part_worker [OF ok(2)] id by (simp add: OnSendPacketFailed_def GetCoreIdFromRpcId_def Let_def)
  have "take (Suc j) (tl ?as) = take j (tl ?as) @ [?as ! Suc j]"
    using Suc.prems by (simp add: take_Suc_conv_app_nth nth_tl len)
  with Suc resend [OF inv' n', of B pkt U] pkt w step show ?case
    by (simp add: Let_def)
qed

lemma get_reply [simp]:
  "get_packet_type (reply_header m rid r) = RESPONSE"
  "get_service_name (reply_header m rid r) = service_name m"
  "get_method_name (reply_header m rid r) = method_name m"
  "get_rpc_id (reply_header m rid r) = rid"
  "get_rpc_result (reply_header m rid r) = Result_value r"
  by (simp_all add: reply_header_def) (cases r; simp)

lemma OnRecvPacket_response:
  assumes "parse_packet (pb C) buf = Some (h, body)" and "get_packet_type h = RESPONSE"
    and "core_part (get_rpc_id h) = Suc k" and "k < unat (workers C)"
  shows "OnRecvPacket C buf a s =
    (if rpc_core_id s = k then (0, OnRecvResponseMessage C h body a s) else (k, s))"
  using assms core_part_worker [OF assms(3)] by (simp add: OnRecvPacket_def Let_def)

lemma OnRecvResponseMessage_reply:
  "OnRecvResponseMessage C (reply_header m rid r) body a s =
   OnRecvResponse (mgr_env_of C) (service_name m) (method_name m) rid r body s"
  using Result_of_total [of "Result_value r"] by (simp add: OnRecvResponseMessage_def not_less)

lemma client_response:
  assumes inv: "mgr_inv k s" and id: "rpc_core_id s = k" "k < unat (workers B)"
    and n: "live_at s i n" "node_done n = Some d"
    and m: "service_name m' = service_name (node_method n)" "method_name m' = method_name (node_method n)"
    and p: "parse_packet (pb B) rpkt = Some (reply_header m' (rpc_id n) r, vb)"
    and resp: "ParseFromArray (sess_env B) (msgs s (node_response n)) vb = (True, v)"
  shows "OnRecvPacket (idle_env B U) rpkt a s = (0,
    s\<lparr>msgs := (msgs s)(node_response n := v), trace := trace s @ [EvDone d r],
      timerw := fst (cancelled (sess_env B) i s),
      sess_pool := (sess_pool s)[i := freed (snd (cancelled (sess_env B) i s)) n]\<rparr>)"
proof -
  have "core_part (rpc_id n) = Suc k"
    using live_find(2) [OF inv n(1)] by (simp add: node_ok_def)
  then show ?thesis
    using OnRecvPacket_response [of "idle_env B U" rpkt "reply_header m' (rpc_id n) r" vb k a s] p id
      response_matched [OF inv n resp, of r]
    by (simp add: OnRecvResponseMessage_reply idle_mgr_env m)
qed

end
