(* ===== verification/CoreProperties.thy ===== *)
theory CoreProperties
  imports CoreBehaviour SessionProperties
begin

text \<open>
  The properties of a worker, and a small instance on which their hypotheses are met.
\<close>

section \<open>A concrete instance\<close>

type_synonym 'd demo_core_of = "(bool, nat list, byte list, 'd) RpcCore"
type_synonym demo_core = "nat demo_core_of"

definition id_bytes :: "u64 \<Rightarrow> byte list" where
  "id_bytes rid = mem32 (ucast rid) @ mem32 (ucast (drop_bit 32 rid))"

fun parse_header :: "MethodDescriptor \<Rightarrow> byte list \<Rightarrow> RpcHeader option" where
  "parse_header meth [t, a, b, c, d, e, f, g, h] =
     (let rid = ucast (load32 a b c d) OR push_bit 32 (ucast (load32 e f g h)) in
      Some (if t = 1 then request_header meth rid
            else reply_header meth rid kSuccess))"
| "parse_header meth _ = None"

text \<open>A protobuf that carries the requests and successful replies of one method. Any other header
  becomes empty bytes, which do not parse.\<close>

definition carried_header :: "MethodDescriptor \<Rightarrow> RpcHeader \<Rightarrow> bool" where
  "carried_header meth h \<longleftrightarrow> h = request_header meth (get_rpc_id h) \<or> h = reply_header meth (get_rpc_id h) kSuccess"

definition one_method_pb :: "MethodDescriptor \<Rightarrow> ('msg \<Rightarrow> byte list) \<Rightarrow> 'msg Protobuf" where
  "one_method_pb meth encode = \<lparr>header_ByteSize = (\<lambda>h. if carried_header meth h then 9 else 0),
     header_Serialize = (\<lambda>h. Some (if carried_header meth h
       then (if get_packet_type h = REQUEST then 1 else 2) # id_bytes (get_rpc_id h) else [])),
     header_Parse = parse_header meth, msg_ByteSize = (\<lambda>m. length (encode m)), msg_Serialize = (\<lambda>m. Some (encode m))\<rparr>"

abbreviation demo_rpc_pb :: "byte list Protobuf" where
  "demo_rpc_pb \<equiv> one_method_pb demo_method (\<lambda>b. b)"

lemma carried_header_simps [simp]:
  "carried_header meth (request_header meth rid)" "carried_header meth (reply_header meth rid kSuccess)"
  by (simp_all add: carried_header_def request_header_def)

lemma id_bytes_load:
  "ucast (ucast rid :: u32) OR push_bit 32 (ucast (ucast (drop_bit 32 rid) :: u32)) = (rid :: u64)"
  by (rule bit_word_eqI) (auto simp: bit_simps)

lemma parse_header_bytes:
  "parse_header meth (t # id_bytes rid) = Some (if t = 1 then request_header meth rid
     else reply_header meth rid kSuccess)"
  by (simp add: id_bytes_def mem32_def load32_mem id_bytes_load Let_def)

lemma length_id_bytes: "length (id_bytes rid) = 8"
  by (simp add: id_bytes_def mem32_def)

lemma one_method_sizes [simp]: "sizes_agree (one_method_pb meth encode)"
  by (simp add: sizes_agree_def one_method_pb_def length_id_bytes)

lemma one_method_carries:
  "length (encode m) < 2 ^ 32 \<Longrightarrow> carries (one_method_pb meth encode) (request_header meth rid) m (encode m)"
  "length (encode m) < 2 ^ 32 \<Longrightarrow> carries (one_method_pb meth encode) (reply_header meth rid kSuccess) m (encode m)"
  by (simp_all add: carries_def one_method_pb_def length_id_bytes parse_header_bytes)
    (simp add: request_header_def)+

definition demo_base_of :: "bool \<Rightarrow> (bool, nat list, byte list, 'd, unit, unit, unit) core_env" where
  "demo_base_of arenas = \<lparr>sess_env =
       \<lparr>default_rpc_timeout = 2500, has_timer = (\<lambda>own. own),
        AddTimer = (\<lambda>tw ms i own. (tw @ [i], True)), ResetTimer = (\<lambda>tw own ms. (tw, True)),
        CancelTimer = (\<lambda>tw own. (tw, False)), ParseFromArray = (\<lambda>m b. (b \<noteq> [], b)),
        run_done = (\<lambda>d r s. s), on_send_request = (\<lambda>m rq rid a s. s)\<rparr>,
     workers = 4, pb = demo_rpc_pb, stack_garbage = (\<lambda>_. 0), NewMessage = (\<lambda>_. []),
     cc_enable_arenas = (\<lambda>_. arenas), GetDescriptor = Some,
     FindMethodByName = (\<lambda>_ n. if n = ''Query'' then Some demo_method else None),
     GetRequestPrototype = (\<lambda>_ _. []), GetResponsePrototype = (\<lambda>_ _. []),
     Service_CallMethod = (\<lambda>_ _ _ _ _ s. s), on_send_packet = (\<lambda>_ _ _ s. s),
     on_find_service = (\<lambda>n. if n = ''TestService'' then Some () else None),
     on_service_routing = None\<rparr>"

definition demo_user_of :: "(byte list, 'd, unit, 'd demo_core_of) UserCode" where
  "demo_user_of = \<lparr>done_acts = (\<lambda>_ _ _. []),
     service_acts = (\<lambda>svc m q p c s. [ActWrite p [9], ActAnswer c kSuccess]),
     routing_acts = Some (\<lambda>_ _ _ _. (True, [(1, 1), (2, 2)], []))\<rparr>"

abbreviation "demo_base \<equiv>
  demo_base_of :: bool \<Rightarrow> (bool, nat list, byte list, nat, unit, unit, unit) core_env"
abbreviation "demo_user \<equiv> demo_user_of :: (byte list, nat, unit, demo_core) UserCode"

lemma demo_sizes: "sizes_agree (pb (demo_base_of b))"
  by (simp add: demo_base_of_def)

lemma demo_carries:
  "length b < 2 ^ 32 \<Longrightarrow> carries demo_rpc_pb (request_header demo_method rid) b b"
  "length b < 2 ^ 32 \<Longrightarrow> carries demo_rpc_pb (reply_header demo_method rid kSuccess) b b"
  by (rule one_method_carries; simp)+

definition demo_blank_core_of :: "'d demo_core_of" where
  "demo_blank_core_of = \<lparr>pool_size_order = 0, pool_size_mask = 0, sess_pool = [], next_rpc_id = 0,
     timerw = [], msgs = (\<lambda>_. [1]), trace = [], fault = False, contexts = (\<lambda>_. None),
     next_context = 0, msg_owner = (\<lambda>_. None), next_msg = 100, rpc_core_id = 0, sent = [],
     served = [], core_fault = False\<rparr>"

abbreviation "demo_blank_core \<equiv> demo_blank_core_of :: demo_core"

lemma demo_core_start:
  assumes "k < 4"
  shows "\<exists>s. core_reachable (C :: (bool, nat list, byte list, 'd, unit, unit, unit) core_env) k s \<and>
    core_inv k s \<and> owes {#} s \<and> trace s = [] \<and> sent s = [] \<and> served s = [] \<and> contexts s = (\<lambda>_. None) \<and>
    0 < length (sess_pool s) \<and> msgs s = (\<lambda>_. [1]) \<and> (\<forall>i<length (sess_pool s). rpc_id (sess_pool s ! i) = 0)"
proof -
  have blank: "blank_core (demo_blank_core_of :: 'd demo_core_of)" by (simp add: blank_core_def demo_blank_core_of_def)
  have k: "k < 2 ^ 16 - 1" using assms by simp
  let ?s0 = "demo_blank_core_of\<lparr>rpc_core_id := k\<rparr> :: 'd demo_core_of"
  obtain s where s: "Init undefined False 0 2 k ?s0 = Some s" "2 \<le> length (sess_pool s)"
    using Init_inv [of 2 k 0 ?s0 undefined False] k by (auto simp: demo_blank_core_of_def)
  have "msgs s = (\<lambda>_. [1])"
    using s(1) by (auto simp: Init_def Let_def demo_blank_core_of_def split: Option.bind_splits)
  with core_start [OF blank _ k _ s(1), of C] core_Init_inv [OF blank _ k _ s(1)] Init_trace [OF s(1)] s(2)
  show ?thesis
    by (intro exI [of _ s]) (auto simp: demo_blank_core_of_def)
qed

section \<open>Safety and books\<close>

text \<open>C3: in every state a worker can reach, through any packets (any bytes), send results, timer
  firings, calls, answers of services and user code that calls back into the worker from inside
  its closures, services and routing: nothing outside the session pool is accessed, no null
  closure is called, no \<open>HRPC_ASSERT\<close> fails, no deleted context is used; every session carries
  this worker's number in its id, sits in its own slot and has a closure; and every context
  has its two messages, distinct and allocated.\<close>

theorem worker_reachable_safe:
  assumes "sizes_agree (pb B)" and "core_reachable (nested_core B U depth) core s"
  shows "\<not> fault s \<and> \<not> core_fault s \<and>
    (\<forall>i n. live_at s i n \<longrightarrow> slot_of s (rpc_id n) = i \<and> core_part (rpc_id n) = Suc core \<and>
       node_done n \<noteq> None) \<and>
    (\<forall>c ctx. contexts s c = Some ctx \<longrightarrow> (\<exists>q p. ctx_request ctx = Some q \<and>
       ctx_response ctx = Some p \<and> q \<noteq> p \<and> msg_owner s q \<noteq> None \<and> msg_owner s p \<noteq> None))"
proof -
  have "core_reachable (nested_core (lawful B) U depth) core s"
    using assms by (simp add: lawful_id)
  then have inv: "mgr_inv core s" "context_inv core s"
    using user.reachable_core_inv unfolding core_inv_def by blast+
  note geo = mgr_invD(1) [OF inv(1)]
  have "slot_of s (rpc_id n) = i" "core_part (rpc_id n) = Suc core" "node_done n \<noteq> None"
    if "live_at s i n" for i n
    using live_find(2) [OF inv(1) that] by (simp_all add: node_ok_def slot_of_ring [OF geo])
  moreover have "\<exists>q p. ctx_request ctx = Some q \<and> ctx_response ctx = Some p \<and> q \<noteq> p \<and>
      msg_owner s q \<noteq> None \<and> msg_owner s p \<noteq> None" if "contexts s c = Some ctx" for c ctx
    using inv(2) that by (fastforce simp: context_inv_def context_ok_def)
  ultimately show ?thesis
    using mgr_invD(3) [OF inv(1)] inv(2) unfolding context_inv_def by blast
qed

text \<open>C18: the books of a worker balance in every reachable state: the closures handed to
  \<open>CallMethod\<close>, with multiplicity, are those already called (an unroutable call included),
  those of pending sessions, and those whose route had more than 65536 endpoints.\<close>

theorem worker_closures_accounted:
  assumes "sizes_agree (pb B)" and "core_reachable (nested_core B U depth) core s"
  shows "added s = answered s + pending s + dropped s"
proof -
  have "core_reachable (nested_core (lawful B) U depth) core s"
    using assms by (simp add: lawful_id)
  then have "owes {#} s" using user.reachable_core_inv by blast
  then show ?thesis by (simp add: owes_def)
qed

text \<open>A call on the demo worker, waiting for its answer.\<close>

lemma demo_called:
  obtains s :: demo_core and i n pkt where "core_reachable (nested_core (demo_base b) demo_user 0) 1 s"
    "core_inv 1 s" "live_at s i n" "node_method n = demo_method" "node_response n = 2"
    "node_done n = Some 7" "sent s = [(pkt, (1, 1), rpc_id n)]" "msgs s = (\<lambda>_. [1])"
    "parse_packet demo_rpc_pb pkt = Some (request_header demo_method (rpc_id n), [1])"
    "trace s = [EvAdd 7 2, EvSend demo_method 1 (rpc_id n) (1, 1)]" "contexts s = (\<lambda>_. None)"
proof -
  let ?B = "demo_base b"
  have "(1 :: nat) < 4" by simp
  from demo_core_start [OF this, of "nested_core ?B demo_user 0"]
  obtain s0 :: demo_core where r0: "core_reachable (nested_core ?B demo_user 0) 1 s0" and i0: "core_inv 1 s0"
      and e0: "trace s0 = []" "sent s0 = []" "contexts s0 = (\<lambda>_. None)" "msgs s0 = (\<lambda>_. [1])"
      and f0: "0 < length (sess_pool s0)" "rpc_id (sess_pool s0 ! 0) = 0" by blast
  have inv: "mgr_inv 1 s0" using i0 by (simp add: core_inv_def)
  obtain i rid l tw own pkt where a: "i < length (sess_pool s0)" "rpc_id (sess_pool s0 ! i) = 0"
    "core_part rid = Suc 1" "ring_slot (pool_size_order s0) rid = i" "el_wf l" "el_list l = (1, 1) # [(2, 2)]"
    "parse_packet (pb ?B) pkt = Some (request_header demo_method rid, [1])"
    "CallMethod (idle_env ?B demo_user) demo_method 1 2 7 s0 =
      s0\<lparr>next_rpc_id := rid, timerw := tw,
        sess_pool := (sess_pool s0)[i := filled demo_method 1 2 l 7 rid own (sess_pool s0 ! i)],
        trace := trace s0 @ [EvAdd 7 (Suc (length [(2 :: u32, 2 :: u16)])), EvSend demo_method 1 rid (1, 1)],
        sent := sent s0 @ [(pkt, (1, 1), rid)]\<rparr>"
    by (rule client_call [OF inv f0, where U = demo_user and B = ?B and m = demo_method and rq = 1 and rp = 2
          and a = "(1, 1)" and as = "[(2, 2)]" and b = "[1]" and d = 7])
      (auto simp: demo_user_of_def e0 demo_base_of_def intro: demo_carries)
  let ?s = "CallMethod (idle_env ?B demo_user) demo_method 1 2 7 s0"
  have "core_step (nested_core ?B demo_user 0) s0 ?s"
    using core_call [of "nested_core ?B demo_user 0" s0 demo_method 1 2 7] by simp
  with r0 have reach: "core_reachable (nested_core ?B demo_user 0) 1 ?s" by (rule core_next)
  moreover from reach have "core_inv 1 ?s"
    using user.reachable_core_inv [of "demo_base b" demo_user 0 1 ?s]
    by (simp add: lawful_id [OF demo_sizes])
  moreover have "rid \<noteq> 0" using a(3) by auto
  ultimately show thesis
    using a e0
    by (intro that [of ?s i "filled demo_method 1 2 l 7 rid own (sess_pool s0 ! i)" pkt])
      (simp_all add: live_at_def filled_def demo_base_of_def)
qed

theorem worker_reachable_safe_witness:
  "\<exists>(s :: demo_core) i n. live_at s i n \<and> \<not> fault s \<and> \<not> core_fault s \<and> slot_of s (rpc_id n) = i \<and>
     core_part (rpc_id n) = 2"
proof -
  obtain s :: demo_core and i n
    where s: "core_reachable (nested_core (demo_base True) demo_user 0) 1 s" "live_at s i n" by (rule demo_called)
  from worker_reachable_safe [OF demo_sizes s(1)] s(2) show ?thesis
    by (intro exI [of _ s] exI [of _ i] exI [of _ n]) auto
qed

theorem worker_closures_accounted_witness:
  "\<exists>(s :: demo_core) i n. live_at s i n \<and> added s = answered s + pending s + dropped s"
proof -
  obtain s :: demo_core and i n
    where s: "core_reachable (nested_core (demo_base True) demo_user 0) 1 s" "live_at s i n" by (rule demo_called)
  from worker_closures_accounted [OF demo_sizes s(1)] s(2) show ?thesis by blast
qed

section \<open>A call from end to end\<close>

lemma get_request [simp]:
  "get_packet_type (request_header m rid) = REQUEST" "get_rpc_id (request_header m rid) = rid"
  "get_service_name (request_header m rid) = service_name m"
  "get_method_name (request_header m rid) = method_name m"
  by (simp_all add: request_header_def)

text \<open>With \<open>j\<close> endpoints whose sends fail first.\<close>

lemma call_round_trip_after:
  fixes j :: nat
  assumes "core_inv k s" and "k < unat (workers B)"
    and "i0 < length (sess_pool s)" "rpc_id (sess_pool s ! i0) = 0"
    and "routing_acts U = Some f" "f (service_name m) (method_name m) (msgs s rq) s = (True, a # as, acts)"
    and "length as < 65536"
    and "\<And>rid. carries (pb B) (request_header m rid) (msgs s rq) b"
    and "core_inv js t" and "pb B' = pb B"
    and "\<And>rid. names_method B' (request_header m rid) svc sd m'"
    and "service_name m' = service_name m" "method_name m' = method_name m"
    and "ParseFromArray (sess_env B') (NewMessage B' (GetRequestPrototype B' svc m')) b = (True, req)"
    and "replies U' svc m' (NewMessage B' (GetResponsePrototype B' svc m')) req resp r"
    and "\<And>rid. carries (pb B) (reply_header m' rid r) resp vb"
    and "ParseFromArray (sess_env B) (msgs s rp) vb = (True, v)"
    and "j < Suc (length as)"
  obtains rid pkt t' rpkt s2 s' where
    "s2 = ((\<lambda>x. snd (OnSendPacketFailed (nested_core B U 0) rid x)) ^^ j) (CallMethod (nested_core B U 0) m rq rp d s)"
    "sent s2 = sent s @ map (\<lambda>a. (pkt, a, rid)) (take (Suc j) (a # as))"
    "trace s2 = trace s @ EvAdd d (Suc (length as)) # map (EvSend m rq rid) (take (Suc j) (a # as))"
    "OnRecvPacket (nested_core B' U' 1) pkt caddr t = (0, t')"
    "sent t' = sent t @ [(rpkt, caddr, 0)]"
    "served t' = served t @ [(m', next_msg t, next_msg t + 1, next_context t)]" "contexts t' = contexts t"
    "OnRecvPacket (nested_core B U 0) rpkt saddr s2 = (0, s')" "msgs s' rp = v" "trace s' = trace s2 @ [EvDone d r]"
    "sent s' = sent s2" "\<And>i n. live_at s' i n \<longleftrightarrow> live_at s i n"
proof -
  have inv: "mgr_inv k s" "rpc_core_id s = k" "context_inv js t"
    using assms(1,9) by (simp_all add: core_inv_def context_inv_def)
  obtain i rid l tw own pkt where a: "i < length (sess_pool s)" "rpc_id (sess_pool s ! i) = 0"
    "core_part rid = Suc k" "ring_slot (pool_size_order s) rid = i" "el_wf l" "el_list l = a # as"
    "parse_packet (pb B) pkt = Some (request_header m rid, b)"
    and call: "CallMethod (idle_env B U) m rq rp d s =
      s\<lparr>next_rpc_id := rid, timerw := tw,
        sess_pool := (sess_pool s)[i := filled m rq rp l d rid own (sess_pool s ! i)],
        trace := trace s @ [EvAdd d (Suc (length as)), EvSend m rq rid a],
        sent := sent s @ [(pkt, a, rid)]\<rparr>"
    and built: "build_packet (pb B) (stack_garbage B) (request_header m rid) (msgs s rq) = Some pkt"
    by (rule client_call [OF inv(1) assms(3-8)])
  define s1 where "s1 = CallMethod (idle_env B U) m rq rp d s"
  let ?n = "filled m rq rp l d rid own (sess_pool s ! i)"
  have n: "rpc_id ?n = rid" "node_method ?n = m" "node_request ?n = rq" "endpoint_index ?n = 0" "endpoint_list ?n = l"
    "node_done ?n = Some d" "node_response ?n = rp" "el_size l = Suc (length as)"
    using a(5,6) length_el_list [of l] by (simp_all add: filled_def)
  have rid: "rid \<noteq> 0" using a(3) by auto
  have live: "live_at s1 i ?n" using a(1) rid by (simp add: s1_def call live_at_def filled_def)
  have inv1: "mgr_inv k s1"
    using keeps_same_table [OF filled_inv [OF inv(1) a(1,3,4,5)], of s1] by (simp add: s1_def call keeps_def)
  have s1: "rpc_core_id s1 = k" "msgs s1 = msgs s" using inv(2) by (simp_all add: s1_def call)
  let ?n2 = "?n\<lparr>endpoint_index := of_nat j\<rparr>"
  define s2 where "s2 = ((\<lambda>x. snd (OnSendPacketFailed (idle_env B U) rid x)) ^^ j) s1"
  have s2: "s2 = s1\<lparr>sess_pool := (sess_pool s1)[i := ?n2], trace := trace s1 @ map (EvSend m rq rid) (take j as),
      sent := sent s1 @ map (\<lambda>a. (pkt, a, rid)) (take j as)\<rparr>"
    using failed_sends [OF inv1 s1(1) assms(2) live n(4), of pkt j U] built assms(7,18) unfolding s2_def
    by (simp add: n s1(2) a(6) Let_def)
  have inv2: "mgr_inv k s2"
    using mgr_inv_update [OF inv1, of i ?n2] live live_find(2) [OF inv1 live]
    by (simp add: s2 mgr_inv_def geometry_ok_def live_at_def node_ok_def)
  have live2: "live_at s2 i ?n2" using live by (simp add: s2 live_at_def)
  obtain t' rpkt where t': "OnRecvPacket (nested_core B' U' 1) pkt caddr t = (0, t')"
    "sent t' = sent t @ [(rpkt, caddr, 0)]"
    "parse_packet (pb B') rpkt = Some (reply_header m' rid r, vb)"
    "served t' = served t @ [(m', next_msg t, next_msg t + 1, next_context t)]"
    "contexts t' = contexts t"
    by (rule server_answer [OF inv(3), of B' pkt "request_header m rid" b svc sd m' req U' resp r vb caddr])
      (use a(7) assms in simp_all)
  have resp: "OnRecvPacket (idle_env B U) rpkt saddr s2 = (0,
    s2\<lparr>msgs := (msgs s2)(rp := v), trace := trace s2 @ [EvDone d r],
      timerw := fst (cancelled (sess_env B) i s2),
      sess_pool := (sess_pool s2)[i := freed (snd (cancelled (sess_env B) i s2)) ?n2]\<rparr>)" (is "_ = (0, ?s')")
    using client_response [OF inv2 _ assms(2) live2, of d m' rpkt r vb v U saddr] s1 t'(3) assms
    by (simp add: n s2)
  have live': "live_at ?s' i' n \<longleftrightarrow> live_at s i' n" for i' n
    using a(1,2) by (cases "i' = i") (auto simp: live_at_def s2 s1_def call)
  have core: "nested_core B U 0 = idle_env B U" by simp
  have s2': "s2 = ((\<lambda>x. snd (OnSendPacketFailed (nested_core B U 0) rid x)) ^^ j) (CallMethod (nested_core B U 0) m rq rp d s)"
    by (simp only: s2_def s1_def core)
  have out: "sent s2 = sent s @ map (\<lambda>a. (pkt, a, rid)) (take (Suc j) (a # as))"
    "trace s2 = trace s @ EvAdd d (Suc (length as)) # map (EvSend m rq rid) (take (Suc j) (a # as))"
    by (simp_all add: s2 s1_def call)
  show thesis
    by (rule that [OF s2' out t'(1,2,4,5) resp [folded core]]) (simp_all add: live')
qed

lemma call_round_trip:
  assumes "core_inv k s" and "k < unat (workers B)"
    and "i0 < length (sess_pool s)" "rpc_id (sess_pool s ! i0) = 0"
    and "routing_acts U = Some f" "f (service_name m) (method_name m) (msgs s rq) s = (True, a # as, acts)"
    and "length as < 65536"
    and "\<And>rid. carries (pb B) (request_header m rid) (msgs s rq) b"
    and "core_inv j t" and "pb B' = pb B"
    and "\<And>rid. names_method B' (request_header m rid) svc sd m'"
    and "service_name m' = service_name m" "method_name m' = method_name m"
    and "ParseFromArray (sess_env B') (NewMessage B' (GetRequestPrototype B' svc m')) b = (True, req)"
    and "replies U' svc m' (NewMessage B' (GetResponsePrototype B' svc m')) req resp r"
    and "\<And>rid. carries (pb B) (reply_header m' rid r) resp vb"
    and "ParseFromArray (sess_env B) (msgs s rp) vb = (True, v)"
  obtains rid pkt t' rpkt s' where
    "sent (CallMethod (nested_core B U 0) m rq rp d s) = sent s @ [(pkt, a, rid)]"
    "trace (CallMethod (nested_core B U 0) m rq rp d s) = trace s @ [EvAdd d (Suc (length as)), EvSend m rq rid a]"
    "OnRecvPacket (nested_core B' U' 1) pkt caddr t = (0, t')"
    "sent t' = sent t @ [(rpkt, caddr, 0)]"
    "served t' = served t @ [(m', next_msg t, next_msg t + 1, next_context t)]" "contexts t' = contexts t"
    "OnRecvPacket (nested_core B U 0) rpkt a (CallMethod (nested_core B U 0) m rq rp d s) = (0, s')"
    "msgs s' rp = v"
    "trace s' = trace s @ [EvAdd d (Suc (length as)), EvSend m rq rid a, EvDone d r]"
    "\<And>i n. live_at s' i n \<longleftrightarrow> live_at s i n"
proof -
  obtain rid pkt t' rpkt s2 s' where
    "s2 = ((\<lambda>x. snd (OnSendPacketFailed (nested_core B U 0) rid x)) ^^ 0) (CallMethod (nested_core B U 0) m rq rp d s)"
    "sent s2 = sent s @ map (\<lambda>a. (pkt, a, rid)) (take (Suc 0) (a # as))"
    "trace s2 = trace s @ EvAdd d (Suc (length as)) # map (EvSend m rq rid) (take (Suc 0) (a # as))"
    "OnRecvPacket (nested_core B' U' 1) pkt caddr t = (0, t')" "sent t' = sent t @ [(rpkt, caddr, 0)]"
    "served t' = served t @ [(m', next_msg t, next_msg t + 1, next_context t)]" "contexts t' = contexts t"
    "OnRecvPacket (nested_core B U 0) rpkt a s2 = (0, s')" "msgs s' rp = v" "trace s' = trace s2 @ [EvDone d r]"
    "sent s' = sent s2" "\<And>i n. live_at s' i n \<longleftrightarrow> live_at s i n"
    by (rule call_round_trip_after [OF assms, where d = d and caddr = caddr and j = 0 and saddr = a]) (simp, rule that)
  then show thesis by (intro that [of pkt rid t' rpkt s']) simp_all
qed

text \<open>C1: one RPC from end to end. A call on a client's worker with a free session, routed to the
  address \<open>a\<close>, sends one packet to \<open>a\<close>. A server's worker that knows the service runs the
  method once on the parsed request and, as the service writes a response and answers \<open>r\<close>,
  sends one packet back and keeps no context. The client's worker takes that packet: it
  parses the response into the caller's message, calls the caller's closure once with \<open>r\<close>,
  and all its sessions are as before the call. Protobuf is assumed to carry the two headers
  and messages, and to parse what it serialised.\<close>

theorem rpc_end_to_end:
  assumes "core_inv k s" and "k < unat (workers B)"
    and "i0 < length (sess_pool s)" "rpc_id (sess_pool s ! i0) = 0"
    and "routing_acts U = Some f" "f (service_name m) (method_name m) (msgs s rq) s = (True, a # as, acts)"
    and "length as < 65536"
    and "\<And>rid. carries (pb B) (request_header m rid) (msgs s rq) b"
    and "core_inv j t" and "pb B' = pb B"
    and "\<And>rid. names_method B' (request_header m rid) svc sd m'"
    and "service_name m' = service_name m" "method_name m' = method_name m"
    and "ParseFromArray (sess_env B') (NewMessage B' (GetRequestPrototype B' svc m')) b = (True, req)"
    and "replies U' svc m' (NewMessage B' (GetResponsePrototype B' svc m')) req resp r"
    and "\<And>rid. carries (pb B) (reply_header m' rid r) resp vb"
    and "ParseFromArray (sess_env B) (msgs s rp) vb = (True, v)"
  shows "\<exists>s1 rid pkt t' rpkt s'. CallMethod (nested_core B U 0) m rq rp d s = s1 \<and>
    sent s1 = sent s @ [(pkt, a, rid)] \<and>
    OnRecvPacket (nested_core B' U' 1) pkt caddr t = (0, t') \<and>
    sent t' = sent t @ [(rpkt, caddr, 0)] \<and>
    served t' = served t @ [(m', next_msg t, next_msg t + 1, next_context t)] \<and>
    contexts t' = contexts t \<and>
    OnRecvPacket (nested_core B U 0) rpkt a s1 = (0, s') \<and> msgs s' rp = v \<and>
    trace s' = trace s @ [EvAdd d (Suc (length as)), EvSend m rq rid a, EvDone d r] \<and>
    (\<forall>i n. live_at s' i n \<longleftrightarrow> live_at s i n)"
proof -
  obtain rid pkt t' rpkt s' where run:
    "sent (CallMethod (nested_core B U 0) m rq rp d s) = sent s @ [(pkt, a, rid)]"
    "OnRecvPacket (nested_core B' U' 1) pkt caddr t = (0, t')"
    "sent t' = sent t @ [(rpkt, caddr, 0)]"
    "served t' = served t @ [(m', next_msg t, next_msg t + 1, next_context t)]" "contexts t' = contexts t"
    "OnRecvPacket (nested_core B U 0) rpkt a (CallMethod (nested_core B U 0) m rq rp d s) = (0, s')"
    "msgs s' rp = v"
    "trace s' = trace s @ [EvAdd d (Suc (length as)), EvSend m rq rid a, EvDone d r]"
    "\<And>i n. live_at s' i n \<longleftrightarrow> live_at s i n"
    by (rule call_round_trip [OF assms, where d = d and caddr = caddr]) (rule that)
  then show ?thesis
    by (intro exI [of _ "CallMethod (nested_core B U 0) m rq rp d s"] exI [of _ rid] exI [of _ pkt]
        exI [of _ t'] exI [of _ rpkt] exI [of _ s'] conjI refl allI)
qed

theorem rpc_end_to_end_witness:
  "\<exists>(s :: demo_core) (t :: demo_core) s1 pkt t' rpkt s'.
     CallMethod (nested_core (demo_base True) demo_user 0) demo_method 1 2 7 s = s1 \<and>
     (\<exists>rid. sent s1 = sent s @ [(pkt, (1, 1), rid)]) \<and>
     OnRecvPacket (nested_core (demo_base False) demo_user 1) pkt (5, 5) t = (0, t') \<and>
     sent t' = sent t @ [(rpkt, (5, 5), 0)] \<and>
     OnRecvPacket (nested_core (demo_base True) demo_user 0) rpkt (1, 1) s1 = (0, s') \<and>
     msgs s' 2 = [9] \<and> (\<exists>es. trace s' = es @ [EvDone 7 kSuccess])"
proof -
  obtain s :: demo_core where s: "core_inv 0 s" "0 < length (sess_pool s)" "rpc_id (sess_pool s ! 0) = 0"
    "msgs s = (\<lambda>_. [1])"
    using demo_core_start [of 0 "nested_core (demo_base True) demo_user 0"] by auto
  obtain t :: demo_core where t: "core_inv 3 t"
    using demo_core_start [of 3 "nested_core (demo_base True) demo_user 0"] by auto
  have "\<exists>s1 rid pkt t' rpkt s'. CallMethod (nested_core (demo_base True) demo_user 0) demo_method 1 2 7 s = s1 \<and>
    sent s1 = sent s @ [(pkt, (1, 1), rid)] \<and>
    OnRecvPacket (nested_core (demo_base False) demo_user 1) pkt (5, 5) t = (0, t') \<and>
    sent t' = sent t @ [(rpkt, (5, 5), 0)] \<and>
    served t' = served t @ [(demo_method, next_msg t, next_msg t + 1, next_context t)] \<and>
    contexts t' = contexts t \<and>
    OnRecvPacket (nested_core (demo_base True) demo_user 0) rpkt (1, 1) s1 = (0, s') \<and> msgs s' 2 = [9] \<and>
    trace s' = trace s @ [EvAdd 7 (Suc (length [(2 :: u32, 2 :: u16)])), EvSend demo_method 1 rid (1, 1), EvDone 7 kSuccess] \<and>
    (\<forall>i n. live_at s' i n \<longleftrightarrow> live_at s i n)"
    by (rule rpc_end_to_end [OF s(1) _ s(2,3), where b = "[1]" and vb = "[9]" and svc = "()" and sd = "()"
          and req = "[1]" and resp = "[9]", OF _ _ _ _ _ t])
      (auto simp: demo_base_of_def demo_user_of_def s(4) replies_def names_method_def demo_method_def [symmetric]
        intro: demo_carries, (simp add: demo_method_def)+)
  then obtain s1 rid pkt t' rpkt s' where w: "CallMethod (nested_core (demo_base True) demo_user 0) demo_method 1 2 7 s = s1"
    "sent s1 = sent s @ [(pkt, (1, 1), rid)]"
    "OnRecvPacket (nested_core (demo_base False) demo_user 1) pkt (5, 5) t = (0, t')"
    "sent t' = sent t @ [(rpkt, (5, 5), 0)]"
    "OnRecvPacket (nested_core (demo_base True) demo_user 0) rpkt (1, 1) s1 = (0, s')"
    "msgs s' 2 = [9]"
    "trace s' = (trace s @ [EvAdd 7 (Suc (length [(2 :: u32, 2 :: u16)])), EvSend demo_method 1 rid (1, 1)]) @ [EvDone 7 kSuccess]"
    by auto
  from w(2) w(7) show ?thesis
    by (intro exI [of _ s] exI [of _ t] exI [of _ s1] exI [of _ pkt] exI [of _ t'] exI [of _ rpkt] exI [of _ s']
        conjI w(1,3-6)) (rule exI, assumption)+
qed

text \<open>C2: a call survives failed sends. Routed to the addresses \<open>a # as\<close>, a call whose packet
  cannot be sent to the first \<open>j\<close> of them (each failure is reported to the worker before the next
  send) has sent the same packet, under the same id, to the first \<open>j + 1\<close> addresses in the order the
  routing closure gave them. The server it reaches last runs the method once and answers; the
  client's worker takes the answer, parses the response into the caller's message, calls the
  caller's closure once, and all its sessions are as before the call.\<close>

theorem call_survives_failed_sends:
  fixes j :: nat
  assumes "core_inv k s" and "k < unat (workers B)"
    and "i0 < length (sess_pool s)" "rpc_id (sess_pool s ! i0) = 0"
    and "routing_acts U = Some f" "f (service_name m) (method_name m) (msgs s rq) s = (True, a # as, acts)"
    and "length as < 65536"
    and "\<And>rid. carries (pb B) (request_header m rid) (msgs s rq) b"
    and "core_inv js t" and "pb B' = pb B"
    and "\<And>rid. names_method B' (request_header m rid) svc sd m'"
    and "service_name m' = service_name m" "method_name m' = method_name m"
    and "ParseFromArray (sess_env B') (NewMessage B' (GetRequestPrototype B' svc m')) b = (True, req)"
    and "replies U' svc m' (NewMessage B' (GetResponsePrototype B' svc m')) req resp r"
    and "\<And>rid. carries (pb B) (reply_header m' rid r) resp vb"
    and "ParseFromArray (sess_env B) (msgs s rp) vb = (True, v)"
    and "j < Suc (length as)"
  shows "\<exists>rid pkt t' rpkt s2 s'.
    s2 = ((\<lambda>x. snd (OnSendPacketFailed (nested_core B U 0) rid x)) ^^ j) (CallMethod (nested_core B U 0) m rq rp d s) \<and>
    sent s2 = sent s @ map (\<lambda>a. (pkt, a, rid)) (take (Suc j) (a # as)) \<and>
    OnRecvPacket (nested_core B' U' 1) pkt caddr t = (0, t') \<and>
    sent t' = sent t @ [(rpkt, caddr, 0)] \<and>
    served t' = served t @ [(m', next_msg t, next_msg t + 1, next_context t)] \<and>
    contexts t' = contexts t \<and>
    OnRecvPacket (nested_core B U 0) rpkt saddr s2 = (0, s') \<and> msgs s' rp = v \<and> sent s' = sent s2 \<and>
    trace s' = trace s @ EvAdd d (Suc (length as)) # map (EvSend m rq rid) (take (Suc j) (a # as)) @ [EvDone d r] \<and>
    (\<forall>i n. live_at s' i n \<longleftrightarrow> live_at s i n)"
proof -
  obtain rid pkt t' rpkt s2 s' where run:
    "s2 = ((\<lambda>x. snd (OnSendPacketFailed (nested_core B U 0) rid x)) ^^ j) (CallMethod (nested_core B U 0) m rq rp d s)"
    "sent s2 = sent s @ map (\<lambda>a. (pkt, a, rid)) (take (Suc j) (a # as))"
    and tr: "trace s2 = trace s @ EvAdd d (Suc (length as)) # map (EvSend m rq rid) (take (Suc j) (a # as))"
    and answer: "OnRecvPacket (nested_core B' U' 1) pkt caddr t = (0, t')"
    "sent t' = sent t @ [(rpkt, caddr, 0)]"
    "served t' = served t @ [(m', next_msg t, next_msg t + 1, next_context t)]" "contexts t' = contexts t"
    and reply: "OnRecvPacket (nested_core B U 0) rpkt saddr s2 = (0, s')" "msgs s' rp = v"
    and tr': "trace s' = trace s2 @ [EvDone d r]"
    and sent': "sent s' = sent s2" and live: "\<And>i n. live_at s' i n \<longleftrightarrow> live_at s i n"
    by (rule call_round_trip_after [OF assms, where d = d and caddr = caddr and saddr = saddr]) (rule that)
  have "trace s' = trace s @ EvAdd d (Suc (length as)) # map (EvSend m rq rid) (take (Suc j) (a # as)) @ [EvDone d r]"
    unfolding tr' tr by simp
  with run answer reply sent' live show ?thesis
    by (intro exI [of _ rid] exI [of _ pkt] exI [of _ t'] exI [of _ rpkt] exI [of _ s2] exI [of _ s'] conjI allI)
qed

theorem call_survives_failed_sends_witness:
  "\<exists>(s :: demo_core) (t :: demo_core) rid s2 pkt t' rpkt s'.
     s2 = snd (OnSendPacketFailed (nested_core (demo_base True) demo_user 0) rid
       (CallMethod (nested_core (demo_base True) demo_user 0) demo_method 1 2 7 s)) \<and>
     sent s2 = sent s @ [(pkt, (1, 1), rid), (pkt, (2, 2), rid)] \<and>
     OnRecvPacket (nested_core (demo_base False) demo_user 1) pkt (5, 5) t = (0, t') \<and>
     sent t' = sent t @ [(rpkt, (5, 5), 0)] \<and>
     OnRecvPacket (nested_core (demo_base True) demo_user 0) rpkt (2, 2) s2 = (0, s') \<and>
     msgs s' 2 = [9] \<and> (\<exists>es. trace s' = es @ [EvDone 7 kSuccess])"
proof -
  obtain s :: demo_core where s: "core_inv 0 s" "0 < length (sess_pool s)" "rpc_id (sess_pool s ! 0) = 0"
    "msgs s = (\<lambda>_. [1])"
    using demo_core_start [of 0 "nested_core (demo_base True) demo_user 0"] by auto
  obtain t :: demo_core where t: "core_inv 3 t"
    using demo_core_start [of 3 "nested_core (demo_base True) demo_user 0"] by auto
  have "\<exists>rid pkt t' rpkt s2 s'.
    s2 = ((\<lambda>x. snd (OnSendPacketFailed (nested_core (demo_base True) demo_user 0) rid x)) ^^ 1)
      (CallMethod (nested_core (demo_base True) demo_user 0) demo_method 1 2 7 s) \<and>
    sent s2 = sent s @ map (\<lambda>a. (pkt, a, rid)) (take (Suc 1) [(1, 1), (2, 2)]) \<and>
    OnRecvPacket (nested_core (demo_base False) demo_user 1) pkt (5, 5) t = (0, t') \<and>
    sent t' = sent t @ [(rpkt, (5, 5), 0)] \<and>
    served t' = served t @ [(demo_method, next_msg t, next_msg t + 1, next_context t)] \<and>
    contexts t' = contexts t \<and>
    OnRecvPacket (nested_core (demo_base True) demo_user 0) rpkt (2, 2) s2 = (0, s') \<and> msgs s' 2 = [9] \<and>
    sent s' = sent s2 \<and>
    trace s' = trace s @ EvAdd 7 (Suc (length [(2 :: u32, 2 :: u16)])) #
      map (EvSend demo_method 1 rid) (take (Suc 1) [(1, 1), (2, 2)]) @ [EvDone 7 kSuccess] \<and>
    (\<forall>i n. live_at s' i n \<longleftrightarrow> live_at s i n)"
    by (rule call_survives_failed_sends [OF s(1) _ s(2,3), where b = "[1]" and vb = "[9]" and svc = "()" and sd = "()"
          and req = "[1]" and resp = "[9]", OF _ _ _ _ _ t])
      (auto simp: demo_base_of_def demo_user_of_def s(4) replies_def names_method_def demo_method_def [symmetric]
        intro: demo_carries, (simp add: demo_method_def)+)
  then obtain rid pkt t' rpkt s2 s' where w:
    "s2 = ((\<lambda>x. snd (OnSendPacketFailed (nested_core (demo_base True) demo_user 0) rid x)) ^^ 1)
      (CallMethod (nested_core (demo_base True) demo_user 0) demo_method 1 2 7 s)"
    "sent s2 = sent s @ map (\<lambda>a. (pkt, a, rid)) (take (Suc 1) [(1, 1), (2, 2)])"
    "OnRecvPacket (nested_core (demo_base False) demo_user 1) pkt (5, 5) t = (0, t')"
    "sent t' = sent t @ [(rpkt, (5, 5), 0)]"
    "OnRecvPacket (nested_core (demo_base True) demo_user 0) rpkt (2, 2) s2 = (0, s')"
    "msgs s' 2 = [9]"
    "trace s' = trace s @ EvAdd 7 (Suc (length [(2 :: u32, 2 :: u16)])) #
      map (EvSend demo_method 1 rid) (take (Suc 1) [(1, 1), (2, 2)]) @ [EvDone 7 kSuccess]"
    by blast
  have "sent s2 = sent s @ [(pkt, (1, 1), rid), (pkt, (2, 2), rid)]" using w(2) by simp
  moreover have "trace s' = (trace s @ [EvAdd 7 2, EvSend demo_method 1 rid (1, 1), EvSend demo_method 1 rid (2, 2)]) @
      [EvDone 7 kSuccess]"
    using w(7) by simp
  moreover have "s2 = snd (OnSendPacketFailed (nested_core (demo_base True) demo_user 0) rid
       (CallMethod (nested_core (demo_base True) demo_user 0) demo_method 1 2 7 s))"
    unfolding w(1) by (simp only: One_nat_def funpow.simps o_apply id_apply)
  ultimately show ?thesis using w(3-6) by blast
qed

section \<open>Routing\<close>

text \<open>A call that cannot be routed (no routing closure, the closure says no, or it adds no
  endpoint) is answered: its closure is called once with \<open>kNoRoute\<close>, before \<open>CallMethod\<close>
  returns; no session is opened and nothing is sent.\<close>

lemma unroutable_call_is_answered:
  assumes "case routing_acts U of None \<Rightarrow> True
      | Some f \<Rightarrow> (case f (service_name m) (method_name m) (msgs s rq) s of
                    (ok, addrs, acts) \<Rightarrow> \<not> ok \<or> addrs = [])"
  shows "CallMethod (nested_core B U 0) m rq rp d s =
    s\<lparr>trace := trace s @ [EvAdd d 0, EvDone d kNoRoute]\<rparr>"
proof -
  have "AddEndpoint = PushBack" by (intro ext) (simp add: AddEndpoint_def)
  then have add: "\<exists>l. mfold AddEndpoint EndpointList_init addrs = Some l \<and> el_size l = length addrs" for addrs
    using el.build [of addrs] by (metis length_el_list)
  have "resolve_endpoints (idle_env B U) m rq s = (None, s)"
  proof (cases "routing_acts U")
    case None
    then show ?thesis by (simp add: resolve_endpoints_def user_env_def)
  next
    case (Some f)
    obtain ok addrs acts where f: "f (service_name m) (method_name m) (msgs s rq) s = (ok, addrs, acts)"
      by (metis prod_cases3)
    with Some assms have "\<not> ok \<or> addrs = []" by simp
    with Some f add [of addrs] show ?thesis
      by (auto simp: resolve_endpoints_def user_env_def el_empty_def)
  qed
  then show ?thesis
    by (simp add: CallMethod_def invoke_done_def mgr_env_of_def user_env_def)
qed

section \<open>Responses\<close>

text \<open>A response packet finds its worker. Whatever worker's thread receives the response to a
  session of worker \<open>k\<close>, it leaves its own state alone and names \<open>k\<close>, or is \<open>k\<close> and handles it.\<close>

theorem response_goes_to_its_worker:
  assumes "mgr_inv k s" and "live_at s i n" and "k < unat (workers C)"
    and "parse_packet (pb C) buf = Some (reply_header m (rpc_id n) r, body)"
  shows "OnRecvPacket C buf a t =
    (if rpc_core_id t = k
     then (0, OnRecvResponse (mgr_env_of C) (service_name m) (method_name m) (rpc_id n) r body t)
     else (k, t))"
proof -
  have "core_part (rpc_id n) = Suc k"
    using live_find(2) [OF assms(1,2)] by (simp add: node_ok_def)
  with OnRecvPacket_response [OF assms(4) _ _ assms(3)] show ?thesis
    by (simp add: OnRecvResponseMessage_reply)
qed

lemma demo_reply:
  obtains buf where "parse_packet demo_rpc_pb buf = Some (reply_header demo_method rid kSuccess, [9])"
  by (rule carries_packet [OF demo_carries(2), of "[9]"]) simp_all

theorem response_goes_to_its_worker_witness:
  "\<exists>(s :: demo_core) i n buf. live_at s i n \<and>
     OnRecvPacket (demo_base True) buf (1, 1) (demo_blank_core\<lparr>rpc_core_id := 3\<rparr>) =
       (1, demo_blank_core\<lparr>rpc_core_id := 3\<rparr>)"
proof -
  obtain s :: demo_core and i n where s: "core_inv 1 s" "live_at s i n"
    by (rule demo_called [of True])
  obtain buf where "parse_packet demo_rpc_pb buf = Some (reply_header demo_method (rpc_id n) kSuccess, [9])"
    by (rule demo_reply)
  with s response_goes_to_its_worker [of 1 s i n "demo_base True" buf demo_method kSuccess "[9]" "(1, 1)"
      "demo_blank_core\<lparr>rpc_core_id := 3\<rparr>"]
  show ?thesis
    by (intro exI [of _ s] exI [of _ i] exI [of _ n] exI [of _ buf])
      (simp add: core_inv_def demo_base_of_def)
qed



section \<open>Requests and their memory\<close>

text \<open>C33: what an answered request leaves allocated. With an arena-enabled request type both its
  messages are released with the context. Otherwise both stay allocated for ever: they are on
  the heap and no context refers to them any more.\<close>

theorem answered_request_memory:
  assumes "core_inv j t"
    and "parse_packet (pb B) pkt = Some (h, qb)" "get_packet_type h = REQUEST"
    and "names_method B h svc sd m"
    and "ParseFromArray (sess_env B) (NewMessage B (GetRequestPrototype B svc m)) qb = (True, req)"
    and "replies U svc m (NewMessage B (GetResponsePrototype B svc m)) req resp r"
    and "carries (pb B) (reply_header m (get_rpc_id h) r) resp vb"
  shows "let t' = snd (OnRecvPacket (nested_core B U 1) pkt addr t); q = next_msg t; p = next_msg t + 1 in
    if cc_enable_arenas B (GetRequestPrototype B svc m) then msg_owner t' = msg_owner t
    else msg_owner t' q = Some Heap \<and> msg_owner t' p = Some Heap \<and>
      (\<forall>c ctx. contexts t' c = Some ctx \<longrightarrow>
         {ctx_request ctx, ctx_response ctx} \<inter> {Some q, Some p} = {})"
proof -
  have inv: "context_inv j t" using assms(1) by (simp add: core_inv_def)
  from inv assms(2-7) obtain t' rpkt where t': "OnRecvPacket (nested_core B U 1) pkt addr t = (0, t')"
    "contexts t' = contexts t"
    "msg_owner t' = (if cc_enable_arenas B (GetRequestPrototype B svc m) then msg_owner t
       else (msg_owner t)(next_msg t \<mapsto> Heap, next_msg t + 1 \<mapsto> Heap))"
    by (rule server_answer)
  have "{ctx_request ctx, ctx_response ctx} \<inter> {Some (next_msg t), Some (next_msg t + 1)} = {}"
    if "contexts t c = Some ctx" for c ctx
  proof -
    from inv that have ok: "context_ok t c ctx" and fresh: "\<And>p. msg_owner t p \<noteq> None \<Longrightarrow> p < next_msg t"
      by (auto simp: context_inv_def)
    then obtain q p where qp: "ctx_request ctx = Some q" "ctx_response ctx = Some p"
      "msg_owner t q \<noteq> None" "msg_owner t p \<noteq> None" by (auto simp: context_ok_def)
    with fresh [of q] fresh [of p] show ?thesis by auto
  qed
  with t' show ?thesis by (auto simp: Let_def)
qed

lemma demo_request:
  obtains buf where "parse_packet demo_rpc_pb buf = Some (request_header demo_method rid, [1])"
  by (rule carries_packet [OF demo_carries(1), of "[1]"]) simp_all

theorem answered_request_memory_witness:
  "\<exists>buf (t :: demo_core).
     msg_owner (snd (OnRecvPacket (nested_core (demo_base False) demo_user 1) buf (5, 5) t)) (next_msg t) = Some Heap \<and>
     msg_owner (snd (OnRecvPacket (nested_core (demo_base True) demo_user 1) buf (5, 5) t)) = msg_owner t"
proof -
  obtain t :: demo_core where t: "core_inv 3 t"
    using demo_core_start [of 3 "nested_core (demo_base True) demo_user 0"] by auto
  obtain buf where buf: "parse_packet demo_rpc_pb buf = Some (request_header demo_method 5, [1])"
    by (rule demo_request)
  have "let t' = snd (OnRecvPacket (nested_core (demo_base b) demo_user 1) buf (5, 5) t);
      q = next_msg t; p = next_msg t + 1 in
    if cc_enable_arenas (demo_base b) (GetRequestPrototype (demo_base b) () demo_method)
    then msg_owner t' = msg_owner t
    else msg_owner t' q = Some Heap \<and> msg_owner t' p = Some Heap \<and>
      (\<forall>c ctx. contexts t' c = Some ctx \<longrightarrow>
         {ctx_request ctx, ctx_response ctx} \<inter> {Some q, Some p} = {})" for b
    by (rule answered_request_memory [OF t, where h = "request_header demo_method 5" and qb = "[1]"
          and sd = "()" and req = "[1]" and resp = "[9]" and r = kSuccess and vb = "[9]"])
      (simp_all add: demo_base_of_def demo_user_of_def replies_def names_method_def buf demo_carries,
       simp add: demo_method_def)
  from this [of False] this [of True] show ?thesis
    by (intro exI [of _ buf] exI [of _ t]) (simp add: demo_base_of_def Let_def)
qed

text \<open>C34: a request whose service or method is unknown here, or whose body does not parse, is not
  answered: nothing is sent and no method runs, so its client waits for its timeout. In the
  second case the context made for it stays allocated, with nobody left to delete it.\<close>

theorem bad_request_is_not_answered:
  assumes "parse_packet (pb C) pkt = Some (h, qb)" "get_packet_type h = REQUEST"
    and "\<And>svc sd m. names_method C h svc sd m \<Longrightarrow>
      \<not> fst (ParseFromArray (sess_env C) (NewMessage C (GetRequestPrototype C svc m)) qb)"
  shows "let t' = snd (OnRecvPacket C pkt addr t) in
    sent t' = sent t \<and> served t' = served t \<and> trace t' = trace t \<and> sess_pool t' = sess_pool t \<and>
    (if \<exists>svc sd m. names_method C h svc sd m
     then contexts t' (next_context t) \<noteq> None \<and> next_context t' = next_context t + 1
     else t' = t)"
proof (cases rule: OnRecvRequestMessage_cases [of C h])
  case (found svc sd m)
  let ?acc = "accepted_context (NewMessage C) (incoming_context C svc m h addr)
    (GetRequestPrototype C svc m) (GetResponsePrototype C svc m) t"
  obtain q where q: "ParseFromArray (sess_env C) (NewMessage C (GetRequestPrototype C svc m)) qb = (False, q)"
    using assms(3) [OF found] by (metis prod.collapse)
  then have "OnRecvRequestMessage C h qb addr t = ?acc\<lparr>msgs := (msgs ?acc)(next_msg t := q)\<rparr>"
    by (simp add: OnRecvRequestMessage_found [OF found] Let_def)
  moreover have "next_context ?acc = next_context t + 1" by (simp add: accepted_context_def Let_def)
  ultimately show ?thesis
    using assms(1,2) found by (auto simp: OnRecvPacket_def Let_def)
next
  case dropped
  with assms(1,2) show ?thesis by (simp add: OnRecvPacket_def Let_def OnRecvRequestMessage_dropped)
qed

theorem bad_request_is_not_answered_witness:
  "\<exists>buf (t :: demo_core). let t' = snd (OnRecvPacket (demo_base True) buf (5, 5) t) in
     sent t' = sent t \<and> contexts t' (next_context t) \<noteq> None"
proof -
  obtain buf where buf: "parse_packet demo_rpc_pb buf = Some (request_header demo_method 5, [])"
    by (rule carries_packet [OF demo_carries(1), of "[]"]) simp_all
  have "names_method (demo_base True) (request_header demo_method 5) () () demo_method"
    by (simp add: names_method_def demo_base_of_def) (simp add: demo_method_def)
  then have "\<exists>svc sd m. names_method (demo_base True) (request_header demo_method 5) svc sd m"
    by blast
  moreover have "let t' = snd (OnRecvPacket (demo_base True) buf (5, 5) demo_blank_core) in
    sent t' = sent demo_blank_core \<and> served t' = served demo_blank_core \<and>
    trace t' = trace demo_blank_core \<and> sess_pool t' = sess_pool demo_blank_core \<and>
    (if \<exists>svc sd m. names_method (demo_base True) (request_header demo_method 5) svc sd m
     then contexts t' (next_context demo_blank_core) \<noteq> None \<and> next_context t' = next_context demo_blank_core + 1
     else t' = demo_blank_core)"
    by (rule bad_request_is_not_answered [where qb = "[]"]) (simp_all add: demo_base_of_def buf)
  ultimately show ?thesis
    by (intro exI [of _ buf] exI [of _ demo_blank_core]) (simp add: Let_def)
qed

end
