(* ===== verification/HyperRuns.thy ===== *)
theory HyperRuns
  imports HyperRpc CoreProperties
begin

text \<open>
  Runs of the whole process: packets, send results, timers, tasks, calls from workers and from
  other threads, in any interleaving. Every worker of a running process is in a state that the
  worker alone can reach, so the properties of \<open>CoreProperties\<close> hold of each.
\<close>

section \<open>Steps\<close>

definition worker :: "('core, 'svc, 'routing, 'u) HyperRpc \<Rightarrow> nat \<Rightarrow> bool" where
  "worker s w \<longleftrightarrow> w < length (rpc_core_vec s)"

text \<open>A thread that waits in a synchronous call makes no other call.\<close>

definition idle_thread :: "('own, 'tw, 'msg, 'u, 'svc, 'z) hyper \<Rightarrow> nat \<Rightarrow> bool" where
  "idle_thread s th \<longleftrightarrow> length (notified s th) = count_list (handed s) (SyncDone th)"

text \<open>\<open>P buf a\<close>: the packet \<open>buf\<close> may arrive from the address \<open>a\<close>.\<close>

inductive hyper_event_from ::
  "(byte list \<Rightarrow> Addr \<Rightarrow> bool) \<Rightarrow> ('own, 'tw, 'msg, 'u closure, 'svc, 'sd, 'z) core_env \<Rightarrow>
   ('own, 'tw, 'msg, 'u, 'svc, 'z) hyper \<Rightarrow> ('own, 'tw, 'msg, 'u, 'svc, 'z) hyper \<Rightarrow> bool"
  for P :: "byte list \<Rightarrow> Addr \<Rightarrow> bool" and C :: "('own, 'tw, 'msg, 'u closure, 'svc, 'sd, 'z) core_env" where
  hyper_packet: "worker s w \<Longrightarrow> P buf a \<Longrightarrow> hyper_event_from P C s (Impl_OnRecvPacket C w accepted buf a s)"
| hyper_sent: "worker s w \<Longrightarrow> hyper_event_from P C s (Impl_OnSentResult C w accepted success ctx s)"
| hyper_answer: "worker s w \<Longrightarrow> contexts (rpc_core_vec s ! w) c \<noteq> None \<Longrightarrow>
     hyper_event_from P C s (set_core w (OnIncomingRpcDone (core_env_of C s) c r (rpc_core_vec s ! w)) s)"
| hyper_write: "worker s w \<Longrightarrow> hyper_event_from P C s (set_core w ((rpc_core_vec s ! w)\<lparr>msgs := ms\<rparr>) s)"
| hyper_call_in: "worker s w \<Longrightarrow>
     hyper_event_from P C s (snd (Impl_CallMethod C (InWorker w) None m rq rp d s))"
| hyper_call_out: "(\<And>w. by = Some w \<Longrightarrow> worker s w) \<Longrightarrow> idle_thread s th \<Longrightarrow>
     hyper_event_from P C s (snd (Impl_CallMethod C (Outside th) by m rq rp d s))"

inductive hyper_step_from ::
  "(byte list \<Rightarrow> Addr \<Rightarrow> bool) \<Rightarrow> ('own, 'tw, 'msg, 'u closure, 'svc, 'sd, 'z) core_env \<Rightarrow>
   ('own, 'tw, 'msg, 'u, 'svc, 'z) hyper \<Rightarrow> ('own, 'tw, 'msg, 'u, 'svc, 'z) hyper \<Rightarrow> bool"
  for P :: "byte list \<Rightarrow> Addr \<Rightarrow> bool" and C :: "('own, 'tw, 'msg, 'u closure, 'svc, 'sd, 'z) core_env" where
  hyper_happens: "hyper_event_from P C s s' \<Longrightarrow> hyper_step_from P C s s'"
| hyper_task: "worker s w \<Longrightarrow> hyper_step_from P C s (run_task C w s)"
| hyper_timer: "worker s w \<Longrightarrow> i < length (sess_pool (rpc_core_vec s ! w)) \<Longrightarrow>
     hyper_step_from P C s (set_core w (OnTimer (core_env_of C s) i (rpc_core_vec s ! w)) s)"
| hyper_pass: "worker s w \<Longrightarrow> hyper_step_from P C s (set_core w ((rpc_core_vec s ! w)\<lparr>timerw := tw\<rparr>) s)"

text \<open>With any packet from anywhere.\<close>

abbreviation hyper_event ::
  "('own, 'tw, 'msg, 'u closure, 'svc, 'sd, 'z) core_env \<Rightarrow> ('own, 'tw, 'msg, 'u, 'svc, 'z) hyper \<Rightarrow>
   ('own, 'tw, 'msg, 'u, 'svc, 'z) hyper \<Rightarrow> bool" where
  "hyper_event \<equiv> hyper_event_from (\<lambda>buf a. True)"

abbreviation hyper_step ::
  "('own, 'tw, 'msg, 'u closure, 'svc, 'sd, 'z) core_env \<Rightarrow> ('own, 'tw, 'msg, 'u, 'svc, 'z) hyper \<Rightarrow>
   ('own, 'tw, 'msg, 'u, 'svc, 'z) hyper \<Rightarrow> bool" where
  "hyper_step \<equiv> hyper_step_from (\<lambda>buf a. True)"

lemma hyper_event_any: "hyper_event_from P C s s' \<Longrightarrow> hyper_event C s s'"
  by (induction rule: hyper_event_from.induct) (blast intro: hyper_event_from.intros)+

lemma hyper_step_any: "hyper_step_from P C s s' \<Longrightarrow> hyper_step C s s'"
  by (induction rule: hyper_step_from.induct) (blast intro: hyper_step_from.intros hyper_event_any)+

text \<open>The state a successful \<open>Start\<close> leaves, configured with the closure and the services of \<open>C\<close>.\<close>

inductive hyper_reachable ::
  "('own, 'tw, 'msg, 'u closure, 'svc, 'sd, 'z) core_env \<Rightarrow>
   ('b, 'h, 'log) HudpOptions \<Rightarrow> 'h Options \<Rightarrow> ('own, 'tw, 'msg, 'u, 'svc, 'z) hyper \<Rightarrow> bool"
  for C :: "('own, 'tw, 'msg, 'u closure, 'svc, 'sd, 'z) core_env"
    and H :: "('b, 'h, 'log) HudpOptions" and opt :: "'h Options" where
  hyper_start: "s0 = snd (InitAsServer svc_name services
       (snd (InitAsClient (on_service_routing C) Impl_init))) \<Longrightarrow>
     on_find_service C = service_map s0 \<Longrightarrow> workers C = worker_num H (hudp_options opt) \<Longrightarrow>
     worker_num H (hudp_options opt) < 2 ^ 16 \<Longrightarrow> max_rpc_sessions opt \<le> 2 ^ 47 \<Longrightarrow>
     (\<And>i. blank_core (new_core i)) \<Longrightarrow> (\<And>i. rands i < 2 ^ 32) \<Longrightarrow>
     Start H opt new_core garbage own0 rands True s0 = Some (True, s) \<Longrightarrow> hyper_reachable C H opt s"
| hyper_next: "hyper_reachable C H opt s \<Longrightarrow> hyper_step C s s' \<Longrightarrow> hyper_reachable C H opt s'"

text \<open>That state on its own.\<close>

definition started ::
  "('own, 'tw, 'msg, 'u closure, 'svc, 'sd, 'z) core_env \<Rightarrow> ('b, 'h, 'log) HudpOptions \<Rightarrow>
   'h Options \<Rightarrow> 'own \<Rightarrow> ('own, 'tw, 'msg, 'u, 'svc, 'z) hyper \<Rightarrow> bool" where
  "started C H opt own0 s \<longleftrightarrow> (\<exists>s0 svc_name services new_core garbage rands.
     s0 = snd (InitAsServer svc_name services
       (snd (InitAsClient (on_service_routing C) Impl_init))) \<and>
     on_find_service C = service_map s0 \<and> workers C = worker_num H (hudp_options opt) \<and>
     worker_num H (hudp_options opt) < 2 ^ 16 \<and> max_rpc_sessions opt \<le> 2 ^ 47 \<and>
     (\<forall>i. blank_core (new_core i)) \<and> (\<forall>i. rands i < 2 ^ 32) \<and>
     Start H opt new_core garbage own0 rands True s0 = Some (True, s))"

lemma started_reachable: "started C H opt own0 s \<Longrightarrow> hyper_reachable C H opt s"
  unfolding started_def by (blast intro: hyper_start)

section \<open>Start\<close>

lemma init_cores_spec:
  assumes "init_cores H opt new_core garbage own0 rands = Some cores"
  shows "length cores = unat (worker_num H (hudp_options opt))"
    "\<And>i. i < length cores \<Longrightarrow>
      core_Init H opt (garbage i) own0 (rands i) i (new_core i) = Some (cores ! i)"
  using mfold_collect [OF assms [unfolded init_cores_def]] by simp_all

lemma init_cores_total:
  assumes "worker_num H (hudp_options opt) < 2 ^ 16" "max_rpc_sessions opt \<le> 2 ^ 47"
    and "\<And>i. blank_core (new_core i)" "\<And>i. rands i < 2 ^ 32"
  shows "\<exists>cores. init_cores H opt new_core garbage own0 rands = Some cores"
proof -
  have "core_Init H opt (garbage i) own0 (rands i) i (new_core i) \<noteq> None"
    if "i < unat (worker_num H (hudp_options opt))" for i
  proof -
    have "unat (worker_num H (hudp_options opt)) \<le> 2 ^ 16 - 1"
      using assms(1) by (simp add: word_less_nat_alt)
    with that have "i < 2 ^ 16 - 1" by simp
    from Init_inv [OF CalcSessionPoolSize_unat(2) [OF assms(2)] this assms(4) [of i],
        of "(new_core i)\<lparr>rpc_core_id := i\<rparr>" "garbage i" own0 H] assms(3) [of i]
    show ?thesis by (auto simp: core_Init_def blank_core_def)
  qed
  then show ?thesis unfolding init_cores_def by (rule mfold_collect_total)
qed

lemma started_core:
  fixes s :: "('own, 'tw, 'msg, 'u, 'svc, 'z) hyper"
  assumes "started C H opt own0 s"
  shows "queues s = replicate (length (rpc_core_vec s)) []" "handed s = []" "outer_trace s = []"
    and "worker s w \<Longrightarrow> \<exists>garbage rand c0. blank_core c0 \<and> rand < 2 ^ 32 \<and> w < 2 ^ 16 - 1 \<and>
      CalcSessionPoolSize H opt \<le> 2 ^ 48 \<and> core_Init H opt garbage own0 rand w c0 = Some (rpc_core_vec s ! w)"
proof -
  from assms obtain s0 svc_name services new_core garbage rands
    where st: "Start H opt new_core garbage own0 rands True s0 = Some (True, s)"
      "s0 = snd (InitAsServer svc_name services (snd (InitAsClient (on_service_routing C) Impl_init)))"
    and ok: "worker_num H (hudp_options opt) < 2 ^ 16" "max_rpc_sessions opt \<le> 2 ^ 47"
      "\<And>i. blank_core (new_core i)" "\<And>i. rands i < 2 ^ 32"
    unfolding started_def by blast
  have other: "is_initialized (fold (\<lambda>svc s. s\<lparr>service_map := (service_map s)(svc_name svc \<mapsto> svc)\<rparr>) xs t) = is_initialized t"
    "handed (fold (\<lambda>svc s. s\<lparr>service_map := (service_map s)(svc_name svc \<mapsto> svc)\<rparr>) xs t) = handed t"
    "outer_trace (fold (\<lambda>svc s. s\<lparr>service_map := (service_map s)(svc_name svc \<mapsto> svc)\<rparr>) xs t) = outer_trace t"
    for xs and t :: "('own, 'tw, 'msg, 'u, 'svc, 'z) hyper"
    by (induction xs arbitrary: t) simp_all
  have s0: "\<not> is_initialized s0" "handed s0 = []" "outer_trace s0 = []"
    by (simp_all add: st(2) InitAsServer_def InitAsClient_def Impl_init_def other)
  with st(1) obtain cores where cores: "init_cores H opt new_core garbage own0 rands = Some cores"
    "rpc_core_vec s = cores" "queues s = replicate (length cores) []" "handed s = []" "outer_trace s = []"
    by (auto simp: Start_def split: Option.bind_splits)
  then show "queues s = replicate (length (rpc_core_vec s)) []" "handed s = []" "outer_trace s = []" by simp_all
  assume "worker s w"
  with cores(2) have w: "w < length cores" by (simp add: worker_def)
  have "unat (worker_num H (hudp_options opt)) < 2 ^ 16" using ok(1) by (simp add: word_less_nat_alt)
  with w init_cores_spec(1) [OF cores(1)] have "w < 2 ^ 16 - 1" by linarith
  with init_cores_spec(2) [OF cores(1) w] ok(3,4) CalcSessionPoolSize_unat(2) [OF ok(2)] cores(2)
  show "\<exists>garbage rand c0. blank_core c0 \<and> rand < 2 ^ 32 \<and> w < 2 ^ 16 - 1 \<and>
      CalcSessionPoolSize H opt \<le> 2 ^ 48 \<and> core_Init H opt garbage own0 rand w c0 = Some (rpc_core_vec s ! w)"
    by blast
qed

section \<open>The process invariant\<close>

fun task_closure :: "'u task \<Rightarrow> 'u closure multiset" where
  "task_closure (CallTask m rq rp f) = {#f#}"
| "task_closure _ = {#}"

fun task_buffers :: "'u task \<Rightarrow> nat" where
  "task_buffers (RedirectPacket buf a) = 1"
| "task_buffers _ = 0"

definition queued :: "('core, 'svc, 'routing, 'u) HyperRpc \<Rightarrow> 'u closure multiset" where
  "queued s = sum_list (map (\<lambda>q. sum_list (map task_closure q)) (queues s))"

definition queued_buffers :: "('core, 'svc, 'routing, 'u) HyperRpc \<Rightarrow> nat" where
  "queued_buffers s = sum_list (map (\<lambda>q. sum_list (map task_buffers q)) (queues s))"

text \<open>The closures the workers' dispatchers were given.\<close>

definition given :: "('own, 'tw, 'msg, 'u, 'svc, 'z) hyper \<Rightarrow> 'u closure multiset" where
  "given s = sum_list (map added (rpc_core_vec s))"

definition hyper_inv ::
  "('own, 'tw, 'msg, 'u closure, 'svc, 'sd, 'z) core_env \<Rightarrow> ('own, 'tw, 'msg, 'u, 'svc, 'z) hyper \<Rightarrow> bool" where
  "hyper_inv C s \<longleftrightarrow>
     is_initialized s \<and> \<not> aborted s \<and> length (queues s) = length (rpc_core_vec s) \<and>
     length (rpc_core_vec s) = unat (workers C) \<and>
     core_routing s = on_service_routing C \<and> service_map s = on_find_service C \<and>
     redirect_buffers s = queued_buffers s"

lemma core_env_of_inv: "hyper_inv C s \<Longrightarrow> core_env_of C s = C"
proof -
  assume "hyper_inv C s"
  then have "OnFindService s = on_find_service C" "core_routing s = on_service_routing C"
    by (auto simp: hyper_inv_def OnFindService_def)
  then show ?thesis by (simp add: core_env_of_def)
qed

lemma queued_update:
  assumes "w < length (queues s)"
  shows "queued (s\<lparr>queues := (queues s)[w := q]\<rparr>) + sum_list (map task_closure (queues s ! w)) =
      queued s + sum_list (map task_closure q)"
    "queued_buffers (s\<lparr>queues := (queues s)[w := q]\<rparr>) + sum_list (map task_buffers (queues s ! w)) =
      queued_buffers s + sum_list (map task_buffers q)"
  using sum_list_map_update [OF assms] by (simp_all add: queued_def queued_buffers_def)

lemma queued_post [simp]:
  assumes "w < length (queues s)"
  shows "queued (post w t s) = queued s + task_closure t"
    "queued_buffers (post w t s) = queued_buffers s + task_buffers t"
  using queued_update [OF assms, of "queues s ! w @ [t]"]
  by (simp_all add: post_def ac_simps)

lemma queued_set_core [simp]:
  "queued (set_core w core s) = queued s" "queued_buffers (set_core w core s) = queued_buffers s"
  "queues (set_core w core s) = queues s" "handed (set_core w core s) = handed s"
  "outer_trace (set_core w core s) = outer_trace s" "is_initialized (set_core w core s) = is_initialized s"
  "aborted (set_core w core s) = aborted s" "core_routing (set_core w core s) = core_routing s"
  "service_map (set_core w core s) = service_map s" "redirect_buffers (set_core w core s) = redirect_buffers s"
  "length (rpc_core_vec (set_core w core s)) = length (rpc_core_vec s)"
  by (simp_all add: set_core_def queued_def queued_buffers_def)

lemma queued_fields [simp]:
  "queued (s\<lparr>rpc_core_vec := v\<rparr>) = queued s" "queued_buffers (s\<lparr>rpc_core_vec := v\<rparr>) = queued_buffers s"
  "queued (s\<lparr>redirect_buffers := n\<rparr>) = queued s" "queued_buffers (s\<lparr>redirect_buffers := n\<rparr>) = queued_buffers s"
  "queued (s\<lparr>handed := h\<rparr>) = queued s" "queued_buffers (s\<lparr>handed := h\<rparr>) = queued_buffers s"
  "queued (s\<lparr>outer_trace := u\<rparr>) = queued s" "queued_buffers (s\<lparr>outer_trace := u\<rparr>) = queued_buffers s"
  by (simp_all add: queued_def queued_buffers_def)

lemma post_simps [simp]:
  "rpc_core_vec (post w t s) = rpc_core_vec s" "handed (post w t s) = handed s"
  "outer_trace (post w t s) = outer_trace s" "is_initialized (post w t s) = is_initialized s"
  "aborted (post w t s) = aborted s" "core_routing (post w t s) = core_routing s"
  "service_map (post w t s) = service_map s" "redirect_buffers (post w t s) = redirect_buffers s"
  "length (queues (post w t s)) = length (queues s)"
  by (simp_all add: post_def)

section \<open>Each step is a step of one worker\<close>

definition one_core_step ::
  "('core \<Rightarrow> 'core \<Rightarrow> bool) \<Rightarrow> ('core, 'svc, 'routing, 'u) HyperRpc \<Rightarrow>
   ('core, 'svc, 'routing, 'u) HyperRpc \<Rightarrow> bool" where
  "one_core_step R s s' \<longleftrightarrow>
     rpc_core_vec s' = rpc_core_vec s \<or>
     (\<exists>w core'. worker s w \<and> R (rpc_core_vec s ! w) core' \<and>
        rpc_core_vec s' = (rpc_core_vec s)[w := core'])"

lemma one_core_stepI:
  "worker s w \<Longrightarrow> R (rpc_core_vec s ! w) core' \<Longrightarrow>
   rpc_core_vec s' = (rpc_core_vec s)[w := core'] \<Longrightarrow> one_core_step R s s'"
  by (auto simp: one_core_step_def)

lemma one_core_step_mono:
  "one_core_step R s s' \<Longrightarrow> (\<And>c c'. R c c' \<Longrightarrow> R' c c') \<Longrightarrow> one_core_step R' s s'"
  by (auto simp: one_core_step_def)

text \<open>The worker an id names exists.\<close>

lemma core_id_bound: "GetCoreIdFromRpcId C rid = Some k \<Longrightarrow> k < unat (workers C)"
proof -
  assume a: "GetCoreIdFromRpcId C rid = Some k"
  let ?p = "drop_bit kRpcIdSeqPartBits rid"
  from a have "?p \<noteq> 0" "unat ?p \<le> unat (workers C)" "k = unat (?p - 1)"
    by (auto simp: GetCoreIdFromRpcId_def Let_def word_le_nat_alt not_less split: if_splits)
  moreover from this(1) have "unat (?p - 1) = unat ?p - 1" "unat ?p \<noteq> 0"
    by (simp_all add: unat_minus_one unat_eq_0)
  ultimately show ?thesis by linarith
qed

locale hyper_callbacks =
  fixes C :: "('own, 'tw, 'msg, 'u closure, 'svc, 'sd, 'z) core_env"
  assumes callbacks: "core_callbacks C k"
begin

lemma worker_number: "core_reachable C w core \<Longrightarrow> rpc_core_id core = w"
  using core_callbacks.reachable_core_inv [OF callbacks] by (simp add: core_inv_def context_inv_def)

lemma failed_target:
  assumes "OnSendPacketFailed C ctx core = (dst, core')"
  shows "dst = rpc_core_id core \<or> dst < unat (workers C)"
  using assms core_id_bound
  by (auto simp: OnSendPacketFailed_def Let_def split: if_splits option.splits)

lemma event_sim:
  assumes "hyper_event C s s'" and inv: "hyper_inv C s"
    and ids: "\<And>w. worker s w \<Longrightarrow> rpc_core_id (rpc_core_vec s ! w) = w"
  shows "hyper_inv C s' \<and> one_core_step (core_event C) s s'"
proof -
  note env = core_env_of_inv [OF inv]
  have q: "w < length (queues s)" if "worker s w" for w
    using inv that by (simp add: hyper_inv_def worker_def)
  show ?thesis
    using assms(1)
  proof cases
    case (hyper_packet w buf a accepted)
    let ?core = "rpc_core_vec s ! w"
    obtain dst core' where d: "OnRecvPacket C buf a ?core = (dst, core')" by force
    have "core_event C ?core core'" using event_packet [of C ?core buf a] d by simp
    with hyper_packet inv d env q show ?thesis
      by (auto simp: Impl_OnRecvPacket_def worker_def hyper_inv_def Let_def set_core_def
          intro!: one_core_stepI)
  next
    case (hyper_sent w accepted success ctx)
    let ?core = "rpc_core_vec s ! w"
    obtain dst core' where d: "OnSendPacketFailed C ctx ?core = (dst, core')" by force
    have "core_event C ?core core'" using event_failed [of C ?core ctx] d by simp
    moreover have "dst < length (queues s)" if "dst \<noteq> w"
      using failed_target [OF d] ids [OF hyper_sent(2)] inv that by (auto simp: hyper_inv_def)
    ultimately show ?thesis
      using hyper_sent inv d env
      by (auto simp: Impl_OnSentResult_def worker_def hyper_inv_def Let_def set_core_def one_core_step_def
          intro!: exI [of _ w])
  next
    case (hyper_answer w c r)
    with inv env event_answer [of "rpc_core_vec s ! w" c C r] show ?thesis
      by (auto simp: hyper_inv_def set_core_def intro!: one_core_stepI)
  next
    case (hyper_write w ms)
    with inv env event_write show ?thesis
      by (auto simp: hyper_inv_def set_core_def intro!: one_core_stepI)
  next
    case (hyper_call_in w m rq rp d)
    show ?thesis
    proof (cases d)
      case None
      with hyper_call_in inv show ?thesis
        by (simp add: Impl_CallMethod_def hyper_inv_def one_core_step_def)
    next
      case (Some u)
      from Some hyper_call_in inv env event_call [of C "rpc_core_vec s ! w" m rq rp "User u"]
      show ?thesis
        by (auto simp: Impl_CallMethod_def hyper_inv_def set_core_def intro!: one_core_stepI)
    qed
  next
    case (hyper_call_out acc th m rq rp d)
    with inv q show ?thesis
      by (auto simp: Impl_CallMethod_def hyper_inv_def Let_def one_core_step_def split: option.split)
  qed
qed

lemma task_sim:
  assumes w: "worker s w" and inv: "hyper_inv C s"
  shows "hyper_inv C (run_task C w s) \<and> one_core_step (core_event C) s (run_task C w s)"
proof (cases "queues s ! w")
  case Nil
  with inv show ?thesis by (simp add: run_task_def one_core_step_def)
next
  case (Cons t ts)
  note env = core_env_of_inv [OF inv]
  let ?s1 = "s\<lparr>queues := (queues s)[w := ts]\<rparr>"
  have "w < length (queues s)" using inv w by (simp add: hyper_inv_def worker_def)
  from queued_update(2) [OF this, of ts] Cons
  have b: "queued_buffers ?s1 + task_buffers t = queued_buffers s" by simp
  show ?thesis
    using w inv env b Cons event_packet event_failed event_call
    by (cases t)
      (auto simp: run_task_def hyper_inv_def set_core_def Let_def intro!: one_core_stepI)
qed

lemma step_sim:
  assumes "hyper_step C s s'" and inv: "hyper_inv C s"
    and ids: "\<And>w. worker s w \<Longrightarrow> rpc_core_id (rpc_core_vec s ! w) = w"
  shows "hyper_inv C s' \<and> one_core_step (core_step C) s s'"
  using assms(1)
proof cases
  case hyper_happens
  from event_sim [OF this inv ids] show ?thesis
    by (auto elim: one_core_step_mono intro: core_happens)
next
  case (hyper_task w)
  from task_sim [OF this(2) inv] this(1) show ?thesis
    by (auto elim: one_core_step_mono intro: core_happens)
next
  case (hyper_timer w i)
  with inv core_env_of_inv [OF inv] core_timer show ?thesis
    by (auto simp: hyper_inv_def set_core_def intro!: one_core_stepI)
next
  case (hyper_pass w tw)
  with inv core_pass show ?thesis
    by (auto simp: hyper_inv_def set_core_def intro!: one_core_stepI)
qed

lemma reachable_hyper_inv:
  assumes "hyper_reachable C H opt s"
  shows "hyper_inv C s \<and> (\<forall>w. worker s w \<longrightarrow> core_reachable C w (rpc_core_vec s ! w))"
  using assms
proof (induction rule: hyper_reachable.induct)
  case (hyper_start s0 svc_name services new_core rands garbage own0 s)
  have fold_other: "is_initialized (fold (\<lambda>svc s. s\<lparr>service_map := (service_map s)(svc_name svc \<mapsto> svc)\<rparr>) xs t) =
      is_initialized t \<and>
    aborted (fold (\<lambda>svc s. s\<lparr>service_map := (service_map s)(svc_name svc \<mapsto> svc)\<rparr>) xs t) = aborted t \<and>
    client_routing (fold (\<lambda>svc s. s\<lparr>service_map := (service_map s)(svc_name svc \<mapsto> svc)\<rparr>) xs t) = client_routing t \<and>
    redirect_buffers (fold (\<lambda>svc s. s\<lparr>service_map := (service_map s)(svc_name svc \<mapsto> svc)\<rparr>) xs t) = redirect_buffers t"
    for xs and t :: "('own, 'tw, 'msg, 'u, 'svc, 'z) hyper"
    by (induction xs arbitrary: t) simp_all
  have s0: "\<not> is_initialized s0" "\<not> aborted s0" "client_routing s0 = on_service_routing C"
    "redirect_buffers s0 = 0"
    by (simp_all add: hyper_start(1) InitAsServer_def InitAsClient_def Impl_init_def fold_other)
  from hyper_start(8) s0(1) obtain cores where cores: "init_cores H opt new_core garbage own0 rands = Some cores"
    and s: "s = s0\<lparr>is_initialized := True, rpc_core_vec := cores,
      core_routing := client_routing s0, queues := replicate (length cores) []\<rparr>"
    by (auto simp: Start_def split: Option.bind_splits)
  note spec = init_cores_spec [OF cores]
  have "core_reachable C w (cores ! w)" if "w < length cores" for w
  proof (rule core_Init_reachable [OF hyper_start(6) hyper_start(5) _ hyper_start(7) spec(2) [OF that]])
    have "unat (worker_num H (hudp_options opt)) < 2 ^ 16"
      using hyper_start(4) by (simp add: word_less_nat_alt)
    with that spec(1) show "w < 2 ^ 16 - 1" by linarith
  qed
  with s0 hyper_start(2,3) spec(1) show ?case
    by (simp add: s hyper_inv_def worker_def queued_buffers_def sum_list_map_0)
next
  case (hyper_next s s')
  then have inv: "hyper_inv C s" and cores: "\<And>w. worker s w \<Longrightarrow> core_reachable C w (rpc_core_vec s ! w)"
    by auto
  from step_sim [OF hyper_next(2) inv worker_number [OF cores]]
  have "hyper_inv C s'" and one: "one_core_step (core_step C) s s'" by auto
  moreover have "core_reachable C w (rpc_core_vec s' ! w)" if "worker s' w" for w
    using one unfolding one_core_step_def
  proof (elim disjE exE conjE)
    fix v core'
    assume v: "worker s v" "core_step C (rpc_core_vec s ! v) core'"
      "rpc_core_vec s' = (rpc_core_vec s)[v := core']"
    with that cores core_next [OF cores [OF v(1)] v(2)] show ?thesis
      by (cases "w = v") (auto simp: worker_def)
  next
    assume "rpc_core_vec s' = rpc_core_vec s"
    with that cores show ?thesis by (simp add: worker_def)
  qed
  ultimately show ?case by blast
qed

end

lemma nested_hyper_callbacks: "hyper_callbacks (nested_core (lawful B) U n)"
  by unfold_locales

interpretation process: hyper_callbacks "nested_core (lawful B) U n" for B U n
  by (rule nested_hyper_callbacks)

section \<open>No closure is lost on the way to a worker\<close>

definition handed_over :: "('own, 'tw, 'msg, 'u, 'svc, 'z) hyper \<Rightarrow> bool" where
  "handed_over s \<longleftrightarrow>
     mset (handed s) \<subseteq># given s + queued s + mset (map fst (outer_trace s))"

lemma added_prefix: "prefix (trace s) (trace s') \<Longrightarrow> added s \<subseteq># added s'"
  by (auto simp: prefix_def added_def)

lemma given_set_core:
  assumes "worker s w" and "added (rpc_core_vec s ! w) + X \<subseteq># added core"
  shows "given s + X \<subseteq># given (set_core w core s)"
proof -
  from assms(2) obtain Y where Y: "added core = added (rpc_core_vec s ! w) + X + Y"
    by (auto simp: mset_subset_eq_exists_conv)
  have "given (set_core w core s) + added (rpc_core_vec s ! w) = given s + added core"
    using sum_list_map_update [of w "rpc_core_vec s" added core] assms(1)
    by (simp add: given_def set_core_def worker_def)
  then have "given (set_core w core s) = given s + X + Y" by (simp add: Y ac_simps)
  then show ?thesis by simp
qed

lemma given_fields [simp]:
  "given (post w t s) = given s" "given (s\<lparr>queues := q\<rparr>) = given s"
  "given (s\<lparr>handed := h\<rparr>) = given s" "given (s\<lparr>redirect_buffers := n\<rparr>) = given s"
  "given (s\<lparr>outer_trace := u\<rparr>) = given s"
  by (simp_all add: given_def post_def)

lemma handed_over_add:
  assumes "handed_over s" and "mset (handed s') = mset (handed s) + X" "outer_trace s' = outer_trace s"
    and le: "given s + queued s + X \<subseteq># given s' + queued s'"
  shows "handed_over s'"
proof -
  let ?o = "mset (map fst (outer_trace s))"
  have "mset (handed s) + X \<subseteq># given s + queued s + ?o + X"
    using assms(1) by (simp add: handed_over_def)
  also have "\<dots> = given s + queued s + X + ?o" by (simp add: ac_simps)
  also have "\<dots> \<subseteq># given s' + queued s' + ?o" using le by (rule subset_mset.add_right_mono)
  finally show ?thesis using assms(2,3) by (simp add: handed_over_def)
qed

lemma handed_over_more:
  assumes "handed_over s" and "handed s' = handed s" "outer_trace s' = outer_trace s"
    and "given s + queued s \<subseteq># given s' + queued s'"
  shows "handed_over s'"
  using assms by (intro handed_over_add [of s s' "{#}"]) simp_all

lemma given_set_core_fields [simp]:
  "given (set_core w core (s\<lparr>queues := q\<rparr>)) = given (set_core w core s)"
  "given (set_core w core (s\<lparr>handed := h\<rparr>)) = given (set_core w core s)"
  "given (set_core w core (s\<lparr>redirect_buffers := n\<rparr>)) = given (set_core w core s)"
  by (simp_all add: given_def set_core_def)

context hyper_callbacks
begin

lemma core_event_added: "core_event C core core' \<Longrightarrow> added core \<subseteq># added core'"
  using core_callbacks.event_advances [OF callbacks, of core core' 0]
  by (simp add: advances_def added_prefix)

lemma CallMethod_added: "add_mset d (added core) \<subseteq># added (CallMethod C m rq rp d core)"
proof -
  obtain es k where "prefix (trace core @ es @ [EvAdd d k]) (trace (CallMethod C m rq rp d core))"
    using core_callbacks.CallMethod_adds [OF callbacks] by blast
  then show ?thesis by (auto simp: prefix_def added_def)
qed

lemma given_step:
  assumes "worker s w" and "prefix (trace (rpc_core_vec s ! w)) (trace core)"
  shows "given s \<subseteq># given (set_core w core s)"
  using given_set_core [OF assms(1), of "{#}"] added_prefix [OF assms(2)] by simp

lemma given_event:
  assumes "worker s w" and "core_event C (rpc_core_vec s ! w) core"
  shows "given s \<subseteq># given (set_core w core s)"
  using given_set_core [OF assms(1), of "{#}"] core_event_added [OF assms(2)] by simp

lemma event_handed_over:
  assumes "hyper_event C s s'" and inv: "hyper_inv C s" and ho: "handed_over s"
    and ids: "\<And>w. worker s w \<Longrightarrow> rpc_core_id (rpc_core_vec s ! w) = w"
  shows "handed_over s'"
proof -
  note env = core_env_of_inv [OF inv]
  have q: "w < length (queues s)" if "worker s w" for w
    using inv that by (simp add: hyper_inv_def worker_def)
  show ?thesis
    using assms(1)
  proof cases
    case (hyper_packet w buf a accepted)
    obtain dst core' where d: "OnRecvPacket C buf a (rpc_core_vec s ! w) = (dst, core')" by force
    then have "given s \<subseteq># given (set_core w core' s)"
      using given_event hyper_packet(2) event_packet [of C "rpc_core_vec s ! w" buf a] by simp
    with hyper_packet d env q inv show ?thesis
      by (auto simp: Impl_OnRecvPacket_def Let_def worker_def hyper_inv_def intro!: handed_over_more [OF ho])
  next
    case (hyper_sent w accepted success ctx)
    obtain dst core' where d: "OnSendPacketFailed C ctx (rpc_core_vec s ! w) = (dst, core')" by force
    then have "given s \<subseteq># given (set_core w core' s)"
      using given_event hyper_sent(2) event_failed [of C "rpc_core_vec s ! w" ctx] by simp
    moreover have "dst < length (queues s)" if "dst \<noteq> w"
      using failed_target [OF d] ids [OF hyper_sent(2)] inv that by (auto simp: hyper_inv_def)
    ultimately show ?thesis
      using hyper_sent d env inv ho
      by (auto simp: Impl_OnSentResult_def Let_def worker_def hyper_inv_def intro!: handed_over_more [OF ho])
  next
    case (hyper_answer w c r)
    with env given_event [OF hyper_answer(2) event_answer] show ?thesis
      by (auto intro!: handed_over_more [OF ho])
  next
    case (hyper_write w ms)
    with env given_event [OF hyper_write(2) event_write] show ?thesis
      by (auto intro!: handed_over_more [OF ho])
  next
    case (hyper_call_in w m rq rp d)
    show ?thesis
    proof (cases d)
      case None
      with hyper_call_in inv ho show ?thesis by (simp add: Impl_CallMethod_def hyper_inv_def)
    next
      case (Some u)
      have "given s + {#User u#} \<subseteq># given (set_core w (CallMethod C m rq rp (User u) (rpc_core_vec s ! w)) s)"
        using hyper_call_in(2) CallMethod_added [of "User u"] by (intro given_set_core) simp_all
      then have "handed_over (set_core w (CallMethod C m rq rp (User u) (rpc_core_vec s ! w))
          (s\<lparr>handed := handed s @ [User u]\<rparr>))"
        by (intro handed_over_add [OF ho, of _ "{#User u#}"]) simp_all
      with Some hyper_call_in inv env show ?thesis
        by (simp add: Impl_CallMethod_def hyper_inv_def)
    qed
  next
    case (hyper_call_out acc th m rq rp d)
    with inv q ho show ?thesis
      by (auto simp: Impl_CallMethod_def hyper_inv_def Let_def handed_over_def add.assoc
          split: option.split)
  qed
qed

text \<open>A worker that takes a task is given its closure.\<close>

lemma task_gives:
  assumes w: "worker s w" and inv: "hyper_inv C s" and q: "queues s ! w = t # ts"
  shows "\<exists>core. rpc_core_vec (run_task C w s) = (rpc_core_vec s)[w := core] \<and>
    core_event C (rpc_core_vec s ! w) core \<and>
    added (rpc_core_vec s ! w) + task_closure t \<subseteq># added core \<and>
    queues (run_task C w s) = (queues s)[w := ts] \<and> handed (run_task C w s) = handed s \<and>
    outer_trace (run_task C w s) = outer_trace s"
proof -
  note env = core_env_of_inv [OF inv]
  note simps = run_task_def q env set_core_def Let_def
  show ?thesis
  proof (cases t)
    case (RedirectPacket buf a)
    with core_event_added [OF event_packet] event_packet show ?thesis
      by (intro exI [of _ "snd (OnRecvPacket C buf a (rpc_core_vec s ! w))"]) (simp add: simps)
  next
    case (RedirectFailed ctx)
    with core_event_added [OF event_failed] event_failed show ?thesis
      by (intro exI [of _ "snd (OnSendPacketFailed C ctx (rpc_core_vec s ! w))"]) (simp add: simps)
  next
    case (CallTask m rq rp f)
    with CallMethod_added event_call show ?thesis
      by (intro exI [of _ "CallMethod C m rq rp f (rpc_core_vec s ! w)"]) (simp add: simps)
  qed
qed

lemma task_handed_over:
  assumes w: "worker s w" and inv: "hyper_inv C s" and ho: "handed_over s"
  shows "handed_over (run_task C w s)"
proof (cases "queues s ! w")
  case Nil
  with ho show ?thesis by (simp add: run_task_def)
next
  case (Cons t ts)
  let ?s' = "run_task C w s"
  from task_gives [OF w inv Cons] obtain core where core:
    "rpc_core_vec ?s' = (rpc_core_vec s)[w := core]" "queues ?s' = (queues s)[w := ts]"
    "added (rpc_core_vec s ! w) + task_closure t \<subseteq># added core"
    "handed ?s' = handed s" "outer_trace ?s' = outer_trace s" by blast
  have "w < length (queues s)" using inv w by (simp add: hyper_inv_def worker_def)
  from queued_update(1) [OF this, of ts] Cons
  have b: "queued ?s' + task_closure t = queued s"
    by (simp add: queued_def core(2) ac_simps)
  have "given s + task_closure t \<subseteq># given ?s'"
    using given_set_core [OF w core(3)] core(1) by (simp add: given_def set_core_def)
  then have "given s + task_closure t + queued ?s' \<subseteq># given ?s' + queued ?s'"
    by (rule subset_mset.add_right_mono)
  with core(4,5) show ?thesis
    by (intro handed_over_more [OF ho]) (simp_all add: ac_simps flip: b)
qed

lemma step_handed_over:
  assumes "hyper_step C s s'" and inv: "hyper_inv C s" and ho: "handed_over s"
    and ids: "\<And>w. worker s w \<Longrightarrow> rpc_core_id (rpc_core_vec s ! w) = w"
  shows "handed_over s'"
  using assms(1)
proof cases
  case hyper_happens
  then show ?thesis using inv ho ids by (rule event_handed_over)
next
  case (hyper_task w)
  then show ?thesis using task_handed_over [OF _ inv ho] by simp
next
  case (hyper_timer w i)
  have "prefix (trace (rpc_core_vec s ! w)) (trace (OnTimer C i (rpc_core_vec s ! w)))"
    using core_callbacks.OnTimer_advances [OF callbacks hyper_timer(3)] by (simp add: advances_def)
  from given_step [OF hyper_timer(2) this] hyper_timer core_env_of_inv [OF inv] show ?thesis
    by (auto intro!: handed_over_more [OF ho])
next
  case (hyper_pass w tw)
  from given_step [OF hyper_pass(2), of "(rpc_core_vec s ! w)\<lparr>timerw := tw\<rparr>"] hyper_pass show ?thesis
    by (auto intro!: handed_over_more [OF ho])
qed

lemma reachable_handed_over: "hyper_reachable C H opt s \<Longrightarrow> handed_over s"
proof (induction rule: hyper_reachable.induct)
  case (hyper_start s0 svc_name services new_core rands garbage own0 s)
  have "handed (fold (\<lambda>svc s. s\<lparr>service_map := (service_map s)(svc_name svc \<mapsto> svc)\<rparr>) xs t) = handed t"
    for xs and t :: "('own, 'tw, 'msg, 'u, 'svc, 'z) hyper"
    by (induction xs arbitrary: t) simp_all
  then have "handed s0 = []"
    by (simp add: hyper_start(1) InitAsServer_def InitAsClient_def Impl_init_def)
  with hyper_start(8) have "handed s = []"
    by (auto simp: Start_def split: Option.bind_splits if_splits)
  then show ?case by (simp add: handed_over_def)
next
  case (hyper_next s s')
  from reachable_hyper_inv [OF hyper_next(1)] have "hyper_inv C s"
    "\<And>w. worker s w \<Longrightarrow> rpc_core_id (rpc_core_vec s ! w) = w"
    using worker_number by blast+
  from step_handed_over [OF hyper_next(2) this(1) hyper_next.IH this(2)] show ?case .
qed

end

end
