(* ===== verification/HyperProperties.thy ===== *)
theory HyperProperties
  imports HyperRuns
begin

text \<open>
  The properties of the whole process, and a small instance of it.
\<close>

section \<open>A concrete instance\<close>

type_synonym demo_hyper = "(bool, nat list, byte list, nat, unit, unit) hyper"

abbreviation demo_env_of :: "bool \<Rightarrow> nat \<Rightarrow>
    (bool, nat list, byte list, nat closure, unit, unit, unit) core_env" where
  "demo_env_of arenas n \<equiv> nested_core (demo_base_of arenas) demo_user_of n"

abbreviation "demo_options \<equiv> \<lparr>hudp_options = 4, max_rpc_sessions = 40, rpc_timeout_opt = 1\<rparr>"

text \<open>A process of four workers, just started.\<close>

lemma demo_process:
  obtains s :: demo_hyper where "hyper_reachable (demo_env_of arenas n) demo_hudp demo_options s"
    "length (rpc_core_vec s) = 4" "queues s = replicate 4 []" "is_initialized s"
    "handed s = []" "outer_trace s = []"
    "\<And>w. w < 4 \<Longrightarrow> core_inv w (rpc_core_vec s ! w) \<and> msgs (rpc_core_vec s ! w) = (\<lambda>_. [1]) \<and>
       (\<forall>i<length (sess_pool (rpc_core_vec s ! w)). rpc_id (sess_pool (rpc_core_vec s ! w) ! i) = 0) \<and>
       sent (rpc_core_vec s ! w) = [] \<and> served (rpc_core_vec s ! w) = [] \<and> trace (rpc_core_vec s ! w) = []"
    "started (demo_env_of arenas n) demo_hudp demo_options False s"
proof -
  let ?C = "demo_env_of arenas n"
  let ?blank = "\<lambda>i. demo_blank_core_of :: nat closure demo_core_of"
  let ?s0 = "snd (InitAsServer (\<lambda>_. ''TestService'') [()]
    (snd (InitAsClient (on_service_routing ?C) Impl_init))) :: demo_hyper"
  have C: "on_find_service ?C = service_map ?s0" "workers ?C = worker_num demo_hudp (hudp_options demo_options)"
    by (cases n; auto simp: user_env_def demo_base_of_def InitAsServer_def InitAsClient_def Impl_init_def
        demo_hudp_def fun_eq_iff)+
  have small: "worker_num demo_hudp (hudp_options demo_options) < 2 ^ 16"
    "max_rpc_sessions demo_options \<le> 2 ^ 47" by (simp_all add: demo_hudp_def)
  have blank: "blank_core (?blank i)" for i
    by (simp add: blank_core_def demo_blank_core_of_def)
  obtain cores where cores: "init_cores demo_hudp demo_options ?blank (\<lambda>_. undefined) False (\<lambda>_. 0) = Some cores"
    using init_cores_total [OF small blank, of "\<lambda>_. 0"] by auto
  note len = init_cores_spec(1) [OF cores]
  have "Start demo_hudp demo_options ?blank (\<lambda>_. undefined) False (\<lambda>_. 0) True ?s0 =
      Some (True, ?s0\<lparr>is_initialized := True, rpc_core_vec := cores,
        core_routing := client_routing ?s0, queues := replicate (length cores) []\<rparr>)"
    using cores by (simp add: Start_def InitAsServer_def InitAsClient_def Impl_init_def)
  with C small blank have start: "started ?C demo_hudp demo_options False (?s0\<lparr>is_initialized := True,
      rpc_core_vec := cores, core_routing := client_routing ?s0, queues := replicate (length cores) []\<rparr>)"
    unfolding started_def
    by (intro exI [of _ ?s0] exI [of _ "\<lambda>_. ''TestService''"] exI [of _ "[()]"] exI [of _ ?blank]
        exI [of _ "\<lambda>_. undefined"] exI [of _ "\<lambda>_. 0"]) simp
  have cores4: "core_inv w (cores ! w) \<and> msgs (cores ! w) = (\<lambda>_. [1]) \<and>
      (\<forall>i<length (sess_pool (cores ! w)). rpc_id (sess_pool (cores ! w) ! i) = 0) \<and>
      sent (cores ! w) = [] \<and> served (cores ! w) = [] \<and> trace (cores ! w) = []" if "w < 4" for w
  proof -
    from that len have w: "w < length cores" "w < 2 ^ 16 - 1" by (simp_all add: demo_hudp_def)
    note I = init_cores_spec(2) [OF cores w(1), unfolded core_Init_def]
    have "(0 :: u64) < 2 ^ 32" by simp
    note init = core_Init_inv [OF blank CalcSessionPoolSize_unat(2) [OF small(2)] w(2) this I]
    have "msgs (cores ! w) = (\<lambda>_. [1])" "trace (cores ! w) = []"
      using Init_msgs [OF I] Init_trace [OF I] by (simp_all add: demo_blank_core_of_def)
    with init show ?thesis by blast
  qed
  show thesis
    by (rule that [OF started_reachable [OF start] _ _ _ _ _ _ start])
      (use cores4 in \<open>simp_all add: len demo_hudp_def InitAsServer_def InitAsClient_def Impl_init_def\<close>)
qed

text \<open>The same, and after one call on worker 1, which has sent its request to (1, 1).\<close>

lemma demo_process_sends:
  obtains s0 s :: demo_hyper and i n pkt where "started (demo_env_of arenas 0) demo_hudp demo_options False s0"
    "\<And>P. hyper_step_from P (demo_env_of arenas 0) s0 s" "sent (rpc_core_vec s ! 1) = [(pkt, (1, 1), rpc_id n)]"
    "parse_packet demo_rpc_pb pkt = Some (request_header demo_method (rpc_id n), [1])"
    "hyper_reachable (demo_env_of arenas 0) demo_hudp demo_options s"
    "length (rpc_core_vec s) = 4" "queues s = replicate 4 []"
    "core_inv 1 (rpc_core_vec s ! 1)" "live_at (rpc_core_vec s ! 1) i n" "node_method n = demo_method"
    "node_done n = Some (User 7)" "rpc_core_id (rpc_core_vec s ! 3) = 3"
proof -
  let ?C = "demo_env_of arenas 0"
  obtain s0 :: demo_hyper where s0: "hyper_reachable ?C demo_hudp demo_options s0"
    "length (rpc_core_vec s0) = 4" "queues s0 = replicate 4 []" "is_initialized s0"
    and c: "\<And>w. w < 4 \<Longrightarrow> core_inv w (rpc_core_vec s0 ! w) \<and> msgs (rpc_core_vec s0 ! w) = (\<lambda>_. [1]) \<and>
       (\<forall>i<length (sess_pool (rpc_core_vec s0 ! w)). rpc_id (sess_pool (rpc_core_vec s0 ! w) ! i) = 0) \<and>
       sent (rpc_core_vec s0 ! w) = []"
    and start: "started ?C demo_hudp demo_options False s0"
    by (rule demo_process) blast
  let ?c = "rpc_core_vec s0 ! 1"
  have inv: "mgr_inv 1 ?c" using c [of 1] by (simp add: core_inv_def)
  have "0 < length (sess_pool ?c)" using mgr_invD(1) [OF inv] by (simp add: geometry_ok_def)
  with c [of 1] have free: "0 < length (sess_pool ?c)" "rpc_id (sess_pool ?c ! 0) = 0" by auto
  obtain i rid l tw own pkt where a: "i < length (sess_pool ?c)" "rpc_id (sess_pool ?c ! i) = 0"
    "core_part rid = Suc 1" "ring_slot (pool_size_order ?c) rid = i" "el_wf l" "el_list l = (1, 1) # [(2, 2)]"
    "parse_packet (pb (demo_base_of arenas)) pkt = Some (request_header demo_method rid, [1])"
    "CallMethod (idle_env (demo_base_of arenas) demo_user_of) demo_method 1 2 (User 7) ?c =
      ?c\<lparr>next_rpc_id := rid, timerw := tw,
        sess_pool := (sess_pool ?c)[i := filled demo_method 1 2 l (User 7) rid own (sess_pool ?c ! i)],
        trace := trace ?c @ [EvAdd (User 7) (Suc (length [(2 :: u32, 2 :: u16)])), EvSend demo_method 1 rid (1, 1)],
        sent := sent ?c @ [(pkt, (1, 1), rid)]\<rparr>"
    by (rule client_call [OF inv free, where U = demo_user_of and B = "demo_base_of arenas" and m = demo_method
          and rq = 1 and rp = 2 and a = "(1, 1)" and as = "[(2, 2)]" and b = "[1]" and d = "User 7"])
      (use c [of 1] in \<open>auto simp: demo_user_of_def demo_base_of_def intro: demo_carries\<close>)
  define s1 where "s1 = snd (Impl_CallMethod ?C (InWorker 1) None demo_method 1 2 (Some 7) s0)"
  have step: "hyper_step_from P ?C s0 s1" for P unfolding s1_def using s0(2) by (intro hyper_happens hyper_call_in) (simp add: worker_def)
  have reach: "hyper_reachable ?C demo_hudp demo_options s1" using s0(1) step by (rule hyper_next)
  have env: "core_env_of ?C s0 = ?C"
    using process.reachable_hyper_inv [of "demo_base_of arenas" demo_user_of 0 demo_hudp demo_options s0] s0(1)
    by (simp add: lawful_id [OF demo_sizes] core_env_of_inv)
  have s: "s1 = set_core 1 (CallMethod (idle_env (demo_base_of arenas) demo_user_of) demo_method 1 2 (User 7) ?c)
      (s0\<lparr>handed := handed s0 @ [User 7]\<rparr>)"
    using s0(4) env by (simp add: s1_def Impl_CallMethod_def)
  have "worker s1 1" using s0(2) by (simp add: worker_def s)
  with process.reachable_hyper_inv [of "demo_base_of arenas" demo_user_of 0, unfolded lawful_id [OF demo_sizes], OF reach]
  have "core_reachable ?C 1 (rpc_core_vec s1 ! 1)" by blast
  then have "core_inv 1 (rpc_core_vec s1 ! 1)"
    using user.reachable_core_inv [of "demo_base_of arenas" demo_user_of 0, unfolded lawful_id [OF demo_sizes]]
    by blast
  moreover have "rid \<noteq> 0" using a(3) by auto
  then have "live_at (rpc_core_vec s1 ! 1) i (filled demo_method 1 2 l (User 7) rid own (sess_pool ?c ! i))"
    using a(1,8) s0(2) by (simp add: s live_at_def filled_def set_core_def)
  moreover have "rpc_core_id (rpc_core_vec s1 ! 3) = 3"
    using c [of 3] s0(2) by (simp add: s set_core_def core_inv_def context_inv_def)
  moreover have "sent (rpc_core_vec s1 ! 1) = [(pkt, (1, 1), rid)]" using c [of 1] a(8) s0(2) by (simp add: s set_core_def)
  ultimately show thesis
    using reach s0(2,3) a(7) start step
    by (intro that [of s0 s1 pkt "filled demo_method 1 2 l (User 7) rid own (sess_pool ?c ! i)" i])
      (simp_all add: s filled_def demo_base_of_def)
qed

lemma demo_process_called:
  obtains s :: demo_hyper and i n where "hyper_reachable (demo_env_of arenas 0) demo_hudp demo_options s"
    "length (rpc_core_vec s) = 4" "queues s = replicate 4 []"
    "core_inv 1 (rpc_core_vec s ! 1)" "live_at (rpc_core_vec s ! 1) i n" "node_method n = demo_method"
    "node_done n = Some (User 7)" "rpc_core_id (rpc_core_vec s ! 3) = 3"
  by (rule demo_process_sends) (rule that)

section \<open>Every worker behaves as a worker alone\<close>

text \<open>C4: the process refines its workers: in every state of a process started with at most 65535
  workers and reached by any interleaving of packets, send results, timers, tasks, answers and
  calls, worker \<open>w\<close>'s dispatcher is in a state it can reach on its own, under the environment
  \<open>Start\<close> gave it. No assert has failed, there are as many workers as configured, and the
  buffers allocated for redirected packets are exactly those of the queued redirections.\<close>

theorem process_refines_workers:
  assumes "sizes_agree (pb B)" and "hyper_reachable (nested_core B U depth) H opt s"
  shows "\<not> aborted s \<and> length (rpc_core_vec s) = unat (workers B) \<and>
    redirect_buffers s = queued_buffers s \<and>
    (\<forall>w < length (rpc_core_vec s). core_reachable (nested_core B U depth) w (rpc_core_vec s ! w))"
proof -
  have "hyper_reachable (nested_core (lawful B) U depth) H opt s"
    using assms by (simp add: lawful_id)
  from process.reachable_hyper_inv [OF this] assms(1) show ?thesis
    by (cases depth) (auto simp: hyper_inv_def worker_def lawful_id)
qed

theorem process_refines_workers_witness:
  "\<exists>s :: demo_hyper. core_reachable (demo_env_of True 1) 3 (rpc_core_vec s ! 3) \<and> length (rpc_core_vec s) = 4"
proof -
  obtain s :: demo_hyper where "hyper_reachable (demo_env_of True 1) demo_hudp demo_options s"
    "length (rpc_core_vec s) = 4" by (rule demo_process)
  with process_refines_workers [OF demo_sizes this(1)] show ?thesis
    by (intro exI [of _ s]) simp
qed

text \<open>C5: no call is lost on its way: in every reachable state each closure handed to
  \<open>HyperRpc::CallMethod\<close> has been called (by a worker, or by the caller's thread when
  the queue was full), or waits in a session or in a worker's queue, or is among those dropped
  for an oversized route.\<close>

theorem process_closures_accounted:
  assumes "sizes_agree (pb B)" and "hyper_reachable (nested_core B U depth) H opt s"
  shows "mset (handed s) \<subseteq>#
    sum_list (map (\<lambda>core. answered core + pending core + dropped core) (rpc_core_vec s)) +
    queued s + mset (map fst (outer_trace s))"
proof -
  have r: "hyper_reachable (nested_core (lawful B) U depth) H opt s"
    using assms by (simp add: lawful_id)
  have "added core = answered core + pending core + dropped core" if "core \<in> set (rpc_core_vec s)" for core
  proof -
    from that obtain w where "worker s w" "core = rpc_core_vec s ! w"
      by (auto simp: in_set_conv_nth worker_def)
    with process.reachable_hyper_inv [OF r] have "core_reachable (nested_core (lawful B) U depth) w core"
      by auto
    from user.reachable_core_inv [OF this] show ?thesis by (simp add: owes_def)
  qed
  then have "given s = sum_list (map (\<lambda>core. answered core + pending core + dropped core) (rpc_core_vec s))"
    unfolding given_def by (intro arg_cong [where f = sum_list] map_cong) auto
  with process.reachable_handed_over [OF r] show ?thesis by (simp add: handed_over_def)
qed

theorem process_closures_accounted_witness:
  "\<exists>s :: demo_hyper. handed s = [User 7] \<and> User 7 \<in>#
     sum_list (map (\<lambda>core. answered core + pending core + dropped core) (rpc_core_vec s)) +
     queued s + mset (map fst (outer_trace s))"
proof -
  obtain s :: demo_hyper where s: "hyper_reachable (demo_env_of True 1) demo_hudp demo_options s"
    "length (rpc_core_vec s) = 4" "is_initialized s" "handed s = []" by (rule demo_process)
  let ?s = "snd (Impl_CallMethod (demo_env_of True 1) (InWorker 2) None demo_method 1 2 (Some 7) s)"
  have "hyper_step (demo_env_of True 1) s ?s"
    using s(2) by (intro hyper_happens hyper_call_in) (simp add: worker_def)
  with s(1) have "hyper_reachable (demo_env_of True 1) demo_hudp demo_options ?s" by (rule hyper_next)
  moreover have "handed ?s = [User 7]" using s(3,4) by (simp add: Impl_CallMethod_def)
  ultimately show ?thesis
    using process_closures_accounted [OF demo_sizes, of True demo_user_of 1 demo_hudp demo_options ?s]
    by (intro exI [of _ ?s]) auto
qed

section \<open>Start and configuration\<close>

text \<open>\<open>Start\<close> on a configured process that is not running, with at most 65535 workers and 2^47
  sessions: it always returns; it makes one dispatcher per worker, worker \<open>i\<close> with the number
  \<open>i\<close>, an empty, usable session table and an empty queue; if HyperUdp does not come up it
  returns false and keeps no dispatcher; and a second \<open>Start\<close> of a running process aborts.\<close>

lemma Start_effect:
  assumes "worker_num H (hudp_options opt) < 2 ^ 16" and "max_rpc_sessions opt \<le> 2 ^ 47"
    and "\<And>i. blank_core (new_core i)" and "\<And>i. rands i < 2 ^ 32" and "\<not> is_initialized s"
  shows "\<exists>s'. Start H opt new_core garbage own0 rands udp_ok s = Some (udp_ok, s') \<and>
    is_initialized s' = udp_ok \<and>
    (if udp_ok
     then length (rpc_core_vec s') = unat (worker_num H (hudp_options opt)) \<and>
       queues s' = replicate (length (rpc_core_vec s')) [] \<and>
       (\<forall>w < length (rpc_core_vec s'). core_inv w (rpc_core_vec s' ! w) \<and>
          (\<forall>i n. \<not> live_at (rpc_core_vec s' ! w) i n)) \<and>
       (\<exists>t. Start H opt new_core garbage own0 rands b s' = Some (False, t) \<and> aborted t)
     else rpc_core_vec s' = [])"
proof -
  obtain cores where cores: "init_cores H opt new_core garbage own0 rands = Some cores"
    using init_cores_total [OF assms(1,2), of new_core rands garbage own0] assms(3,4) by blast
  note spec = init_cores_spec [OF cores]
  have "core_inv w (cores ! w)" "\<not> live_at (cores ! w) i n" if "w < length cores" for w i n
  proof -
    have "unat (worker_num H (hudp_options opt)) < 2 ^ 16"
      using assms(1) by (simp add: word_less_nat_alt)
    with that spec(1) have "w < 2 ^ 16 - 1" by linarith
    note init = core_Init_inv [OF assms(3) CalcSessionPoolSize_unat(2) [OF assms(2)] this assms(4)
        spec(2) [OF that, unfolded core_Init_def]]
    show "core_inv w (cores ! w)" by (rule init(1))
    show "\<not> live_at (cores ! w) i n" using init(3) by (auto simp: live_at_def)
  qed
  with cores assms(5) spec(1) show ?thesis
    by (cases udp_ok) (simp_all add: Start_def abort_process_def)
qed

section \<open>Redirection between workers\<close>

lemma core_env_of_set_core [simp]:
  "core_env_of C (set_core w core s) = core_env_of C s" "core_env_of C (post w t s) = core_env_of C s"
  "core_env_of C (s\<lparr>redirect_buffers := n\<rparr>) = core_env_of C s"
  "core_env_of C (s\<lparr>queues := q\<rparr>) = core_env_of C s"
  by (simp_all add: core_env_of_def set_core_def post_def OnFindService_def fun_eq_iff)

text \<open>C21: a response that arrives at the wrong worker is handled by the right one. If worker \<open>w\<close>
  receives the response to a session of worker \<open>k\<close> and the redirection is accepted, the packet is
  queued for \<open>k\<close> in a buffer of its own and no dispatcher changes; when \<open>k\<close> runs the task
  it handles the response to its session, and the buffer is freed.\<close>

theorem response_is_redirected:
  assumes "worker s w" "worker s k" "w \<noteq> k" and "length (queues s) = length (rpc_core_vec s)"
    and "rpc_core_id (rpc_core_vec s ! w) = w" "core_inv k (rpc_core_vec s ! k)"
    and "live_at (rpc_core_vec s ! k) i n" and "k < unat (workers C)" and "queues s ! k = []"
    and "parse_packet (pb C) buf = Some (reply_header m (rpc_id n) r, body)"
  shows "let s1 = Impl_OnRecvPacket C w True buf a s in rpc_core_vec s1 = rpc_core_vec s \<and> queues s1 ! k = [RedirectPacket buf a] \<and>
    redirect_buffers s1 = redirect_buffers s + 1 \<and>
    run_task C k s1 = set_core k
      (OnRecvResponse (mgr_env_of (core_env_of C s)) (service_name m) (method_name m) (rpc_id n) r body
         (rpc_core_vec s ! k)) s"
proof -
  define s1 where "s1 = Impl_OnRecvPacket C w True buf a s"
  let ?E = "core_env_of C s"
  have E: "pb ?E = pb C" "workers ?E = workers C" by (simp_all add: core_env_of_def)
  have inv: "mgr_inv k (rpc_core_vec s ! k)" and id: "rpc_core_id (rpc_core_vec s ! k) = k"
    using assms(6) by (simp_all add: core_inv_def context_inv_def)
  have "core_part (rpc_id n) = Suc k" using live_find(2) [OF inv assms(7)] by (simp add: node_ok_def)
  then have recv: "OnRecvPacket ?E buf a t = (if rpc_core_id t = k
      then (0, OnRecvResponse (mgr_env_of ?E) (service_name m) (method_name m) (rpc_id n) r body t)
      else (k, t))" for t
    using OnRecvPacket_response [of ?E buf "reply_header m (rpc_id n) r" body k a t] assms(8,10) E
    by (simp add: OnRecvResponseMessage_reply)
  have same: "(rpc_core_vec s)[w := rpc_core_vec s ! w] = rpc_core_vec s" by simp
  have s1: "s1 = post k (RedirectPacket buf a) (s\<lparr>redirect_buffers := redirect_buffers s + 1\<rparr>)"
    using assms(1-3,5) recv [of "rpc_core_vec s ! w"]
    by (simp add: s1_def Impl_OnRecvPacket_def worker_def Let_def set_core_def)
  have "queues s1 = (queues s)[k := [RedirectPacket buf a]]"
    using assms(2,4,9) by (simp add: s1 post_def worker_def)
  moreover have "(queues s)[k := []] = queues s"
    using assms(9) by (metis list_update_id)
  ultimately show ?thesis
    using assms(2,4) recv [of "rpc_core_vec s ! k"] id unfolding s1_def [symmetric] Let_def
    by (simp add: run_task_def s1 worker_def Let_def post_def set_core_def)
qed

theorem response_is_redirected_witness:
  "\<exists>(s :: demo_hyper) buf. queues (Impl_OnRecvPacket (demo_env_of True 0) 3 True buf (1, 1) s) ! 1 =
     [RedirectPacket buf (1, 1)]"
proof -
  obtain s :: demo_hyper and i n where s: "length (rpc_core_vec s) = 4" "queues s = replicate 4 []"
    "core_inv 1 (rpc_core_vec s ! 1)" "live_at (rpc_core_vec s ! 1) i n" "rpc_core_id (rpc_core_vec s ! 3) = 3"
    by (rule demo_process_called [of True])
  obtain buf where buf: "parse_packet demo_rpc_pb buf = Some (reply_header demo_method (rpc_id n) kSuccess, [9])"
    by (rule demo_reply)
  have "let s1 = Impl_OnRecvPacket (demo_env_of True 0) 3 True buf (1, 1) s in
      rpc_core_vec s1 = rpc_core_vec s \<and> queues s1 ! 1 = [RedirectPacket buf (1, 1)] \<and>
    redirect_buffers s1 = redirect_buffers s + 1 \<and>
    run_task (demo_env_of True 0) 1 s1 = set_core 1
      (OnRecvResponse (mgr_env_of (core_env_of (demo_env_of True 0) s)) (service_name demo_method)
        (method_name demo_method) (rpc_id n) kSuccess [9] (rpc_core_vec s ! 1)) s"
    by (rule response_is_redirected [OF _ _ _ _ s(5,3,4)])
      (simp_all add: worker_def s(1,2) demo_base_of_def buf)
  then show ?thesis by (auto simp: Let_def)
qed

section \<open>Requests on workers other than the first\<close>

lemma nested_env_of:
  assumes "sizes_agree (pb B)" and "hyper_reachable (nested_core B U n) H opt s"
  shows "core_env_of (nested_core B U n) s = nested_core B U n"
    and "worker s w \<Longrightarrow> core_inv w (rpc_core_vec s ! w)"
    and "length (queues s) = length (rpc_core_vec s)"
proof -
  have r: "hyper_reachable (nested_core (lawful B) U n) H opt s"
    using assms by (simp add: lawful_id)
  from process.reachable_hyper_inv [OF r] have inv: "hyper_inv (nested_core B U n) s"
    and c: "\<And>w. worker s w \<Longrightarrow> core_reachable (nested_core (lawful B) U n) w (rpc_core_vec s ! w)"
    using assms(1) by (auto simp: lawful_id)
  from inv show "core_env_of (nested_core B U n) s = nested_core B U n" by (rule core_env_of_inv)
  from inv show "length (queues s) = length (rpc_core_vec s)" by (simp add: hyper_inv_def)
  show "worker s w \<Longrightarrow> core_inv w (rpc_core_vec s ! w)"
    using user.reachable_core_inv [OF c] by blast
qed

text \<open>C16: a request that a worker other than worker 0 receives is handled twice. \<open>RpcCore::OnRecvPacket\<close>
  reports worker 0 after it handled a request, so the process redirects the packet to
  worker 0: the service runs once on the receiving worker and, when worker 0 takes the task,
  once more there, and the client is sent two responses.\<close>

theorem request_is_handled_twice:
  assumes "sizes_agree (pb B)" and "hyper_reachable (nested_core B U 1) H opt s"
    and "worker s w" "w \<noteq> 0" "queues s ! 0 = []"
    and "parse_packet (pb B) pkt = Some (h, qb)" "get_packet_type h = REQUEST"
    and "names_method B h svc sd m"
    and "ParseFromArray (sess_env B) (NewMessage B (GetRequestPrototype B svc m)) qb = (True, req)"
    and "replies U svc m (NewMessage B (GetResponsePrototype B svc m)) req resp r"
    and "carries (pb B) (reply_header m (get_rpc_id h) r) resp vb"
  shows "\<exists>x y p q. let C = nested_core B U 1; s2 = run_task C 0 (Impl_OnRecvPacket C w True pkt a s) in
    served (rpc_core_vec s2 ! w) = served (rpc_core_vec s ! w) @ [(m, x)] \<and>
    served (rpc_core_vec s2 ! 0) = served (rpc_core_vec s ! 0) @ [(m, y)] \<and>
    sent (rpc_core_vec s2 ! w) = sent (rpc_core_vec s ! w) @ [(p, a, 0)] \<and>
    sent (rpc_core_vec s2 ! 0) = sent (rpc_core_vec s ! 0) @ [(q, a, 0)]"
proof -
  let ?C = "nested_core B U 1"
  note env = nested_env_of [OF assms(1,2)]
  have w0: "worker s 0" using assms(3) by (auto simp: worker_def)
  have "context_inv w (rpc_core_vec s ! w)" using env(2) [OF assms(3)] by (simp add: core_inv_def)
  from this assms(6-11) obtain t p where t: "OnRecvPacket ?C pkt a (rpc_core_vec s ! w) = (0, t)"
    "served t = served (rpc_core_vec s ! w) @ [(m, next_msg (rpc_core_vec s ! w), next_msg (rpc_core_vec s ! w) + 1,
       next_context (rpc_core_vec s ! w))]"
    "sent t = sent (rpc_core_vec s ! w) @ [(p, a, 0)]"
    by (rule server_answer)
  have "context_inv 0 (rpc_core_vec s ! 0)" using env(2) [OF w0] by (simp add: core_inv_def)
  from this assms(6-11) obtain u q where u: "OnRecvPacket ?C pkt a (rpc_core_vec s ! 0) = (0, u)"
    "served u = served (rpc_core_vec s ! 0) @ [(m, next_msg (rpc_core_vec s ! 0), next_msg (rpc_core_vec s ! 0) + 1,
       next_context (rpc_core_vec s ! 0))]"
    "sent u = sent (rpc_core_vec s ! 0) @ [(q, a, 0)]"
    by (rule server_answer)
  define s1 where "s1 = Impl_OnRecvPacket ?C w True pkt a s"
  have s1: "s1 = post 0 (RedirectPacket pkt a)
      ((set_core w t s)\<lparr>redirect_buffers := redirect_buffers s + 1\<rparr>)"
    using assms(3,4) t(1) env(1) by (auto simp: s1_def Impl_OnRecvPacket_def worker_def Let_def)
  have q1: "queues s1 ! 0 = [RedirectPacket pkt a]"
    using assms(5) env(3) w0 by (simp add: s1 post_def worker_def)
  have c1: "rpc_core_vec s1 = (rpc_core_vec s)[w := t]" by (simp add: s1 set_core_def)
  have e1: "core_env_of ?C s1 = ?C" using env(1) by (simp add: s1)
  have "rpc_core_vec (run_task ?C 0 s1) = (rpc_core_vec s)[w := t, 0 := u]"
    using q1 c1 e1 u(1) assms(4) by (simp add: run_task_def Let_def set_core_def)
  with t u assms(3,4) w0 show ?thesis
    unfolding Let_def s1_def [symmetric] by (simp add: worker_def)
qed

theorem request_is_handled_twice_witness:
  "\<exists>(s :: demo_hyper) pkt x y. let C = demo_env_of True 1;
      s2 = run_task C 0 (Impl_OnRecvPacket C 2 True pkt (5, 5) s) in
    served (rpc_core_vec s2 ! 2) = [x] \<and> served (rpc_core_vec s2 ! 0) = [y]"
proof -
  obtain s :: demo_hyper where s: "hyper_reachable (demo_env_of True 1) demo_hudp demo_options s"
    "length (rpc_core_vec s) = 4" "queues s = replicate 4 []"
    and new: "\<And>w. w < 4 \<Longrightarrow> served (rpc_core_vec s ! w) = []" by (rule demo_process) blast
  obtain pkt where pkt: "parse_packet demo_rpc_pb pkt = Some (request_header demo_method 5, [1])"
    by (rule demo_request)
  have "\<exists>x y p q. let C = demo_env_of True 1; s2 = run_task C 0 (Impl_OnRecvPacket C 2 True pkt (5, 5) s) in
    served (rpc_core_vec s2 ! 2) = served (rpc_core_vec s ! 2) @ [(demo_method, x)] \<and>
    served (rpc_core_vec s2 ! 0) = served (rpc_core_vec s ! 0) @ [(demo_method, y)] \<and>
    sent (rpc_core_vec s2 ! 2) = sent (rpc_core_vec s ! 2) @ [(p, (5, 5), 0)] \<and>
    sent (rpc_core_vec s2 ! 0) = sent (rpc_core_vec s ! 0) @ [(q, (5, 5), 0)]"
    by (rule request_is_handled_twice [OF demo_sizes s(1), where h = "request_header demo_method 5" and qb = "[1]"
          and svc = "()" and sd = "()" and req = "[1]" and resp = "[9]" and r = kSuccess and vb = "[9]"])
      (simp_all add: s(2,3) worker_def pkt demo_base_of_def demo_user_of_def replies_def names_method_def demo_carries,
       simp add: demo_method_def)
  then obtain x y where "served (rpc_core_vec (run_task (demo_env_of True 1) 0
      (Impl_OnRecvPacket (demo_env_of True 1) 2 True pkt (5, 5) s)) ! 2) = [(demo_method, x)]"
    "served (rpc_core_vec (run_task (demo_env_of True 1) 0
      (Impl_OnRecvPacket (demo_env_of True 1) 2 True pkt (5, 5) s)) ! 0) = [(demo_method, y)]"
    using new [of 2] new [of 0] unfolding Let_def by auto
  then show ?thesis
    unfolding Let_def by blast
qed

section \<open>Calls from outside the workers\<close>

text \<open>What a running process answers to a call. A synchronous call from a worker's own thread is
  refused with \<open>kInError\<close> and nothing else happens. A call from another thread whose task the
  queue refuses calls the closure with \<open>kInError\<close> at once, so that an asynchronous call
  returns \<open>kSuccess\<close> with its closure called and a synchronous one wakes with \<open>kInError\<close>.
  An accepted call is appended to that worker's queue and calls nothing yet.\<close>

lemma CallMethod_outcomes:
  assumes "is_initialized s" and "worker s w" and "length (queues s) = length (rpc_core_vec s)"
  shows "Impl_CallMethod C (InWorker v) by m rq rp None s = (Return kInError, s) \<and>
    Impl_CallMethod C (Outside th) None m rq rp (Some d) s = (Return kSuccess,
      s\<lparr>handed := handed s @ [User d], outer_trace := outer_trace s @ [(User d, kInError)]\<rparr>) \<and>
    (let (res, s') = Impl_CallMethod C (Outside th) None m rq rp None s in
      res = Wait \<and> mset (notified s' th) = add_mset kInError (mset (notified s th)) \<and>
      (\<forall>th'. th' \<noteq> th \<longrightarrow> notified s' th' = notified s th')) \<and>
    (let (res, s') = Impl_CallMethod C (Outside th) (Some w) m rq rp None s in
      res = Wait \<and> queues s' ! w = queues s ! w @ [CallTask m rq rp (SyncDone th)] \<and>
      rpc_core_vec s' = rpc_core_vec s \<and> notified s' = notified s)"
proof (intro conjI)
  show "Impl_CallMethod C (InWorker v) by m rq rp None s = (Return kInError, s)"
    using assms(1) by (simp add: Impl_CallMethod_def)
  show "Impl_CallMethod C (Outside th) None m rq rp (Some d) s = (Return kSuccess,
      s\<lparr>handed := handed s @ [User d], outer_trace := outer_trace s @ [(User d, kInError)]\<rparr>)"
    using assms(1) by (simp add: Impl_CallMethod_def Let_def)
  show "let (res, s') = Impl_CallMethod C (Outside th) None m rq rp None s in
      res = Wait \<and> mset (notified s' th) = add_mset kInError (mset (notified s th)) \<and>
      (\<forall>th'. th' \<noteq> th \<longrightarrow> notified s' th' = notified s th')"
    using assms(1) by (simp add: Impl_CallMethod_def Let_def notified_def)
  show "let (res, s') = Impl_CallMethod C (Outside th) (Some w) m rq rp None s in
      res = Wait \<and> queues s' ! w = queues s ! w @ [CallTask m rq rp (SyncDone th)] \<and>
      rpc_core_vec s' = rpc_core_vec s \<and> notified s' = notified s"
    using assms by (simp add: Impl_CallMethod_def Let_def notified_def post_def worker_def fun_eq_iff)
qed



end
