(* ===== verification/PacketProperties.thy ===== *)
theory PacketProperties
  imports Packet
begin

text \<open>
  The packets: the exact language \<open>OnRecvPacket\<close> accepts, the round trip with \<open>SendMessage\<close>,
  and what happens to a header message that does not fit its 16-bit length.
\<close>

lemma header_load_split:
  assumes "header_load buf = Some h"
  shows "buf = header_mem h @ drop sizeof_RpcPacketHeader buf"
  using assms
  by (cases buf rule: header_load.cases)
    (auto simp: header_mem_def mem16_def mem32_def load16_bytes load32_bytes
      sizeof_RpcPacketHeader_def)

lemma of_nat_unat_htons: "htons (of_nat (unat (htons w))) = w"
  "htonl (of_nat (unat (htonl v))) = v"
  by simp_all

lemma unat_lt_16: "unat (w :: u16) < 2 ^ 16"
  using unsigned_less [of w] by simp

lemma unat_lt_32: "unat (w :: u32) < 2 ^ 32"
  using unsigned_less [of w] by simp

lemma parse_packet_split:
  assumes "parse_packet P buf = Some (h, body)"
  obtains hb where "buf = header_mem
      \<lparr>hrpc_pkt_tag = kHyperRpcPacketTag, hrpc_pkt_ver = kHyperRpcPacketVer,
       rpc_header_len = htons (of_nat (length hb)), rpc_body_len = htonl (of_nat (length body))\<rparr>
      @ hb @ body"
    "length hb < 2 ^ 16" "length body < 2 ^ 32" "0 < length hb + length body"
    "header_Parse P hb = Some h"
proof -
  from assms obtain ph where ph: "header_load buf = Some ph"
    and len: "sizeof_RpcPacketHeader < length buf"
    by (auto simp: parse_packet_def split: if_splits Option.bind_splits)
  let ?hl = "unat (htons (rpc_header_len ph))" and ?bl = "unat (htonl (rpc_body_len ph))"
  let ?rest = "drop sizeof_RpcPacketHeader buf"
  let ?hb = "take ?hl ?rest"
  from assms ph len have tag: "hrpc_pkt_tag ph = kHyperRpcPacketTag" "hrpc_pkt_ver ph = kHyperRpcPacketVer"
    and size: "length buf = sizeof_RpcPacketHeader + ?hl + ?bl"
    and parse: "header_Parse P ?hb = Some h"
    and body: "body = take ?bl (drop (sizeof_RpcPacketHeader + ?hl) buf)"
    by (auto simp: parse_packet_def Let_def split: if_splits Option.bind_splits)
  have lens: "length ?hb = ?hl" "length body = ?bl" using size body by simp_all
  have bd: "body = drop ?hl ?rest" using size body by (simp add: add.commute)
  have "buf = header_mem ph @ ?hb @ body"
    using header_load_split [OF ph] bd append_take_drop_id [of ?hl ?rest] by simp
  moreover have "ph = \<lparr>hrpc_pkt_tag = kHyperRpcPacketTag, hrpc_pkt_ver = kHyperRpcPacketVer,
      rpc_header_len = htons (of_nat (length ?hb)), rpc_body_len = htonl (of_nat (length body))\<rparr>"
    unfolding lens of_nat_unat_htons using tag by simp
  moreover have "length ?hb < 2 ^ 16" "length body < 2 ^ 32"
    unfolding lens by (rule unat_lt_16, rule unat_lt_32)
  moreover have "0 < length ?hb + length body" using len size lens by linarith
  ultimately show thesis using parse that by metis
qed

text \<open>C23: \<open>OnRecvPacket\<close> takes a packet as a header message and a body exactly if the packet
  is the byte 'R', the byte 1, the two lengths in network byte order, and then header and
  body of just these lengths (not both empty), where protobuf parses the header; every other
  packet is dropped.\<close>

theorem parse_packet_iff:
  "parse_packet P buf = Some (h, body) \<longleftrightarrow>
   (\<exists>hb. length hb < 2 ^ 16 \<and> length body < 2 ^ 32 \<and> 0 < length hb + length body \<and>
     header_Parse P hb = Some h \<and>
     (let v = of_nat (length hb) :: u16; w = of_nat (length body) :: u32 in
      buf = [82, 1, ucast (drop_bit 8 v), ucast v, ucast (drop_bit 24 w), ucast (drop_bit 16 w),
        ucast (drop_bit 8 w), ucast w] @ hb @ body))"
  (is "?l \<longleftrightarrow> (\<exists>hb. ?r hb)")
proof -
  have tag: "kHyperRpcPacketTag = 82" "kHyperRpcPacketVer = 1"
    by (simp_all add: kHyperRpcPacketTag_def kHyperRpcPacketVer_def)
  note bytes = header_mem_def network_order tag
  show ?thesis
  proof
    assume ?l
    then show "\<exists>hb. ?r hb"
      by (rule parse_packet_split) (auto simp: bytes Let_def)
  next
    assume "\<exists>hb. ?r hb"
    then obtain hb where hb: "?r hb" ..
    then show ?l
      using parse_built [of hb body P] by (simp add: bytes Let_def)
  qed
qed

text \<open>C24: a header message shorter than 2^16 bytes and a body shorter than 2^32 bytes that
  protobuf serialises to the announced sizes, the header so that it parses back, go through
  \<open>SendMessage\<close> and \<open>OnRecvPacket\<close> unchanged, whatever the stack buffer held before.\<close>

theorem packet_roundtrip:
  assumes "header_Serialize P h = Some hb" "length hb = header_ByteSize P h"
    and "msg_Serialize P m = Some mb" "length mb = msg_ByteSize P m"
    and "length hb < 2 ^ 16" "length mb < 2 ^ 32" "0 < length hb + length mb"
    and "header_Parse P hb = Some h"
  shows "\<exists>pkt. build_packet P garbage h m = Some pkt \<and> parse_packet P pkt = Some (h, mb)"
  using build_packet_eq [OF assms(1-4)] parse_built [OF assms(5-7), of P] assms(8) by auto

definition demo_header :: RpcHeader where
  "demo_header = \<lparr>hdr_packet_type = Some RESPONSE, hdr_service_name = Some ''Echo'',
     hdr_method_name = Some ''Say'', hdr_rpc_id = Some (push_bit 48 1), hdr_rpc_result = Some 0\<rparr>"

definition demo_pb :: "byte list Protobuf" where
  "demo_pb = \<lparr>header_ByteSize = (\<lambda>_. 2), header_Serialize = (\<lambda>_. Some [7, 9]),
     header_Parse = (\<lambda>b. if b = [7, 9] then Some demo_header else None),
     msg_ByteSize = length, msg_Serialize = Some\<rparr>"

theorem packet_roundtrip_witness:
  "\<exists>pkt. build_packet demo_pb (\<lambda>_. 0) demo_header [1, 2, 3] = Some pkt \<and>
     parse_packet demo_pb pkt = Some (demo_header, [1, 2, 3])"
  by (rule packet_roundtrip [where hb = "[7, 9]"]) (simp_all add: demo_pb_def)

lemma long_header_unparsed:
  assumes "header_Serialize P h = Some hb" "length hb = header_ByteSize P h"
    and "msg_Serialize P m = Some mb" "length mb = msg_ByteSize P m"
    and "2 ^ 16 \<le> length hb" and pkt: "build_packet P garbage h m = Some pkt"
  shows "parse_packet Q pkt = None"
proof -
  let ?bl = "unat (of_nat (length mb) :: u32)" and ?hl = "unat (of_nat (length hb) :: u16)"
  have "?hl < 2 ^ 16" "?bl \<le> length mb"
    by (rule unat_lt_16) (simp add: unsigned_of_nat take_bit_nat_less_eq_self)
  with assms(5) have "length hb + length mb \<noteq> ?hl + ?bl" by linarith
  then show ?thesis
    using build_packet_eq [OF assms(1-4), of garbage] pkt by (auto simp: parse_packet_def Let_def)
qed

text \<open>C38: a header message of 2^16 bytes or more (long service and method names) is sent with
  its length reduced modulo 2^16: \<open>SendMessage\<close> reports no error and no receiver accepts the
  packet, since its size disagrees with the lengths in it.\<close>

theorem long_header_is_lost:
  assumes "header_Serialize P h = Some hb" "length hb = header_ByteSize P h"
    and "msg_Serialize P m = Some mb" "length mb = msg_ByteSize P m"
    and "2 ^ 16 \<le> length hb"
  shows "\<exists>pkt. build_packet P garbage h m = Some pkt \<and> parse_packet Q pkt = None"
  using long_header_unparsed [OF assms] build_packet_eq [OF assms(1-4), of garbage] by auto

theorem long_header_is_lost_witness:
  "\<exists>(P :: byte list Protobuf) pkt. build_packet P (\<lambda>_. 0) demo_header [1] = Some pkt \<and>
     parse_packet demo_pb pkt = None"
proof -
  let ?hb = "replicate (2 ^ 16) (0 :: byte)"
  let ?P = "demo_pb\<lparr>header_ByteSize := (\<lambda>_. 2 ^ 16), header_Serialize := (\<lambda>_. Some ?hb)\<rparr>"
  have "\<exists>pkt. build_packet ?P (\<lambda>_. 0) demo_header [1] = Some pkt \<and> parse_packet demo_pb pkt = None"
    by (rule long_header_is_lost [where hb = ?hb and mb = "[1]"])
      (simp_all only: Protobuf.simps length_replicate demo_pb_def list.size One_nat_def add_0 add_Suc
        plus_nat.add_0 order_refl)
  then show ?thesis by blast
qed

end
