(* ===== verification/CoreFrame.thy ===== *)
theory CoreFrame
  imports CoreProperties PacketProperties
begin

text \<open>
  Predicates on the packets a worker has sent and the contexts it holds, kept by every operation
  of the worker with user code that calls back. Two of them: packets sent stay sent, and every
  response sent answers a request that the worker received.
\<close>

section \<open>The contract\<close>

text \<open>What a predicate must satisfy of the state alone. \<open>from h a\<close>: a request with header \<open>h\<close> may have
  come from the address \<open>a\<close>.\<close>

locale worker_laws =
  fixes C :: "('own, 'tw, 'msg, 'd, 'svc, 'sd, 'z) core_env"
    and J :: "('own, 'tw, 'msg, 'd, 'z) core \<Rightarrow> bool"
    and from_addr :: "RpcHeader \<Rightarrow> Addr \<Rightarrow> bool"
  assumes J_fields [simp]:
      "J (s\<lparr>sess_pool := p\<rparr>) = J s" "J (s\<lparr>timerw := w\<rparr>) = J s"
      "J (s\<lparr>msgs := m\<rparr>) = J s" "J (s\<lparr>next_rpc_id := x\<rparr>) = J s" "J (s\<lparr>fault := b\<rparr>) = J s"
      "J (s\<lparr>core_fault := b\<rparr>) = J s" "J (s\<lparr>trace := t\<rparr>) = J s"
    and request_J: "J s \<Longrightarrow> build_packet (pb C) g (request_header m' rid) body = Some pkt \<Longrightarrow>
      J (s\<lparr>sent := sent s @ [(pkt, a, ctx)]\<rparr>)"
    and response_J: "J s \<Longrightarrow> contexts s c = Some cx \<Longrightarrow>
      build_packet (pb C) g (response_header cx r) body = Some pkt \<Longrightarrow>
      J (s\<lparr>sent := sent s @ [(pkt, ctx_addr cx, 0)]\<rparr>)"
    and delete_J: "J s \<Longrightarrow> J (delete_context c s)"
    and served_J: "J s \<Longrightarrow> served s = v \<Longrightarrow> J (s\<lparr>served := v @ [y]\<rparr>)"
    and accept_J: "J s \<Longrightarrow> from_addr h a \<Longrightarrow> names_method C h svc sd m' \<Longrightarrow>
      J (accepted_context New (incoming_context C svc m' h a) rqp rpp s)"

locale worker_frame = worker_laws C J from_addr
  for C :: "('own, 'tw, 'msg, 'd, 'svc, 'sd, 'z) core_env" and J and from_addr +
  assumes done_J: "J s \<Longrightarrow> J (run_done (sess_env C) d r s)"
    and packet_J: "J s \<Longrightarrow> J (on_send_packet C pkt a ctx s)"
    and service_J: "J s \<Longrightarrow> J (Service_CallMethod C svc m' rq rp c s)"
    and routing_J: "J s \<Longrightarrow> on_service_routing C = Some f \<Longrightarrow> f sv mt msg s = (ok, addrs, s') \<Longrightarrow> J s'"
begin

lemma fault_J [simp]: "J (raise_core_fault s) = J s"
  by (simp add: raise_core_fault_def)

lemma OnOutgoingRpcSend_J: "J s \<Longrightarrow> J (OnOutgoingRpcSend C m' rq rid a s)"
  by (auto simp: OnOutgoingRpcSend_def SendMessage_def packet_J request_J split: option.split)

end

sublocale worker_frame \<subseteq> frame: frame_callbacks "mgr_env_of C" J
  by unfold_locales (auto simp: mgr_env_of_def done_J OnOutgoingRpcSend_J)

context worker_frame
begin

lemma resolve_J: "J s \<Longrightarrow> resolve_endpoints C m' rq s = (x, s1) \<Longrightarrow> J s1"
  by (auto simp: resolve_endpoints_def Let_def split: option.splits prod.splits dest: routing_J)

lemma CallMethod_J: "J s \<Longrightarrow> J (CallMethod C m' rq rp d s)"
  by (auto simp: CallMethod_def frame.helpers_J frame.ops_J(1) resolve_J split: prod.split option.split)

lemma OnIncomingRpcDone_J: "J s \<Longrightarrow> J (OnIncomingRpcDone C c r s)"
  by (auto simp: OnIncomingRpcDone_def SendMessage_def delete_J packet_J response_J split: option.split)

lemma run_actions_J: "J s \<Longrightarrow> J (fold (run_action C) acts s)"
proof (induction acts arbitrary: s)
  case (Cons a acts)
  then have "J (run_action C a s)" by (cases a) (simp_all add: CallMethod_J OnIncomingRpcDone_J)
  with Cons.IH show ?case by simp
qed simp

lemma OnRecvRequestMessage_J:
  assumes "J s" "from_addr h a"
  shows "J (OnRecvRequestMessage C h body a s)"
proof (cases rule: OnRecvRequestMessage_cases [of C h])
  case (found svc sd m)
  from accept_J [OF assms found] show ?thesis
    by (simp add: OnRecvRequestMessage_found [OF found] Let_def service_J served_J split: prod.split)
next
  case dropped
  with assms show ?thesis by (simp add: OnRecvRequestMessage_dropped)
qed

lemma OnRecvPacket_J:
  assumes "J s" "\<And>h b. parse_packet (pb C) buf = Some (h, b) \<Longrightarrow> get_packet_type h = REQUEST \<Longrightarrow> from_addr h a"
  shows "J (snd (OnRecvPacket C buf a s))"
  using assms
  by (auto simp: OnRecvPacket_def Let_def OnRecvResponseMessage_def OnRecvRequestMessage_J frame.ops_J(3)
      split: option.split prod.split)

lemma OnSendPacketFailed_J: "J s \<Longrightarrow> J (snd (OnSendPacketFailed C rid s))"
  by (auto simp: OnSendPacketFailed_def Let_def frame.ops_J(2) split: option.split)

lemma OnTimer_J: "J s \<Longrightarrow> J (OnTimer C i s)"
  by (simp add: OnTimer_def frame.ops_J(4))

end

text \<open>What a predicate that every operation keeps satisfies; \<open>heard buf a\<close>: the packet \<open>buf\<close> may come
  from \<open>a\<close>.\<close>

locale worker_keeps =
  fixes C :: "('own, 'tw, 'msg, 'd, 'svc, 'sd, 'z) core_env"
    and J :: "('own, 'tw, 'msg, 'd, 'z) core \<Rightarrow> bool"
    and heard :: "byte list \<Rightarrow> Addr \<Rightarrow> bool"
  assumes keeps_packet: "J s \<Longrightarrow> heard buf a \<Longrightarrow> J (snd (OnRecvPacket C buf a s))"
    and keeps_failed: "J s \<Longrightarrow> J (snd (OnSendPacketFailed C rid s))"
    and keeps_call: "J s \<Longrightarrow> J (CallMethod C m' rq rp d s)"
    and keeps_answer: "J s \<Longrightarrow> J (OnIncomingRpcDone C c r s)"
    and keeps_timer: "J s \<Longrightarrow> J (OnTimer C i s)"
    and keeps_fields: "J (s\<lparr>msgs := ms\<rparr>) = J s" "J (s\<lparr>timerw := tw\<rparr>) = J s"

definition requests_from ::
  "'msg Protobuf \<Rightarrow> (RpcHeader \<Rightarrow> Addr \<Rightarrow> bool) \<Rightarrow> byte list \<Rightarrow> Addr \<Rightarrow> bool" where
  "requests_from P from_addr buf a \<longleftrightarrow>
     (\<forall>h b. parse_packet P buf = Some (h, b) \<longrightarrow> get_packet_type h = REQUEST \<longrightarrow> from_addr h a)"

sublocale worker_frame \<subseteq> kept: worker_keeps C J "requests_from (pb C) from_addr"
  by unfold_locales (simp_all add: requests_from_def OnRecvPacket_J OnSendPacketFailed_J CallMethod_J
      OnIncomingRpcDone_J OnTimer_J)

lemma user_env_frame:
  assumes laws: "worker_laws B J from_addr" and run: "\<And>acts s. J s \<Longrightarrow> J (run acts s)"
  shows "worker_frame (user_env B U run) J from_addr"
proof (intro worker_frame.intro worker_frame_axioms.intro)
  show "worker_laws (user_env B U run) J from_addr"
    using laws by (simp add: worker_laws_def)
qed (use run in \<open>auto simp: user_env_def split: prod.splits\<close>)

lemma nested_worker_frame:
  assumes "worker_laws B J from_addr"
  shows "worker_frame (nested_core B U n) J from_addr"
proof (induction n)
  case 0
  show ?case using assms by (simp add: user_env_frame)
next
  case (Suc n)
  from user_env_frame [OF assms worker_frame.run_actions_J [OF this]] show ?case by simp
qed

section \<open>Packets sent stay sent, calls served stay served\<close>

interpretation keeps_sent: worker_frame "nested_core B U n" "\<lambda>s. prefix u (sent s)" "\<lambda>h a. True" for B U n u
  by (rule nested_worker_frame, unfold_locales) (simp_all add: prefix_prefix)

interpretation keeps_served: worker_frame "nested_core B U n" "\<lambda>s. prefix u (served s)" "\<lambda>h a. True" for B U n u
  by (rule nested_worker_frame, unfold_locales) (simp_all add: prefix_prefix)

section \<open>Every response answers a request\<close>

text \<open>Protobuf never parses a serialised header as another one.\<close>

definition parse_sound :: "'msg Protobuf \<Rightarrow> bool" where
  "parse_sound P \<longleftrightarrow> sizes_agree P \<and>
     (\<forall>h b h'. header_Serialize P h = Some b \<longrightarrow> header_Parse P b = Some h' \<longrightarrow> h' = h)"

text \<open>The header \<open>q\<close> of a request that the response \<open>h\<close> answers: the same id, and the method the
  server found for the names of the request.\<close>

definition answers ::
  "('own, 'tw, 'msg, 'd, 'svc, 'sd, 'z) core_env \<Rightarrow> RpcHeader \<Rightarrow> RpcHeader \<Rightarrow> bool" where
  "answers C h q \<longleftrightarrow> get_rpc_id h = get_rpc_id q \<and>
     (\<exists>svc sd m. names_method C q svc sd m \<and> get_service_name h = service_name m \<and>
        get_method_name h = method_name m)"

definition answered_from ::
  "('own, 'tw, 'msg, 'd, 'svc, 'sd, 'z) core_env \<Rightarrow> (RpcHeader \<Rightarrow> Addr \<Rightarrow> bool) \<Rightarrow> RpcHeader \<Rightarrow> Addr \<Rightarrow> bool" where
  "answered_from C from_addr h a \<longleftrightarrow> (\<exists>q. from_addr q a \<and> answers C h q)"

definition honest_packet ::
  "('own, 'tw, 'msg, 'd, 'svc, 'sd, 'z) core_env \<Rightarrow> (RpcHeader \<Rightarrow> Addr \<Rightarrow> bool) \<Rightarrow>
   byte list \<times> Addr \<times> u64 \<Rightarrow> bool" where
  "honest_packet C from_addr p \<longleftrightarrow>
     (\<forall>h b. parse_packet (pb C) (fst p) = Some (h, b) \<longrightarrow> get_packet_type h = RESPONSE \<longrightarrow>
        answered_from C from_addr h (fst (snd p)))"

definition honest ::
  "('own, 'tw, 'msg, 'd, 'svc, 'sd, 'z) core_env \<Rightarrow> (RpcHeader \<Rightarrow> Addr \<Rightarrow> bool) \<Rightarrow>
   ('own, 'tw, 'msg, 'd, 'z) core \<Rightarrow> bool" where
  "honest C from_addr s \<longleftrightarrow> (parse_sound (pb C) \<longrightarrow>
     (\<forall>c ctx r. contexts s c = Some ctx \<longrightarrow>
        answered_from C from_addr (response_header ctx r) (ctx_addr ctx)) \<and>
     (\<forall>p \<in> set (sent s). honest_packet C from_addr p))"

lemma built_packet_parses:
  assumes "parse_sound P" "build_packet P g h m = Some pkt" "parse_packet P pkt = Some (h', b)"
  shows "h' = h"
proof -
  from assms(1) obtain hb mb where hb: "header_Serialize P h = Some hb" "length hb = header_ByteSize P h"
    and mb: "msg_Serialize P m = Some mb" "length mb = msg_ByteSize P m"
    unfolding parse_sound_def sizes_agree_def by metis
  note pkt = build_packet_eq [OF hb mb, of g] assms(2)
  show ?thesis
  proof (cases "length hb < 2 ^ 16")
    case True
    from assms(3) obtain hb' where p: "pkt = header_mem
        \<lparr>hrpc_pkt_tag = kHyperRpcPacketTag, hrpc_pkt_ver = kHyperRpcPacketVer,
         rpc_header_len = htons (of_nat (length hb')), rpc_body_len = htonl (of_nat (length b))\<rparr> @ hb' @ b"
      "length hb' < 2 ^ 16" "header_Parse P hb' = Some h'"
      by (rule parse_packet_split)
    with pkt have eq: "header_mem
        \<lparr>hrpc_pkt_tag = kHyperRpcPacketTag, hrpc_pkt_ver = kHyperRpcPacketVer,
         rpc_header_len = htons (of_nat (length hb)), rpc_body_len = htonl (of_nat (length mb))\<rparr> @ hb @ mb =
      header_mem
        \<lparr>hrpc_pkt_tag = kHyperRpcPacketTag, hrpc_pkt_ver = kHyperRpcPacketVer,
         rpc_header_len = htons (of_nat (length hb')), rpc_body_len = htonl (of_nat (length b))\<rparr> @ hb' @ b"
      by simp
    from arg_cong [OF eq, of header_load] have l: "htons (of_nat (length hb)) = htons (of_nat (length hb') :: u16)"
      unfolding header_load_mem by simp
    from arg_cong [OF eq, of "drop sizeof_RpcPacketHeader"] have e: "hb @ mb = hb' @ b" by simp
    from l have "unat (of_nat (length hb) :: u16) = unat (of_nat (length hb') :: u16)" by (metis htons_htons)
    with True p(2) have "length hb = length hb'" by (simp add: unsigned_of_nat take_bit_nat_eq_self)
    with e have "hb' = hb" by simp
    with p(3) hb(1) assms(1) show ?thesis by (auto simp: parse_sound_def)
  next
    case False
    with long_header_unparsed [OF hb mb _ assms(2), of P] assms(3) show ?thesis by simp
  qed
qed

lemma new_context_answers:
  assumes "from_addr h a" "names_method C h svc sd m"
  shows "answered_from C from_addr (response_header ((incoming_context C svc m h a)
    \<lparr>ctx_request := rq, ctx_response := rp\<rparr>) r) a"
  using assms
  by (auto simp: answered_from_def answers_def response_header_def incoming_context_def request_context_def
      IncomingRpcContext_init_def ArenaIncomingRpcContext_init_def)

lemma honest_laws: "worker_laws B (honest B from_addr) from_addr"
proof
  show "honest B from_addr (s\<lparr>sent := sent s @ [(pkt, a, ctx)]\<rparr>)"
    if "honest B from_addr s" "build_packet (pb B) g (request_header m' rid) body = Some pkt" for s m' g rid body pkt a ctx
  proof -
    have "honest_packet B from_addr (pkt, a, ctx)" if "parse_sound (pb B)"
      using built_packet_parses [OF that \<open>build_packet _ _ _ _ = _\<close>] by (fastforce simp: honest_packet_def)
    with that(1) show ?thesis by (simp add: honest_def)
  qed
next
  show "honest B from_addr (s\<lparr>sent := sent s @ [(pkt, ctx_addr cx, 0)]\<rparr>)"
    if "honest B from_addr s" "contexts s c = Some cx"
      "build_packet (pb B) g (response_header cx r) body = Some pkt" for s c cx g r body pkt
  proof -
    have "honest_packet B from_addr (pkt, ctx_addr cx, 0)" if "parse_sound (pb B)"
      using built_packet_parses [OF that \<open>build_packet _ _ _ _ = _\<close>] that \<open>honest B from_addr s\<close> \<open>contexts s c = Some cx\<close>
      by (fastforce simp: honest_packet_def honest_def)
    with that(1) show ?thesis by (simp add: honest_def)
  qed
next
  show "honest B from_addr (delete_context c s)" if "honest B from_addr s" for c s
    using that by (auto simp: honest_def delete_context_def)
next
  show "honest B from_addr (accepted_context New (incoming_context B svc m' h a) rqp rpp s)"
    if "honest B from_addr s" "from_addr h a" "names_method B h svc sd m'" for s h a svc sd m' New rqp rpp
  proof -
    have addr: "ctx_addr (incoming_context B svc m' h a) = a"
      by (simp add: incoming_context_def request_context_def IncomingRpcContext_init_def ArenaIncomingRpcContext_init_def)
    show ?thesis
      using that(1) new_context_answers [where C = B and from_addr = from_addr, OF that(2,3)]
      by (auto simp: honest_def accepted_context_def Let_def addr)
  qed
qed (simp_all add: honest_def)

interpretation honest: worker_frame "nested_core B U n" "honest B from_addr" from_addr for B U n from_addr
  by (rule nested_worker_frame) (rule honest_laws)

lemma honest_mono:
  assumes "honest C P s" "\<And>h a. P h a \<Longrightarrow> Q h a"
  shows "honest C Q s"
proof -
  have "answered_from C P h a \<Longrightarrow> answered_from C Q h a" for h a
    using assms(2) unfolding answered_from_def by blast
  with assms(1) show ?thesis unfolding honest_def honest_packet_def by blast
qed

end
