(* ===== verification/HyperFrame.thy ===== *)
theory HyperFrame
  imports HyperProperties CoreFrame
begin

text \<open>
  Predicates that every operation of a worker keeps are kept by every step of a process, for each of
  its workers, also where packets wait in the queues of others.
\<close>

section \<open>What holds of every worker of a process\<close>

definition all_workers ::
  "(nat \<Rightarrow> 'core \<Rightarrow> bool) \<Rightarrow> ('core, 'svc, 'routing, 'u) HyperRpc \<Rightarrow> bool" where
  "all_workers J s \<longleftrightarrow> (\<forall>w. worker s w \<longrightarrow> J w (rpc_core_vec s ! w))"

text \<open>The packets queued for another worker are packets that arrived.\<close>

definition queued_from ::
  "(byte list \<Rightarrow> Addr \<Rightarrow> bool) \<Rightarrow> ('core, 'svc, 'routing, 'u) HyperRpc \<Rightarrow> bool" where
  "queued_from Q s \<longleftrightarrow> (\<forall>ts \<in> set (queues s). \<forall>buf a. RedirectPacket buf a \<in> set ts \<longrightarrow> Q buf a)"

lemma all_workersD: "all_workers J s \<Longrightarrow> worker s w \<Longrightarrow> J w (rpc_core_vec s ! w)"
  by (simp add: all_workers_def)

lemma all_workers_set [intro]:
  assumes "all_workers J s" "J w core"
  shows "all_workers J (set_core w core s)"
  unfolding all_workers_def
proof (intro allI impI)
  fix v assume "worker (set_core w core s) v"
  with assms show "J v (rpc_core_vec (set_core w core s) ! v)"
    by (cases "v = w") (auto simp: all_workers_def set_core_def worker_def)
qed

lemma all_workers_fields [simp]:
  "all_workers J (post w t s) = all_workers J s" "all_workers J (s\<lparr>queues := q\<rparr>) = all_workers J s"
  "all_workers J (s\<lparr>handed := h\<rparr>) = all_workers J s"
  "all_workers J (s\<lparr>redirect_buffers := n\<rparr>) = all_workers J s"
  "all_workers J (s\<lparr>outer_trace := u\<rparr>) = all_workers J s" "all_workers J (abort_process s) = all_workers J s"
  by (simp_all add: all_workers_def worker_def abort_process_def)

lemma queued_from_fields [simp]:
  "queued_from Q (set_core w core s) = queued_from Q s"
  "queued_from Q (s\<lparr>handed := h\<rparr>) = queued_from Q s"
  "queued_from Q (s\<lparr>redirect_buffers := n\<rparr>) = queued_from Q s"
  "queued_from Q (s\<lparr>outer_trace := u\<rparr>) = queued_from Q s" "queued_from Q (abort_process s) = queued_from Q s"
  by (simp_all add: queued_from_def set_core_def abort_process_def)

lemma queued_from_post [intro]:
  assumes "queued_from Q s" "\<And>buf a. t = RedirectPacket buf a \<Longrightarrow> Q buf a"
  shows "queued_from Q (post w t s)"
proof (cases "w < length (queues s)")
  case True
  then have "queues s ! w \<in> set (queues s)" by simp
  with assms show ?thesis
    by (auto simp: queued_from_def post_def dest!: set_update_subset_insert [THEN subsetD])
next
  case False
  with assms show ?thesis by (simp add: queued_from_def post_def list_update_beyond)
qed

lemma queued_from_pop:
  assumes "queued_from Q s" "queues s ! w = t # ts" "w < length (queues s)"
  shows "queued_from Q (s\<lparr>queues := (queues s)[w := ts]\<rparr>)" "\<And>buf a. t = RedirectPacket buf a \<Longrightarrow> Q buf a"
proof -
  have "t # ts \<in> set (queues s)" using assms(2,3) nth_mem by metis
  with assms(1) show "\<And>buf a. t = RedirectPacket buf a \<Longrightarrow> Q buf a"
    "queued_from Q (s\<lparr>queues := (queues s)[w := ts]\<rparr>)"
    by (fastforce simp: queued_from_def dest!: set_update_subset_insert [THEN subsetD])+
qed

section \<open>Steps of a process keep what its workers keep\<close>

locale hyper_frame =
  fixes C :: "('own, 'tw, 'msg, 'u closure, 'svc, 'sd, 'z) core_env"
    and J :: "nat \<Rightarrow> ('own, 'tw, 'msg, 'u closure, 'z) core \<Rightarrow> bool"
    and heard :: "byte list \<Rightarrow> Addr \<Rightarrow> bool"
  assumes frames: "worker_keeps C (J w) heard"
begin

lemma packet_frame: "all_workers J s \<Longrightarrow> worker s w \<Longrightarrow> heard buf a \<Longrightarrow>
    J w (snd (OnRecvPacket C buf a (rpc_core_vec s ! w)))"
  using worker_keeps.keeps_packet [OF frames all_workersD] .

lemma failed_frame: "all_workers J s \<Longrightarrow> worker s w \<Longrightarrow>
    J w (snd (OnSendPacketFailed C ctx (rpc_core_vec s ! w)))"
  using worker_keeps.keeps_failed [OF frames all_workersD] .

lemma call_frame: "all_workers J s \<Longrightarrow> worker s w \<Longrightarrow>
    J w (CallMethod C m rq rp d (rpc_core_vec s ! w))"
  using worker_keeps.keeps_call [OF frames all_workersD] .

lemma event_frame:
  assumes "hyper_event_from P C s s'" and env: "core_env_of C s = C"
    and J: "all_workers J s" and Q: "queued_from Q s" and P: "\<And>buf a. P buf a \<Longrightarrow> Q buf a"
    and req: "\<And>buf a. Q buf a \<Longrightarrow> heard buf a"
  shows "all_workers J s' \<and> queued_from Q s'"
  using assms(1)
proof cases
  case (hyper_packet w buf a accepted)
  have "J w (snd (OnRecvPacket C buf a (rpc_core_vec s ! w)))"
    using hyper_packet by (intro packet_frame J) (blast intro: req P)+
  with hyper_packet env J Q P show ?thesis
    by (auto simp: Impl_OnRecvPacket_def Let_def split: prod.split)
next
  case (hyper_sent w accepted success ctx)
  with env J Q failed_frame [OF J, of w ctx] show ?thesis
    by (auto simp: Impl_OnSentResult_def Let_def split: prod.split)
next
  case (hyper_answer w c r)
  with env J Q worker_keeps.keeps_answer [OF frames all_workersD [OF J hyper_answer(2)]]
  show ?thesis by auto
next
  case (hyper_write w ms)
  with J Q worker_keeps.keeps_fields(1) [OF frames] all_workersD [OF J] show ?thesis by auto
next
  case (hyper_call_in w m rq rp d)
  with env J Q call_frame [OF J, of w] show ?thesis
    by (auto simp: Impl_CallMethod_def split: option.split)
next
  case (hyper_call_out acc th m rq rp d)
  with J Q show ?thesis
    by (auto simp: Impl_CallMethod_def Let_def split: option.split)
qed

lemma task_frame:
  assumes w: "worker s w" and env: "core_env_of C s = C" and len: "w < length (queues s)"
    and J: "all_workers J s" and Q: "queued_from Q s"
    and req: "\<And>buf a. Q buf a \<Longrightarrow> heard buf a"
  shows "all_workers J (run_task C w s) \<and> queued_from Q (run_task C w s)"
proof (cases "queues s ! w")
  case Nil
  with J Q show ?thesis by (simp add: run_task_def)
next
  case (Cons t ts)
  note pop = queued_from_pop [OF Q Cons len]
  have "J w (snd (OnRecvPacket C buf a (rpc_core_vec s ! w)))" if "t = RedirectPacket buf a" for buf a
    using packet_frame [OF J w] req pop(2) [OF that] by blast
  with Cons env J pop(1) failed_frame [OF J w] call_frame [OF J w] show ?thesis
    by (cases t) (auto simp: run_task_def Let_def)
qed

lemma step_frame:
  assumes "hyper_step_from P C s s'" and inv: "hyper_inv C s"
    and J: "all_workers J s" and Q: "queued_from Q s" and P: "\<And>buf a. P buf a \<Longrightarrow> Q buf a"
    and req: "\<And>buf a. Q buf a \<Longrightarrow> heard buf a"
  shows "all_workers J s' \<and> queued_from Q s'"
  using assms(1)
proof cases
  case hyper_happens
  from event_frame [OF this core_env_of_inv [OF inv] J Q P req] show ?thesis .
next
  case (hyper_task w)
  then have "w < length (queues s)" using inv by (simp add: hyper_inv_def worker_def)
  from task_frame [OF hyper_task(2) core_env_of_inv [OF inv] this J Q req] hyper_task(1) show ?thesis by simp
next
  case (hyper_timer w i)
  with J Q worker_keeps.keeps_timer [OF frames all_workersD [OF J hyper_timer(2)]] core_env_of_inv [OF inv]
  show ?thesis by auto
next
  case (hyper_pass w tw)
  with J Q worker_keeps.keeps_fields(2) [OF frames] all_workersD [OF J] show ?thesis by auto
qed

end

interpretation packets_stay: hyper_frame "nested_core B U n" "\<lambda>w s. prefix (u w) (sent s)"
    "requests_from (pb (nested_core B U n)) (\<lambda>h a. True)" for B U n u
  by (rule hyper_frame.intro) (rule keeps_sent.kept.worker_keeps_axioms)

interpretation answers_only: hyper_frame "nested_core B U n" "\<lambda>w. honest B from_addr"
    "requests_from (pb (nested_core B U n)) from_addr" for B U n from_addr
  by (rule hyper_frame.intro) (rule honest.kept.worker_keeps_axioms)

interpretation served_stays: hyper_frame "nested_core B U n" "\<lambda>w s. prefix (u w) (served s)"
    "requests_from (pb (nested_core B U n)) (\<lambda>h a. True)" for B U n u
  by (rule hyper_frame.intro) (rule keeps_served.kept.worker_keeps_axioms)

lemma served_grows:
  assumes "hyper_step (nested_core B U n) s s'" "hyper_inv (nested_core B U n) s"
    and "hyper_inv (nested_core B U n) s'" "worker s w"
  shows "prefix (served (rpc_core_vec s ! w)) (served (rpc_core_vec s' ! w))"
proof -
  have "all_workers (\<lambda>v core. prefix (served (rpc_core_vec s ! v)) (served core)) s'"
    using served_stays.step_frame [OF assms(1,2), of "\<lambda>v. served (rpc_core_vec s ! v)" "\<lambda>buf a. True"]
    by (simp add: all_workers_def queued_from_def requests_from_def)
  moreover have "worker s' w" using assms(2-4) by (simp add: worker_def hyper_inv_def)
  ultimately show ?thesis by (simp add: all_workers_def)
qed

end
