(* ===== verification/Network.thy ===== *)
theory Network
  imports HyperFrame
begin

text \<open>
  Several processes that exchange packets. A packet that one process's worker has sent may be
  lost, delayed, duplicated and reordered; nothing else arrives. Each process runs as in
  \<open>HyperRuns\<close>.
\<close>

section \<open>The network\<close>

text \<open>The packets a process has sent, and those that can arrive at the process \<open>h\<close>: \<open>addr n\<close> is the
  address the process \<open>n\<close> sends from and receives at.\<close>

definition sends :: "('own, 'tw, 'msg, 'u, 'svc, 'z) hyper \<Rightarrow> byte list \<Rightarrow> Addr \<Rightarrow> bool" where
  "sends s buf a \<longleftrightarrow> (\<exists>w ctx. worker s w \<and> (buf, a, ctx) \<in> set (sent (rpc_core_vec s ! w)))"

definition arrives ::
  "('n \<Rightarrow> Addr) \<Rightarrow> ('n \<Rightarrow> ('own, 'tw, 'msg, 'u, 'svc, 'z) hyper) \<Rightarrow> 'n \<Rightarrow> byte list \<Rightarrow> Addr \<Rightarrow> bool" where
  "arrives addr N h buf a \<longleftrightarrow> (\<exists>n. addr n = a \<and> sends (N n) buf (addr h))"

inductive net_reachable ::
  "('n \<Rightarrow> Addr) \<Rightarrow> ('n \<Rightarrow> ('own, 'tw, 'msg, 'u closure, 'svc, 'sd, 'z) core_env) \<Rightarrow>
   ('n \<Rightarrow> ('b, 'h, 'log) HudpOptions) \<Rightarrow> ('n \<Rightarrow> 'h Options) \<Rightarrow> ('n \<Rightarrow> 'own) \<Rightarrow>
   ('n \<Rightarrow> ('own, 'tw, 'msg, 'u, 'svc, 'z) hyper) \<Rightarrow> bool"
  for addr :: "'n \<Rightarrow> Addr" and E :: "'n \<Rightarrow> ('own, 'tw, 'msg, 'u closure, 'svc, 'sd, 'z) core_env"
    and H :: "'n \<Rightarrow> ('b, 'h, 'log) HudpOptions" and opt :: "'n \<Rightarrow> 'h Options" and own0 :: "'n \<Rightarrow> 'own" where
  net_start: "(\<And>n. started (E n) (H n) (opt n) (own0 n) (N n)) \<Longrightarrow> net_reachable addr E H opt own0 N"
| net_step: "net_reachable addr E H opt own0 N \<Longrightarrow> hyper_step_from (arrives addr N n) (E n) (N n) s' \<Longrightarrow>
     net_reachable addr E H opt own0 (N(n := s'))"

text \<open>A request with the header \<open>q\<close> can arrive from \<open>a\<close>.\<close>

definition asked ::
  "'msg Protobuf \<Rightarrow> (byte list \<Rightarrow> Addr \<Rightarrow> bool) \<Rightarrow> RpcHeader \<Rightarrow> Addr \<Rightarrow> bool" where
  "asked P arrive q a \<longleftrightarrow>
     (\<exists>buf b. arrive buf a \<and> parse_packet P buf = Some (q, b) \<and> get_packet_type q = REQUEST)"

definition net_inv ::
  "('n \<Rightarrow> Addr) \<Rightarrow> ('n \<Rightarrow> ('own, 'tw, 'msg, 'u closure, 'svc, 'sd, 'z) core_env) \<Rightarrow>
   ('n \<Rightarrow> ('own, 'tw, 'msg, 'u, 'svc, 'z) hyper) \<Rightarrow> bool" where
  "net_inv addr B N \<longleftrightarrow> (\<forall>n. queued_from (arrives addr N n) (N n) \<and>
     all_workers (\<lambda>w. honest (B n) (asked (pb (B n)) (arrives addr N n))) (N n))"

lemma net_hyper_reachable:
  "net_reachable addr E H opt own0 N \<Longrightarrow> hyper_reachable (E n) (H n) (opt n) (N n)"
proof (induction arbitrary: n rule: net_reachable.induct)
  case (net_start N)
  then show ?case by (rule started_reachable)
next
  case (net_step N m s')
  from hyper_next [OF net_step.IH hyper_step_any [OF net_step(2)]] net_step.IH show ?case by simp
qed

lemma arrives_mono:
  assumes "arrives addr N h buf a" "\<And>buf a. sends (N n) buf a \<Longrightarrow> sends s' buf a"
  shows "arrives addr (N(n := s')) h buf a"
proof -
  from assms(1) obtain m where m: "addr m = a" "sends (N m) buf (addr h)" by (auto simp: arrives_def)
  with assms(2) have "sends ((N(n := s')) m) buf (addr h)" by (cases "m = n") auto
  with m(1) show ?thesis unfolding arrives_def by blast
qed

lemma net_inv_start:
  assumes "\<And>n. started (E n) (H n) (opt n) (own0 n) (N n)"
  shows "net_inv addr B N"
  unfolding net_inv_def
proof (intro allI conjI)
  fix n
  show "queued_from (arrives addr N n) (N n)"
    by (simp add: queued_from_def started_core(1) [OF assms])
  have "honest (B n) F (rpc_core_vec (N n) ! w)" if "worker (N n) w" for F w
  proof -
    from started_core(4) [OF assms that] obtain garbage rand c0 where c0: "blank_core c0" "rand < 2 ^ 32"
      "w < 2 ^ 16 - 1" "CalcSessionPoolSize (H n) (opt n) \<le> 2 ^ 48"
      "core_Init (H n) (opt n) garbage (own0 n) rand w c0 = Some (rpc_core_vec (N n) ! w)" by blast
    from core_Init_inv(4,6) [OF c0(1,4,3,2) c0(5) [unfolded core_Init_def]] show ?thesis
      by (simp add: honest_def)
  qed
  then show "all_workers (\<lambda>w. honest (B n) (asked (pb (B n)) (arrives addr N n))) (N n)"
    by (simp add: all_workers_def)
qed

text \<open>A step of one process: it keeps what it sent, so what could arrive anywhere still can.\<close>

lemma step_keeps_sent:
  assumes "hyper_step_from P (nested_core B U d) s s'" "hyper_inv (nested_core B U d) s"
    "hyper_inv (nested_core B U d) s'" and "sends s buf a"
  shows "sends s' buf a"
proof -
  from assms(4) obtain w ctx where w: "worker s w" "(buf, a, ctx) \<in> set (sent (rpc_core_vec s ! w))"
    by (auto simp: sends_def)
  have "all_workers (\<lambda>w c. prefix (sent (rpc_core_vec s ! w)) (sent c)) s'"
    using packets_stay.step_frame [OF assms(1,2), of "\<lambda>w. sent (rpc_core_vec s ! w)" "\<lambda>buf a. True"]
    by (simp add: all_workers_def queued_from_def requests_from_def)
  moreover have "worker s' w" using w(1) assms(2,3) by (simp add: worker_def hyper_inv_def)
  ultimately have "prefix (sent (rpc_core_vec s ! w)) (sent (rpc_core_vec s' ! w))"
    by (simp add: all_workers_def)
  with w(2) \<open>worker s' w\<close> show ?thesis
    by (auto simp: sends_def dest: set_mono_prefix [THEN subsetD])
qed

lemma nested_pb [simp]: "pb (nested_core B U d) = pb B"
  by (cases d) (simp_all add: user_env_def)

lemma net_inv_step:
  assumes inv: "net_inv addr B N" and E: "E n = nested_core (B n) (U n) (d n)"
    and hinv: "hyper_inv (E n) (N n)" "hyper_inv (E n) s'" and step: "hyper_step_from (arrives addr N n) (E n) (N n) s'"
  shows "net_inv addr B (N(n := s'))"
proof -
  let ?N = "N(n := s')"
  have more: "arrives addr N h buf a \<Longrightarrow> arrives addr ?N h buf a" for h buf a
    by (erule arrives_mono) (rule step_keeps_sent [OF step [unfolded E] hinv [unfolded E]])
  then have asked: "asked P (arrives addr N h) q a \<Longrightarrow> asked P (arrives addr ?N h) q a" for P h q a
    unfolding asked_def by blast
  have mono: "honest (B h) (asked (pb (B h)) (arrives addr N h)) c \<Longrightarrow>
      honest (B h) (asked (pb (B h)) (arrives addr ?N h)) c" for h c
    by (erule honest_mono) (rule asked)
  have old: "queued_from (arrives addr ?N h) (N h) \<and>
      all_workers (\<lambda>w. honest (B h) (asked (pb (B h)) (arrives addr ?N h))) (N h)" for h
    using inv by (auto simp: net_inv_def queued_from_def all_workers_def intro: more mono)
  have "all_workers (\<lambda>w. honest (B n) (asked (pb (B n)) (arrives addr ?N n))) s' \<and>
      queued_from (arrives addr ?N n) s'"
    using old [of n] by (intro answers_only.step_frame [OF step [unfolded E] hinv(1) [unfolded E]] more)
      (auto simp: asked_def requests_from_def)
  with old show ?thesis by (auto simp: net_inv_def)
qed

lemma net_hyper_inv:
  assumes "net_reachable addr E H opt own0 N" and "\<And>n. E n = nested_core (B n) (U n) (d n)"
    and "\<And>n. sizes_agree (pb (B n))"
  shows "hyper_inv (E n) (N n)"
  using process.reachable_hyper_inv [of "B n" "U n" "d n" "H n" "opt n" "N n"] net_hyper_reachable [OF assms(1), of n]
  by (simp add: assms(2) lawful_id [OF assms(3)])

lemma net_reachable_inv:
  assumes "net_reachable addr E H opt own0 N" and E: "\<And>n. E n = nested_core (B n) (U n) (d n)"
    and sizes: "\<And>n. sizes_agree (pb (B n))"
  shows "net_inv addr B N"
  using assms(1)
proof (induction rule: net_reachable.induct)
  case (net_start N)
  then show ?case by (rule net_inv_start)
next
  case (net_step N n s')
  note inv = net_hyper_inv [OF _ E sizes]
  from inv [OF net_step(1), of n] inv [OF net_reachable.net_step [OF net_step(1,2)], of n] show ?case
    by (intro net_inv_step [where E = E and U = U and d = d, OF net_step.IH E _ _ net_step(2)]) simp_all
qed

section \<open>Responses are authentic\<close>

lemma response_answers:
  assumes "net_reachable addr E H opt own0 N" and "\<And>n. E n = nested_core (B n) (U n) (d n)"
    and "\<And>n. parse_sound (pb (B n))" and "inj addr"
    and "arrives addr N n buf (addr m)"
    and "parse_packet (pb (B m)) buf = Some (h, body)" "get_packet_type h = RESPONSE"
  shows "\<exists>qbuf q qbody svc sd meth. sends (N n) qbuf (addr m) \<and>
    parse_packet (pb (B m)) qbuf = Some (q, qbody) \<and> get_packet_type q = REQUEST \<and>
    get_rpc_id h = get_rpc_id q \<and> names_method (B m) q svc sd meth \<and>
    get_service_name h = service_name meth \<and> get_method_name h = method_name meth"
proof -
  have inv: "net_inv addr B N"
    using net_reachable_inv [OF assms(1,2)] assms(3) by (simp add: parse_sound_def)
  from assms(4,5) have "sends (N m) buf (addr n)" by (auto simp: arrives_def dest: injD)
  then obtain w ctx where w: "worker (N m) w" "(buf, addr n, ctx) \<in> set (sent (rpc_core_vec (N m) ! w))"
    by (auto simp: sends_def)
  with inv assms(3) have "honest_packet (B m) (asked (pb (B m)) (arrives addr N m)) (buf, addr n, ctx)"
    by (auto simp: net_inv_def all_workers_def honest_def)
  with assms(6,7) obtain q where q: "asked (pb (B m)) (arrives addr N m) q (addr n)" "answers (B m) h q"
    by (auto simp: honest_packet_def answered_from_def)
  from q(1) obtain qbuf qbody k where "addr k = addr n" "sends (N k) qbuf (addr m)"
    "parse_packet (pb (B m)) qbuf = Some (q, qbody)" "get_packet_type q = REQUEST"
    by (auto simp: asked_def arrives_def)
  moreover from this(1) assms(4) have "k = n" by (simp add: inj_eq)
  ultimately show ?thesis using q(2) unfolding answers_def by blast
qed

text \<open>C10: responses are authentic. Any number of processes with distinct addresses exchange packets
  over a network that may lose, delay, duplicate and reorder them but not make them up. Whatever
  they and their users do, a response that arrives at the process \<open>n\<close> from the address of the
  process \<open>m\<close> answers a request that \<open>n\<close> sent to \<open>m\<close>: it has the id of that request and the names
  of the method that \<open>m\<close> found for the names in it. So no session is ever completed by an
  answer to somebody else's call. Protobuf is assumed never to parse a header it serialised as
  another one.\<close>

theorem responses_are_authentic:
  assumes "net_reachable addr E H opt own0 N" and "\<And>n. E n = nested_core (B n) (U n) (d n)"
    and "\<And>n. parse_sound (pb (B n))" and "inj addr"
    and "arrives addr N n buf (addr m)"
    and "parse_packet (pb (B m)) buf = Some (h, body)" "get_packet_type h = RESPONSE"
  shows "\<exists>qbuf q qbody svc sd meth. sends (N n) qbuf (addr m) \<and>
    parse_packet (pb (B m)) qbuf = Some (q, qbody) \<and> get_packet_type q = REQUEST \<and>
    get_rpc_id h = get_rpc_id q \<and> names_method (B m) q svc sd meth \<and>
    get_service_name h = service_name meth \<and> get_method_name h = method_name meth"
  by (rule response_answers [OF assms])

lemma one_method_sound: "parse_sound (one_method_pb meth encode)"
proof -
  let ?P = "one_method_pb meth encode"
  have "h' = h" if "header_Serialize ?P h = Some b" "header_Parse ?P b = Some h'" for h b h'
  proof (cases "carried_header meth h")
    case True
    then consider rid where "h = request_header meth rid" | rid where "h = reply_header meth rid kSuccess"
      unfolding carried_header_def by blast
    then show ?thesis
      by cases (use that in \<open>auto simp: one_method_pb_def parse_header_bytes\<close>)
  qed (use that in \<open>auto simp: one_method_pb_def\<close>)
  then show ?thesis by (auto simp: parse_sound_def)
qed

text \<open>A client \<open>False\<close> at (5, 5) and a server \<open>True\<close> at (1, 1): the client calls and the server answers.\<close>

abbreviation "demo_depth \<equiv> \<lambda>server :: bool. if server then 1 else (0 :: nat)"
abbreviation "demo_addr \<equiv> \<lambda>server :: bool. if server then (1, 1) else ((5, 5) :: Addr)"

lemma demo_network:
  obtains N :: "bool \<Rightarrow> demo_hyper" and buf i n where
    "net_reachable demo_addr (\<lambda>b. demo_env_of True (demo_depth b)) (\<lambda>_. demo_hudp) (\<lambda>_. demo_options)
       (\<lambda>_. False) N"
    "arrives demo_addr N False buf (demo_addr True)"
    "parse_packet demo_rpc_pb buf = Some (reply_header demo_method (rpc_id n) kSuccess, [9])"
    "worker (N False) 1" "core_inv 1 (rpc_core_vec (N False) ! 1)" "live_at (rpc_core_vec (N False) ! 1) i n"
    "node_method n = demo_method" "node_done n = Some (User 7)"
proof -
  let ?E = "\<lambda>b. demo_env_of True (demo_depth b)"
  let ?net = "net_reachable demo_addr ?E (\<lambda>_. demo_hudp) (\<lambda>_. demo_options) (\<lambda>_. False)"
  obtain c0 c1 :: demo_hyper and i n pkt where client: "started (demo_env_of True 0) demo_hudp demo_options False c0"
    "\<And>P. hyper_step_from P (demo_env_of True 0) c0 c1" "sent (rpc_core_vec c1 ! 1) = [(pkt, (1, 1), rpc_id n)]"
    "parse_packet demo_rpc_pb pkt = Some (request_header demo_method (rpc_id n), [1])" "length (rpc_core_vec c1) = 4"
    "core_inv 1 (rpc_core_vec c1 ! 1)" "live_at (rpc_core_vec c1 ! 1) i n" "node_method n = demo_method"
    "node_done n = Some (User 7)"
    by (rule demo_process_sends [of True]) (rule that)
  obtain t :: demo_hyper where server: "hyper_reachable (?E True) demo_hudp demo_options t"
    "length (rpc_core_vec t) = 4" "core_inv 0 (rpc_core_vec t ! 0)" "sent (rpc_core_vec t ! 0) = []"
    "started (?E True) demo_hudp demo_options False t"
    by (rule demo_process [of True 1]) (simp del: nested_core.simps)
  let ?t = "rpc_core_vec t ! 0" and ?N0 = "\<lambda>b. if b then t else c0"
  have "context_inv 0 ?t" using server(3) by (simp add: core_inv_def)
  then obtain t' rpkt where answer: "OnRecvPacket (?E True) pkt (5, 5) ?t = (0, t')"
    "sent t' = [(rpkt, (5, 5), 0)]"
    "parse_packet demo_rpc_pb rpkt = Some (reply_header demo_method (rpc_id n) kSuccess, [9])"
    by (rule server_answer [where B = "demo_base_of True" and U = demo_user_of and addr = "(5, 5)"
          and h = "request_header demo_method (rpc_id n)" and svc = "()" and sd = "()" and m = demo_method and req = "[1]"
          and resp = "[9]" and r = kSuccess and vb = "[9]"])
      (use client(4) server(4) in \<open>simp_all add: demo_base_of_def demo_user_of_def replies_def names_method_def demo_carries
        del: nested_core.simps\<close>, simp_all add: demo_method_def)
  have "?net ?N0" by (rule net_start) (use client(1) server(5) in simp)
  from net_step [OF this, of False c1] client(2) have "?net (?N0(False := c1))" by simp
  moreover have "sends c1 pkt (1, 1)"
    using client(3,5) unfolding sends_def worker_def by (intro exI [of _ "1 :: nat"]) auto
  then have "arrives demo_addr (?N0(False := c1)) True pkt (5, 5)"
    unfolding arrives_def by (intro exI [of _ False]) simp
  then have "hyper_step_from (arrives demo_addr (?N0(False := c1)) True) (?E True) t (Impl_OnRecvPacket (?E True) 0 True pkt (5, 5) t)"
    using server(2) by (intro hyper_happens hyper_packet) (simp_all add: worker_def)
  moreover have "core_env_of (?E True) t = ?E True"
    using process.reachable_hyper_inv [of "demo_base_of True" demo_user_of 1 demo_hudp demo_options t] server(1)
    by (simp add: lawful_id [OF demo_sizes] core_env_of_inv del: nested_core.simps)
  then have "Impl_OnRecvPacket (?E True) 0 True pkt (5, 5) t = set_core 0 t' t"
    using answer(1) server(2) by (simp add: Impl_OnRecvPacket_def)
  ultimately have "?net ((?N0(False := c1))(True := set_core 0 t' t))"
    using net_step [of demo_addr ?E "\<lambda>_. demo_hudp" "\<lambda>_. demo_options" "\<lambda>_. False" "?N0(False := c1)" True
        "set_core 0 t' t"] by simp
  moreover have "sends (set_core 0 t' t) rpkt (5, 5)"
    using answer(2) server(2) unfolding sends_def worker_def set_core_def by (intro exI [of _ 0]) auto
  then have "arrives demo_addr ((?N0(False := c1))(True := set_core 0 t' t)) False rpkt (1, 1)"
    unfolding arrives_def by (intro exI [of _ True]) simp
  ultimately show thesis using answer(3) client(5-9)
    by (intro that [of "?N0(False := c1, True := set_core 0 t' t)" rpkt n i]) (simp_all add: worker_def)
qed

theorem responses_are_authentic_witness:
  "\<exists>(N :: bool \<Rightarrow> demo_hyper) buf qbuf q qbody rid. arrives demo_addr N False buf (1, 1) \<and>
     parse_packet demo_rpc_pb buf = Some (reply_header demo_method rid kSuccess, [9]) \<and>
     sends (N False) qbuf (1, 1) \<and> parse_packet demo_rpc_pb qbuf = Some (q, qbody) \<and>
     get_packet_type q = REQUEST \<and> get_rpc_id q = rid"
proof -
  obtain N :: "bool \<Rightarrow> demo_hyper" and buf i and n :: "(bool, nat closure) SessionNode" where net: "net_reachable demo_addr
      (\<lambda>b. demo_env_of True (demo_depth b)) (\<lambda>_. demo_hudp) (\<lambda>_. demo_options) (\<lambda>_. False) N"
    "arrives demo_addr N False buf (demo_addr True)"
    "parse_packet demo_rpc_pb buf = Some (reply_header demo_method (rpc_id n) kSuccess, [9])"
    by (rule demo_network) blast
  have "inj demo_addr" by (simp add: inj_def)
  have pb: "pb (demo_base_of True) = demo_rpc_pb" by (simp add: demo_base_of_def)
  have sound: "parse_sound (pb (demo_base_of True))" unfolding pb by (rule one_method_sound)
  have "parse_packet (pb (demo_base_of True)) buf = Some (reply_header demo_method (rpc_id n) kSuccess, [9])"
    unfolding pb by (rule net(3))
  from responses_are_authentic [where B = "\<lambda>_. demo_base_of True" and U = "\<lambda>_. demo_user_of" and d = demo_depth
      and m = True and n = False, OF net(1) refl sound \<open>inj demo_addr\<close> net(2) this]
  obtain qbuf q qbody where "sends (N False) qbuf (1, 1)" "parse_packet demo_rpc_pb qbuf = Some (q, qbody)"
    "get_packet_type q = REQUEST" "get_rpc_id q = rpc_id n" by (auto simp: pb)
  with net(2,3) show ?thesis
    by (intro exI [of _ N] exI [of _ buf] exI [of _ qbuf] exI [of _ q] exI [of _ qbody] exI [of _ "rpc_id n"]) simp
qed

end
