(* ===== verification/CoreCredit.thy ===== *)
theory CoreCredit
  imports CoreFrame
begin

text \<open>
  What a worker's closures are called with. A call leaves in the trace its closure and, right after
  it, the request it sends; a closure is called with a result of its own worker (no route, timeout,
  internal error) or with one that a response to that very request reports. Kept by every
  operation, with user code that calls back.
\<close>

section \<open>Calls and what they are answered with\<close>

text \<open>The closure \<open>d\<close> was handed over and its request for the method \<open>m\<close> sent with the id \<open>rid\<close>.\<close>

definition requested :: "'d event list \<Rightarrow> 'd \<Rightarrow> MethodDescriptor \<Rightarrow> msg_ptr \<Rightarrow> u64 \<Rightarrow> bool" where
  "requested es d m rq rid \<longleftrightarrow> (\<exists>k a. sublist [EvAdd d k, EvSend m rq rid a] es)"

definition own_result :: "Result \<Rightarrow> bool" where
  "own_result r \<longleftrightarrow> r \<in> {kNoRoute, kTimeout, kInError}"

type_synonym told = "MethodDescriptor \<Rightarrow> u64 \<Rightarrow> Result \<Rightarrow> bool"

definition earned :: "told \<Rightarrow> 'd event list \<Rightarrow> 'd \<Rightarrow> Result \<Rightarrow> bool" where
  "earned told es d r \<longleftrightarrow> own_result r \<or> (\<exists>m rq rid. requested es d m rq rid \<and> told m rid r)"

text \<open>What identifies a session.\<close>

definition ident :: "('own, 'd) SessionNode \<Rightarrow> 'd option \<times> MethodDescriptor \<times> msg_ptr \<times> u64" where
  "ident n = (node_done n, node_method n, node_request n, rpc_id n)"

definition idents ::
  "('own, 'tw, 'msg, 'd, 'z) mgr \<Rightarrow> ('d option \<times> MethodDescriptor \<times> msg_ptr \<times> u64) list" where
  "idents s = map ident (sess_pool s)"

definition credited :: "told \<Rightarrow> ('own, 'tw, 'msg, 'd, 'z) mgr \<Rightarrow> bool" where
  "credited told s \<longleftrightarrow>
     (\<forall>d m rq rid. (Some d, m, rq, rid) \<in> set (idents s) \<longrightarrow> requested (trace s) d m rq rid) \<and>
     (\<forall>d r. EvDone d r \<in> set (trace s) \<longrightarrow> earned told (trace s) d r)"

lemma requested_append: "requested es d m rq rid \<Longrightarrow> requested (es @ fs) d m rq rid"
  unfolding requested_def using sublist_order.order_trans [OF _ sublist_append_rightI] by blast

lemma earned_append: "earned told es d r \<Longrightarrow> earned told (es @ fs) d r"
  unfolding earned_def by (blast intro: requested_append)

lemma earned_mono: "earned told es d r \<Longrightarrow> (\<And>m rid r. told m rid r \<Longrightarrow> told' m rid r) \<Longrightarrow> earned told' es d r"
  unfolding earned_def by blast

lemma credited_mono: "credited told s \<Longrightarrow> (\<And>m rid r. told m rid r \<Longrightarrow> told' m rid r) \<Longrightarrow> credited told' s"
  unfolding credited_def earned_def by blast

lemma credited_same: "idents s' = idents s \<Longrightarrow> trace s' = trace s \<Longrightarrow> credited told s' = credited told s"
  by (simp add: credited_def)

lemma credited_event:
  assumes "credited told s" "\<And>d r. e = EvDone d r \<Longrightarrow> earned told (trace s) d r"
  shows "credited told (s\<lparr>trace := trace s @ [e]\<rparr>)"
  using assms by (auto simp: credited_def idents_def intro: requested_append earned_append)

section \<open>Helpers\<close>

lemma idents_fields [simp]:
  "idents (s\<lparr>timerw := w\<rparr>) = idents s" "idents (s\<lparr>msgs := m\<rparr>) = idents s"
  "idents (s\<lparr>next_rpc_id := x\<rparr>) = idents s" "idents (s\<lparr>fault := b\<rparr>) = idents s" "idents (s\<lparr>trace := t\<rparr>) = idents s"
  by (simp_all add: idents_def)

lemma idents_update [simp]:
  "(\<And>n. ident (f n) = ident n) \<Longrightarrow> idents (update_node i f s) = idents s"
  by (simp add: update_node_def raise_fault_def node_at_def idents_def map_update list_update_same_conv split: option.split)

lemma credited_update [simp]:
  assumes "\<And>n. ident (f n) = ident n"
  shows "credited told (update_node i f s) = credited told s"
  by (rule credited_same) (simp_all add: assms, simp add: update_node_def raise_fault_def split: option.split)

lemma ident_fields [simp]:
  "ident (n\<lparr>endpoint_index := k\<rparr>) = ident n" "ident (n\<lparr>timer_owner := own\<rparr>) = ident n"
  by (simp_all add: ident_def)

lemma credited_helpers [simp]:
  "credited told (raise_fault s) = credited told s"
  "credited told (s\<lparr>msgs := m\<rparr>) = credited told s" "credited told (s\<lparr>timerw := w\<rparr>) = credited told s"
  "credited told (s\<lparr>next_rpc_id := x\<rparr>) = credited told s" "credited told (s\<lparr>fault := b\<rparr>) = credited told s"
  "credited told (snd (FindSessionNode rid s)) = credited told s"
  "credited told (node_arm_timer E i s) = credited told s" "credited told (node_cancel_timer E i s) = credited told s"
proof -
  show fields: "credited told (raise_fault s) = credited told s"
    "credited told (s\<lparr>msgs := m\<rparr>) = credited told s" "credited told (s\<lparr>timerw := w\<rparr>) = credited told s"
    "credited told (s\<lparr>next_rpc_id := x\<rparr>) = credited told s" "credited told (s\<lparr>fault := b\<rparr>) = credited told s" for w
    by (auto intro!: credited_same simp: raise_fault_def)
  show "credited told (snd (FindSessionNode rid s)) = credited told s"
    "credited told (node_arm_timer E i s) = credited told s" "credited told (node_cancel_timer E i s) = credited told s"
    by (auto simp: FindSessionNode_def node_arm_timer_def node_cancel_timer_def Let_def fields split: option.split prod.split)
qed

lemma credited_node:
  assumes "credited told s" "\<And>d. node_done n = Some d \<Longrightarrow> requested (trace s) d (node_method n) (node_request n) (rpc_id n)"
  shows "credited told (s\<lparr>sess_pool := (sess_pool s)[i := n]\<rparr>)"
proof -
  have "set ((idents s)[i := ident n]) \<subseteq> insert (ident n) (set (idents s))" by (rule set_update_subset_insert)
  moreover have "idents (s\<lparr>sess_pool := (sess_pool s)[i := n]\<rparr>) = (idents s)[i := ident n]"
    by (simp add: idents_def map_update)
  ultimately show ?thesis
    using assms unfolding credited_def by (fastforce simp: ident_def)
qed

lemma credited_free: "credited told s \<Longrightarrow> credited told (FreeSessionNode i s)"
  by (auto simp: FreeSessionNode_def update_node_def intro: credited_node split: option.split)

lemma found_same: "FindSessionNode rid s = (x, s1) \<Longrightarrow> credited told s1 = credited told s"
  using credited_helpers(6) [of told rid s] by simp

lemma found_node: "FindSessionNode rid s = (Some i, s1) \<Longrightarrow> s1 = s \<and> i < length (sess_pool s) \<and> rpc_id (sess_pool s ! i) = rid"
  by (auto simp: FindSessionNode_def Let_def node_at_def split: if_splits)

lemma alloc_shape:
  "alloc_loop k s = (None, s1) \<Longrightarrow> credited told s1 = credited told s"
  "alloc_loop k s = (Some i, s1) \<Longrightarrow> i < length (sess_pool s) \<and> (\<exists>rid. s1 = alloc_found i rid s)"
proof (induction k arbitrary: s)
  case (Suc k)
  { case 1 with Suc(1) show ?case
      by (auto simp: NextRpcId_def Let_def split: option.splits if_splits)
  next
    case 2
    with Suc(2) [of "s\<lparr>next_rpc_id := next_id (next_rpc_id s)\<rparr>"] show ?case
      by (auto simp: NextRpcId_def Let_def node_at_def update_node_def alloc_found_def split: if_splits) }
qed simp_all

section \<open>The session manager\<close>

locale credited_sessions =
  fixes E :: "('own, 'tw, 'msg, 'd, 'z) mgr_env" and told :: told
  assumes done_credit: "credited told s \<Longrightarrow> credited told (run_done E d r s)"
    and send_credit: "credited told s \<Longrightarrow> credited told (on_send_request E m rq rid a s)"
begin

lemma invoke_credit: "credited told s \<Longrightarrow> earned told (trace s) d r \<Longrightarrow> credited told (invoke_done E d r s)"
  by (auto simp: invoke_done_def intro!: done_credit credited_event)

lemma call_done_credit:
  assumes "credited told s" "\<And>d. i < length (sess_pool s) \<Longrightarrow> node_done (sess_pool s ! i) = Some d \<Longrightarrow> earned told (trace s) d r"
  shows "credited told (node_call_done E i r s)"
  using assms by (auto simp: node_call_done_def node_at_def intro: invoke_credit split: option.split)

lemma send_traced: "credited told s \<Longrightarrow>
    credited told (on_send_request E m rq rid a (s\<lparr>trace := trace s @ [EvSend m rq rid a]\<rparr>))"
  by (auto intro!: send_credit credited_event)

lemma node_send_credit: "credited told s \<Longrightarrow> credited told (node_send E i k s)"
  by (auto simp: node_send_def send_traced split: option.split)

text \<open>A new session: the closure is in the trace, then its request.\<close>

lemma AddSession_credit:
  assumes credit: "credited told s" and eps: "el_wf eps" "0 < el_size eps"
  shows "credited told (snd (AddSession E m rq rp eps d s))"
proof (cases "el_size eps > 65536")
  case True
  with credit show ?thesis by (auto simp: AddSession_def intro!: credited_event)
next
  case small: False
  define t where "t = s\<lparr>trace := trace s @ [EvAdd d (el_size eps)]\<rparr>"
  have t: "credited told t" unfolding t_def using credit by (rule credited_event) simp
  obtain x s1 where x: "AllocSessionNode t = (x, s1)" by force
  note shape = alloc_shape [of "2 ^ pool_size_order t" t, folded AllocSessionNode_def]
  show ?thesis
  proof (cases x)
    case None
    with x have "AddSession E m rq rp eps d s = (False, invoke_done E d kInError s1)"
      by (intro AddSession_full [OF t_def]) (use small in simp_all)
    with shape(1) x None t show ?thesis by (simp add: invoke_credit earned_def own_result_def)
  next
    case (Some i)
    with shape(2) x obtain rid where i: "i < length (sess_pool t)" "AllocSessionNode t = (Some i, alloc_found i rid t)"
      by auto
    obtain l where l: "EndpointList_copy eps = Some l" "el_wf l" "el_size l = el_size eps"
      using eps(1) by (rule EndpointList_copy_wf)
    let ?a = "el_list l ! 0" and ?u = "with_session E m rq rp l d i rid t"
    let ?n = "filled m rq rp l d rid (snd (armed E i t)) (sess_pool t ! i)"
    have n: "node_done ?n = Some d" "node_method ?n = m" "node_request ?n = rq" "rpc_id ?n = rid"
      by (simp_all add: filled_def)
    have "requested (trace t @ [EvSend m rq rid ?a]) d m rq rid"
      unfolding requested_def t_def by (intro exI [of _ "el_size eps"] exI [of _ ?a]) simp
    moreover have "credited told (t\<lparr>trace := trace t @ [EvSend m rq rid ?a]\<rparr>)" using t by (rule credited_event) simp
    ultimately have "credited told ((t\<lparr>trace := trace t @ [EvSend m rq rid ?a]\<rparr>)\<lparr>sess_pool := (sess_pool t)[i := ?n]\<rparr>)"
      using credited_node [of told "t\<lparr>trace := trace t @ [EvSend m rq rid ?a]\<rparr>" ?n i] n by simp
    then have "credited told (?u\<lparr>trace := trace ?u @ [EvSend m rq rid ?a]\<rparr>)"
      by (simp add: with_session_def credited_def idents_def)
    from send_credit [OF this] show ?thesis
      using AddSession_found [OF t_def i(2,1) l(1,2)] small eps(2) l(3) by (simp add: Let_def)
  qed
qed

lemma OnSendRequestFailed_credit: "credited told s \<Longrightarrow> credited told (OnSendRequestFailed E rid s)"
  by (auto simp: OnSendRequestFailed_def Let_def found_same earned_def own_result_def
      intro!: node_send_credit credited_free call_done_credit split: prod.split option.split)

lemma OnSessionTimeout_credit: "credited told s \<Longrightarrow> credited told (OnSessionTimeout E i s)"
  by (auto simp: OnSessionTimeout_def earned_def own_result_def intro!: credited_free call_done_credit split: option.split)

text \<open>A response to the session's own request.\<close>

lemma OnRecvResponse_credit:
  assumes credit: "credited told s" and told: "\<And>m. service_name m = sv \<Longrightarrow> method_name m = mt \<Longrightarrow> told m rid r"
  shows "credited told (OnRecvResponse E sv mt rid r body s)"
proof (cases "FindSessionNode rid s")
  case (Pair x s1)
  show ?thesis
  proof (cases x)
    case None
    with Pair credit show ?thesis by (simp add: OnRecvResponse_def found_same)
  next
    case (Some i)
    with Pair found_node have s1: "s1 = s" "i < length (sess_pool s)" "rpc_id (sess_pool s ! i) = rid" by blast+
    let ?n = "sess_pool s ! i"
    have "credited told (FreeSessionNode i (node_cancel_timer E i (node_call_done E i r (s\<lparr>msgs := ms\<rparr>))))"
      if "service_name (node_method ?n) = sv" "method_name (node_method ?n) = mt" for ms
    proof -
      have "earned told (trace s) d r" if "node_done ?n = Some d" for d
      proof -
        have "ident ?n \<in> set (idents s)" using s1(2) by (simp add: idents_def)
        with credit that have "requested (trace s) d (node_method ?n) (node_request ?n) rid"
          unfolding credited_def ident_def s1(3) by auto
        with told \<open>service_name _ = _\<close> \<open>method_name _ = _\<close> show ?thesis unfolding earned_def by blast
      qed
      with credit have "credited told (node_call_done E i r (s\<lparr>msgs := ms\<rparr>))" by (intro call_done_credit) simp_all
      then show ?thesis by (intro credited_free) simp
    qed
    with Pair Some credit s1(1) show ?thesis
      by (auto simp: OnRecvResponse_def Let_def split: prod.split)
  qed
qed

end

section \<open>The worker\<close>

lemma resolve_wf:
  assumes "resolve_endpoints C m rq s = (Some eps, s1)"
  shows "el_wf eps \<and> 0 < el_size eps"
proof -
  from assms obtain addrs where "mfold AddEndpoint EndpointList_init addrs = Some eps" "0 < el_size eps"
    by (auto simp: resolve_endpoints_def Let_def el_empty_def split: option.splits prod.splits if_splits)
  moreover have "AddEndpoint = PushBack" by (intro ext) (simp add: AddEndpoint_def)
  ultimately show ?thesis using el.build [of addrs] by auto
qed

text \<open>The response header \<open>h\<close> reports the result \<open>r\<close> of a call of the method \<open>m\<close>.\<close>

definition reports :: "RpcHeader \<Rightarrow> MethodDescriptor \<Rightarrow> Result \<Rightarrow> bool" where
  "reports h m r \<longleftrightarrow> get_packet_type h = RESPONSE \<and> get_service_name h = service_name m \<and>
     get_method_name h = method_name m \<and> Result_of (get_rpc_result h) = Some r"

definition tells :: "'msg Protobuf \<Rightarrow> told \<Rightarrow> byte list \<Rightarrow> Addr \<Rightarrow> bool" where
  "tells P told buf a \<longleftrightarrow>
     (\<forall>h b m r. parse_packet P buf = Some (h, b) \<longrightarrow> reports h m r \<longrightarrow> told m (get_rpc_id h) r)"

locale credited_worker =
  fixes C :: "('own, 'tw, 'msg, 'd, 'svc, 'sd, 'z) core_env" and told :: told
  assumes closure_credit: "credited told s \<Longrightarrow> credited told (run_done (sess_env C) d r s)"
    and packet_credit: "credited told s \<Longrightarrow> credited told (on_send_packet C pkt a ctx s)"
    and service_credit: "credited told s \<Longrightarrow> credited told (Service_CallMethod C svc m rq rp c s)"
    and routing_credit: "credited told s \<Longrightarrow> on_service_routing C = Some f \<Longrightarrow>
      f sv mt msg s = (ok, addrs, s') \<Longrightarrow> credited told s'"
begin

lemma worker_fields_credit [simp]:
  "credited told (s\<lparr>sent := p\<rparr>) = credited told s" "credited told (s\<lparr>served := v\<rparr>) = credited told s"
  "credited told (raise_core_fault s) = credited told s" "credited told (delete_context c s) = credited told s"
  "credited told (accepted_context New ctx0 rqp rpp s) = credited told s"
  by (rule credited_same; simp add: idents_def raise_core_fault_def delete_context_def accepted_context_def Let_def)+

lemma SendMessage_credit: "credited told s \<Longrightarrow> credited told (SendMessage C h body a ctx s)"
  by (auto simp: SendMessage_def intro!: packet_credit split: option.split)

end

sublocale credited_worker \<subseteq> sessions: credited_sessions "mgr_env_of C" told
  by unfold_locales (simp_all add: mgr_env_of_def closure_credit OnOutgoingRpcSend_def SendMessage_credit)

context credited_worker
begin

lemma resolve_credit:
  assumes "credited told s" "resolve_endpoints C m rq s = (x, s1)"
  shows "credited told s1"
  using assms by (auto simp: resolve_endpoints_def Let_def split: option.splits prod.splits dest: routing_credit)

lemma CallMethod_credit:
  assumes "credited told s"
  shows "credited told (CallMethod C m rq rp d s)"
proof (cases "resolve_endpoints C m rq s")
  case (Pair x s1)
  note s1 = resolve_credit [OF assms Pair]
  show ?thesis
  proof (cases x)
    case None
    have "credited told (s1\<lparr>trace := trace s1 @ [EvAdd d 0]\<rparr>)" using s1 by (rule credited_event) simp
    with None Pair show ?thesis
      by (simp add: CallMethod_def sessions.invoke_credit earned_def own_result_def)
  next
    case (Some eps)
    with Pair resolve_wf [of C m rq s eps s1] s1 show ?thesis
      by (simp add: CallMethod_def sessions.AddSession_credit)
  qed
qed

lemma OnIncomingRpcDone_credit: "credited told s \<Longrightarrow> credited told (OnIncomingRpcDone C c r s)"
  by (auto simp: OnIncomingRpcDone_def intro!: SendMessage_credit split: option.split)

lemma run_actions_credit: "credited told s \<Longrightarrow> credited told (fold (run_action C) acts s)"
proof (induction acts arbitrary: s)
  case (Cons a acts)
  then have "credited told (run_action C a s)"
    by (cases a) (simp_all add: CallMethod_credit OnIncomingRpcDone_credit)
  with Cons.IH show ?case by simp
qed simp

lemma OnRecvRequestMessage_credit:
  assumes "credited told s"
  shows "credited told (OnRecvRequestMessage C h body a s)"
proof (cases rule: OnRecvRequestMessage_cases [of C h])
  case (found svc sd m)
  with assms show ?thesis by (auto simp: OnRecvRequestMessage_found Let_def intro!: service_credit split: prod.split)
next
  case dropped
  with assms show ?thesis by (simp add: OnRecvRequestMessage_dropped)
qed

lemma OnRecvPacket_credit:
  assumes "credited told s" "tells (pb C) told buf a"
  shows "credited told (snd (OnRecvPacket C buf a s))"
proof -
  have "credited told (OnRecvResponseMessage C h b a s)"
    if "parse_packet (pb C) buf = Some (h, b)" "get_packet_type h \<noteq> REQUEST" for h b
  proof -
    have "get_packet_type h = RESPONSE" using that(2) by (cases "get_packet_type h") simp_all
    with assms(2) that(1) have "told m (get_rpc_id h) r" if "service_name m = get_service_name h"
      "method_name m = get_method_name h" "Result_of (get_rpc_result h) = Some r" for m r
      using that by (simp add: tells_def reports_def)
    with assms(1) show ?thesis
      by (auto simp: OnRecvResponseMessage_def intro!: sessions.OnRecvResponse_credit split: option.split)
  qed
  with assms(1) show ?thesis
    by (auto simp: OnRecvPacket_def Let_def OnRecvRequestMessage_credit split: option.split prod.split)
qed

lemma OnSendPacketFailed_credit: "credited told s \<Longrightarrow> credited told (snd (OnSendPacketFailed C rid s))"
  by (auto simp: OnSendPacketFailed_def Let_def sessions.OnSendRequestFailed_credit split: option.split)

end

sublocale credited_worker \<subseteq> kept: worker_keeps C "credited told" "tells (pb C) told"
  by unfold_locales (simp_all add: OnRecvPacket_credit OnSendPacketFailed_credit CallMethod_credit
      OnIncomingRpcDone_credit OnTimer_def sessions.OnSessionTimeout_credit)

lemma user_env_credit:
  assumes "\<And>acts s. credited told s \<Longrightarrow> credited told (run acts s)"
  shows "credited_worker (user_env B U run) told"
  using assms by unfold_locales (auto simp: user_env_def split: prod.splits)

lemma nested_credit: "credited_worker (nested_core B U n) told"
proof (induction n)
  case 0
  show ?case unfolding nested_core.simps by (rule user_env_credit)
next
  case (Suc n)
  from credited_worker.run_actions_credit [OF this] show ?case
    unfolding nested_core.simps by (rule user_env_credit)
qed

interpretation credit: credited_worker "nested_core B U n" told for B U n told
  by (rule nested_credit)

end
