(* ===== verification/NetworkCredit.thy ===== *)
theory NetworkCredit
  imports Network CoreCredit
begin

text \<open>
  No result is invented: in a network of processes a closure is called with a result that is not its
  own worker's only after a response that answers its very request.
\<close>

section \<open>The closures of a process\<close>

interpretation credit_frame: hyper_frame "nested_core B U n" "\<lambda>w. credited told"
    "tells (pb (nested_core B U n)) told" for B U n told
  by (rule hyper_frame.intro) (rule credit.kept.worker_keeps_axioms)

text \<open>A response that can arrive tells the result \<open>r\<close> of the call of \<open>m\<close> with the id \<open>rid\<close>.\<close>

definition told_by :: "'msg Protobuf \<Rightarrow> (byte list \<Rightarrow> Addr \<Rightarrow> bool) \<Rightarrow> told" where
  "told_by P arrive m rid r \<longleftrightarrow>
     (\<exists>buf a h b. arrive buf a \<and> parse_packet P buf = Some (h, b) \<and> reports h m r \<and> get_rpc_id h = rid)"

lemma arrived_tells: "arrive buf a \<Longrightarrow> tells P (told_by P arrive) buf a"
  unfolding tells_def told_by_def by blast

lemma told_by_mono: "told_by P A m rid r \<Longrightarrow> (\<And>buf a. A buf a \<Longrightarrow> A' buf a) \<Longrightarrow> told_by P A' m rid r"
  unfolding told_by_def by blast

lemma Init_no_closures:
  "Init garbage own0 rand k w s = Some c \<Longrightarrow> n \<in> set (sess_pool c) \<Longrightarrow> node_done n = None"
  by (auto simp: Init_def fresh_node_def Let_def split: Option.bind_splits)

lemma started_credit:
  assumes "started C H opt own0 s"
  shows "all_workers (\<lambda>w. credited told) s"
  unfolding all_workers_def
proof (intro allI impI)
  fix w assume "worker s w"
  from started_core(4) [OF assms this] obtain garbage rand c0
    where init: "blank_core c0" "core_Init H opt garbage own0 rand w c0 = Some (rpc_core_vec s ! w)" by blast
  with Init_trace [of garbage own0 rand _ w "c0\<lparr>rpc_core_id := w\<rparr>"] have "trace (rpc_core_vec s ! w) = []"
    by (simp add: core_Init_def blank_core_def)
  moreover have "node_done n = None" if "n \<in> set (sess_pool (rpc_core_vec s ! w))" for n
    using Init_no_closures [OF init(2) [unfolded core_Init_def] that] .
  ultimately show "credited told (rpc_core_vec s ! w)"
    by (auto simp: credited_def idents_def ident_def)
qed

section \<open>The closures of a network\<close>

definition net_credit ::
  "('n \<Rightarrow> Addr) \<Rightarrow> ('n \<Rightarrow> ('own, 'tw, 'msg, 'u closure, 'svc, 'sd, 'z) core_env) \<Rightarrow>
   ('n \<Rightarrow> ('own, 'tw, 'msg, 'u, 'svc, 'z) hyper) \<Rightarrow> bool" where
  "net_credit addr B N \<longleftrightarrow> (\<forall>n. all_workers (\<lambda>w. credited (told_by (pb (B n)) (arrives addr N n))) (N n))"

lemma net_credit_step:
  assumes inv: "net_inv addr B N" and credit: "net_credit addr B N" and E: "E n = nested_core (B n) (U n) (d n)"
    and hinv: "hyper_inv (E n) (N n)" "hyper_inv (E n) s'" and step: "hyper_step_from (arrives addr N n) (E n) (N n) s'"
  shows "net_credit addr B (N(n := s'))"
proof -
  let ?N = "N(n := s')"
  have more: "arrives addr N h buf a \<Longrightarrow> arrives addr ?N h buf a" for h buf a
    by (erule arrives_mono) (rule step_keeps_sent [OF step [unfolded E] hinv [unfolded E]])
  have old: "all_workers (\<lambda>w. credited (told_by (pb (B h)) (arrives addr ?N h))) (N h)" for h
    using credit more unfolding net_credit_def all_workers_def
    by (blast intro: credited_mono told_by_mono)
  have "queued_from (arrives addr ?N n) (N n)"
    using inv by (auto simp: net_inv_def queued_from_def intro: more)
  with old [of n] have "all_workers (\<lambda>w. credited (told_by (pb (B n)) (arrives addr ?N n))) s'"
    using credit_frame.step_frame [OF step [unfolded E] hinv(1) [unfolded E]] more by (simp add: arrived_tells)
  with old show ?thesis by (auto simp: net_credit_def)
qed

lemma net_reachable_credit:
  assumes "net_reachable addr E H opt own0 N" and E: "\<And>n. E n = nested_core (B n) (U n) (d n)"
    and sizes: "\<And>n. sizes_agree (pb (B n))"
  shows "net_credit addr B N"
  using assms(1)
proof (induction rule: net_reachable.induct)
  case (net_start N)
  then show ?case by (auto simp: net_credit_def intro: started_credit)
next
  case (net_step N n s')
  note inv = net_hyper_inv [OF _ E sizes]
  from inv [OF net_step(1), of n] inv [OF net_reachable.net_step [OF net_step(1,2)], of n] show ?case
    by (intro net_credit_step [where E = E and U = U and d = d, OF net_reachable_inv [OF net_step(1) E sizes]
          net_step.IH E _ _ net_step(2)]) simp_all
qed

section \<open>No result is invented\<close>

text \<open>C11: no result is invented. In the network of C9, a closure that a worker of the process \<open>n\<close> has
  called with a result other than that worker's own (no route, timeout, internal error) belongs
  to a call whose request \<open>n\<close> sent, and some process \<open>m\<close> sent a response with the id of that
  request, the names of its method and that result. This response answers a request with that id,
  which \<open>n\<close> sent to \<open>m\<close>, and carries the names of the method \<open>m\<close> found for it. So a caller is
  told of success only if a server said so, of this call.\<close>

theorem no_result_is_invented:
  assumes "net_reachable addr E H opt own0 N" and "\<And>n. E n = nested_core (B n) (U n) (d n)"
    and "\<And>n. parse_sound (pb (B n))" and "\<And>n m. pb (B n) = pb (B m)" and "inj addr"
    and "worker (N n) w" and "EvDone f r \<in> set (trace (rpc_core_vec (N n) ! w))" and "\<not> own_result r"
  shows "\<exists>meth rq rid m buf h body qbuf q qbody svc sd meth'.
    requested (trace (rpc_core_vec (N n) ! w)) f meth rq rid \<and>
    sends (N m) buf (addr n) \<and> parse_packet (pb (B n)) buf = Some (h, body) \<and>
    reports h meth r \<and> get_rpc_id h = rid \<and>
    sends (N n) qbuf (addr m) \<and> parse_packet (pb (B n)) qbuf = Some (q, qbody) \<and>
    get_packet_type q = REQUEST \<and> get_rpc_id q = rid \<and> names_method (B m) q svc sd meth' \<and>
    reports h meth' r"
proof -
  have sizes: "\<And>n. sizes_agree (pb (B n))" using assms(3) by (simp add: parse_sound_def)
  have "net_credit addr B N" by (rule net_reachable_credit [OF assms(1,2) sizes])
  with assms(6) have "credited (told_by (pb (B n)) (arrives addr N n)) (rpc_core_vec (N n) ! w)"
    by (auto simp: net_credit_def dest: all_workersD)
  with assms(7,8) obtain meth rq rid where call: "requested (trace (rpc_core_vec (N n) ! w)) f meth rq rid"
    "told_by (pb (B n)) (arrives addr N n) meth rid r"
    unfolding credited_def earned_def by blast
  then obtain buf m h body where response: "arrives addr N n buf (addr m)" "sends (N m) buf (addr n)"
    "parse_packet (pb (B n)) buf = Some (h, body)" "reports h meth r" "get_rpc_id h = rid"
    unfolding told_by_def arrives_def by blast
  from response_answers [OF assms(1-3,5) response(1)] response(3,4) assms(4)
  obtain qbuf q qbody svc sd meth' where request: "sends (N n) qbuf (addr m)"
    "parse_packet (pb (B m)) qbuf = Some (q, qbody)" "get_packet_type q = REQUEST" "get_rpc_id h = get_rpc_id q"
    "names_method (B m) q svc sd meth'" "get_service_name h = service_name meth'" "get_method_name h = method_name meth'"
    unfolding reports_def by metis
  with response(4) have "reports h meth' r" by (simp add: reports_def)
  with call(1) response(2-5) request(1-5) assms(4) show ?thesis by metis
qed

text \<open>The client of the demo network receives the answer and calls its closure.\<close>

theorem no_result_is_invented_witness:
  "\<exists>(N :: bool \<Rightarrow> demo_hyper) meth rq rid m qbuf buf.
     EvDone (User 7) kSuccess \<in> set (trace (rpc_core_vec (N False) ! 1)) \<and>
     requested (trace (rpc_core_vec (N False) ! 1)) (User 7) meth rq rid \<and>
     sends (N m) buf (5, 5) \<and> sends (N False) qbuf (demo_addr m)"
proof -
  let ?E = "\<lambda>b. demo_env_of True (demo_depth b)"
  obtain N :: "bool \<Rightarrow> demo_hyper" and buf i n where net:
    "net_reachable demo_addr ?E (\<lambda>_. demo_hudp) (\<lambda>_. demo_options) (\<lambda>_. False) N"
    "arrives demo_addr N False buf (demo_addr True)"
    "parse_packet demo_rpc_pb buf = Some (reply_header demo_method (rpc_id n) kSuccess, [9])"
    "worker (N False) 1" "core_inv 1 (rpc_core_vec (N False) ! 1)" "live_at (rpc_core_vec (N False) ! 1) i n"
    "node_method n = demo_method" "node_done n = Some (User 7)" by (rule demo_network)
  let ?s = "N False" and ?s' = "Impl_OnRecvPacket (?E False) 1 True buf (1, 1) (N False)"
  let ?N = "N(False := ?s')"
  have "hyper_step_from (arrives demo_addr N False) (?E False) ?s ?s'"
    using net(2,4) by (intro hyper_happens hyper_packet) simp_all
  from net_step [OF net(1) this] have reach: "net_reachable demo_addr ?E (\<lambda>_. demo_hudp) (\<lambda>_. demo_options) (\<lambda>_. False) ?N" .
  have env: "core_env_of (?E False) ?s = ?E False"
    using nested_env_of(1) [OF demo_sizes, of True demo_user_of 0 demo_hudp demo_options "N False"]
      net_hyper_reachable [OF net(1), of False] by simp
  have "snd (OnRecvPacket (idle_env (demo_base_of True) demo_user_of) buf (1, 1) (rpc_core_vec ?s ! 1)) =
    (rpc_core_vec ?s ! 1)\<lparr>msgs := (msgs (rpc_core_vec ?s ! 1))(node_response n := [9]),
      trace := trace (rpc_core_vec ?s ! 1) @ [EvDone (User 7) kSuccess],
      timerw := fst (cancelled (sess_env (demo_base_of True)) i (rpc_core_vec ?s ! 1)),
      sess_pool := (sess_pool (rpc_core_vec ?s ! 1))[i := freed (snd (cancelled (sess_env (demo_base_of True)) i (rpc_core_vec ?s ! 1))) n]\<rparr>"
    by (subst client_response [where k = 1 and i = i and n = n and d = "User 7" and m' = demo_method and r = kSuccess and vb = "[9]" and v = "[9]"])
      (use net(3,5-8) in \<open>simp_all add: core_inv_def context_inv_def demo_base_of_def\<close>)
  then have called: "EvDone (User 7) kSuccess \<in> set (trace (rpc_core_vec ?s' ! 1))"
    using net(4) env by (auto simp: Impl_OnRecvPacket_def worker_def Let_def set_core_def split: prod.split)
  have w: "worker ?s' 1"
    using net(4) by (auto simp: Impl_OnRecvPacket_def worker_def Let_def set_core_def split: prod.split)
  have pb: "pb (demo_base_of True) = demo_rpc_pb" by (simp add: demo_base_of_def)
  have sound: "parse_sound (pb (demo_base_of True))" unfolding pb by (rule one_method_sound)
  have "inj demo_addr" "worker (?N False) 1" "EvDone (User 7) kSuccess \<in> set (trace (rpc_core_vec (?N False) ! 1))"
    "\<not> own_result kSuccess"
    using w called by (simp_all add: inj_def own_result_def)
  from no_result_is_invented [where B = "\<lambda>_. demo_base_of True" and U = "\<lambda>_. demo_user_of" and d = demo_depth,
      OF reach refl sound refl this]
  obtain meth rq rid m qbuf wbuf where
    "requested (trace (rpc_core_vec (?N False) ! 1)) (User 7) meth rq rid"
    "sends (?N m) wbuf (demo_addr False)" "sends (?N False) qbuf (demo_addr m)" by blast
  with called show ?thesis
    by (intro exI [of _ ?N] exI [of _ meth] exI [of _ rq] exI [of _ rid] exI [of _ m] exI [of _ qbuf] exI [of _ wbuf]) simp
qed

end
