(* ===== verification/Compiler.thy ===== *)
theory Compiler
  imports Prelude
begin

text \<open>
  The protoc plugin of \<^verbatim>\<open>src/hyperrpc/compiler\<close>: \<open>CppServiceGenerator\<close>
  (\<^verbatim>\<open>cpp_service.cc\<close>), \<open>CppFileGenerator\<close> (\<^verbatim>\<open>cpp_file.cc\<close>) and \<open>CppGenerator\<close>
  (\<^verbatim>\<open>cpp_generator.cc\<close>). The plugin writes its output by calls to protobuf's
  \<open>io::Printer\<close>, which is not part of the repository: a generating function is modelled by
  the sequence of printer calls it makes, in order, each with its template and its
  variables. Protobuf's naming helpers are a parameter.
\<close>

section \<open>The interface to protobuf\<close>

text \<open>A call to a printer: \<open>Print(vars, text)\<close>, \<open>Indent()\<close> or \<open>Outdent()\<close>.\<close>

datatype printer_call =
    Print (vars: "(string \<times> string) list") (template: string)
  | Indent
  | Outdent

text \<open>What the plugin reads of the descriptors of a method, a service and a file; \<open>'d\<close> stands
  for the message descriptors, only handed on.\<close>

record 'd MethodDescriptor =
  method_name :: string
  input_type :: 'd
  output_type :: 'd

record 'd ServiceDescriptor =
  service_name :: string
  full_name :: string
  methods :: "'d MethodDescriptor list"

record 'd FileDescriptor =
  file_name :: string
  package :: string
  services :: "'d ServiceDescriptor list"

definition method_count :: "'d ServiceDescriptor \<Rightarrow> nat" where
  "method_count d = length (methods d)"

definition service_count :: "'d FileDescriptor \<Rightarrow> nat" where
  "service_count f = length (services f)"

text \<open>The functions and constants of protobuf's \<^verbatim>\<open>cpp_helpers.h\<close> and \<^verbatim>\<open>strutil.h\<close>
  that the plugin uses.\<close>

record 'd cpp_helpers =
  ClassName :: "'d \<Rightarrow> bool \<Rightarrow> string"
  StripProto :: "string \<Rightarrow> string"
  FilenameIdentifier :: "string \<Rightarrow> string"
  SimpleItoa :: "nat \<Rightarrow> string"
  GlobalAddDescriptorsName :: "string \<Rightarrow> string"
  GlobalAssignDescriptorsName :: "string \<Rightarrow> string"
  SplitStringUsing :: "string \<Rightarrow> string \<Rightarrow> string list"
  kThickSeparator :: string
  kThinSeparator :: string

text \<open>A C++ literal of several lines, each ended by a newline.\<close>

definition lns :: "string list \<Rightarrow> string" where
  "lns ls = concat (map (\<lambda>l. l @ [CHR 0x0A]) ls)"

section \<open>CppServiceGenerator\<close>

definition service_vars :: "'d ServiceDescriptor \<Rightarrow> (string \<times> string) list" where
  "service_vars d = [(''classname'', service_name d), (''fullname'', full_name d)]"

definition GenerateMethodSignatures ::
  "'d cpp_helpers \<Rightarrow> 'd ServiceDescriptor \<Rightarrow> bool \<Rightarrow> printer_call list" where
  "GenerateMethodSignatures H d is_virtual = concat (map (\<lambda>i.
     let method = methods d ! i;
         sub_vars = [(''name'', method_name method),
                     (''input_type'', ClassName H (input_type method) True),
                     (''output_type'', ClassName H (output_type method) True),
                     (''virtual'', if is_virtual then ''virtual '' else '''')]
     in (if \<not> is_virtual then [Print [] (lns [''// async stub method''])] else []) @
        [Print sub_vars
          (lns [''$virtual$void $name$('',
                ''    const $input_type$* request,'',
                ''    $output_type$* response,'',
                ''    ::hrpc::DoneFunc done);''])] @
        (if \<not> is_virtual
         then [Print sub_vars
          (lns [''// sync stub method'',
                ''::hrpc::Result $name$('',
                ''    const $input_type$& request,'',
                ''    $output_type$* response);''])]
         else []))
     [0..<method_count d])"

definition GenerateDeclarations ::
  "'d cpp_helpers \<Rightarrow> 'd ServiceDescriptor \<Rightarrow> printer_call list" where
  "GenerateDeclarations H d =
     [Print (service_vars d)
       (lns ['''',
             ''class $classname$_Stub;'',
             '''']),
      Print (service_vars d)
       (lns [''class $classname$ : public ::hrpc::Service'',
             ''{'',
             '' protected:'',
             ''  // This class should be treated as an abstract interface.'',
             ''  inline $classname$() {};'',
             '' public:'',
             ''  virtual ~$classname$();'']),
      Indent,
      Print (service_vars d)
       (lns ['''',
             ''typedef $classname$_Stub Stub;'',
             '''',
             ''static const ::google::protobuf::ServiceDescriptor* descriptor();'',
             ''''])] @
     GenerateMethodSignatures H d True @
     [Print []
       (lns ['''',
             ''// implements Service ----------------------------------------------'',
             '''',
             ''const ::google::protobuf::ServiceDescriptor* GetDescriptor();'',
             ''void CallMethod('',
             ''    const ::google::protobuf::MethodDescriptor* method,'',
             ''    const ::google::protobuf::Message* request,'',
             ''    ::google::protobuf::Message* response,'',
             ''    ::hrpc::DoneFunc done);'',
             ''const ::google::protobuf::Message& GetRequestPrototype('',
             ''    const ::google::protobuf::MethodDescriptor* method) const;'',
             ''const ::google::protobuf::Message& GetResponsePrototype('',
             ''    const ::google::protobuf::MethodDescriptor* method) const;'']),
      Outdent,
      Print (service_vars d)
       (lns ['''',
             '' private:'',
             ''  // not copyable and movable'',
             ''  $classname$(const $classname$&) = delete;'',
             ''  void operator=(const $classname$&) = delete;'',
             ''  $classname$($classname$&&) = delete;'',
             ''  void operator=($classname$&&) = delete;'',
             ''};'',
             '''']),
      Print (service_vars d)
       (lns [''class $classname$_Stub : public $classname$'',
             ''{'',
             '' public:'']),
      Indent,
      Print (service_vars d)
       (lns [''$classname$_Stub(::hrpc::HyperRpc* hrpc);'',
             ''~$classname$_Stub();'',
             '''',
             ''inline ::hrpc::HyperRpc* hrpc() const { return hrpc_; }'',
             '''',
             ''// implements $classname$ ------------------------------------------'',
             ''''])] @
     GenerateMethodSignatures H d False @
     [Outdent,
      Print (service_vars d)
       (lns ['''',
             '' private:'',
             ''  // not copyable and movable'',
             ''  $classname$_Stub(const $classname$_Stub&) = delete;'',
             ''  void operator=(const $classname$_Stub&) = delete;'',
             ''  $classname$_Stub($classname$_Stub&&) = delete;'',
             ''  void operator=($classname$_Stub&&) = delete;'',
             '''',
             ''  ::hrpc::HyperRpc* hrpc_;'',
             ''};'',
             ''''])]"

definition GenerateDescriptorInitializer ::
  "'d cpp_helpers \<Rightarrow> 'd ServiceDescriptor \<Rightarrow> nat \<Rightarrow> printer_call list" where
  "GenerateDescriptorInitializer H d index =
     [Print [(''classname'', service_name d), (''index'', SimpleItoa H index)]
       (lns [''$classname$_descriptor_ = file->service($index$);''])]"

definition GenerateNotImplementedMethods ::
  "'d cpp_helpers \<Rightarrow> 'd ServiceDescriptor \<Rightarrow> printer_call list" where
  "GenerateNotImplementedMethods H d = map (\<lambda>i.
     let method = methods d ! i;
         sub_vars = [(''classname'', service_name d),
                     (''methodname'', method_name method),
                     (''index'', SimpleItoa H i),
                     (''input_type'', ClassName H (input_type method) True),
                     (''output_type'', ClassName H (output_type method) True)]
     in Print sub_vars
          (lns [''void $classname$::$methodname$('',
                ''    const $input_type$*,'',
                ''    $output_type$*,'',
                ''    ::hrpc::DoneFunc done) {'',
                ''  done(::hrpc::kNotImpl);'',
                ''}'',
                '''']))
     [0..<method_count d]"

definition GenerateCallMethod ::
  "'d cpp_helpers \<Rightarrow> 'd ServiceDescriptor \<Rightarrow> printer_call list" where
  "GenerateCallMethod H d =
     [Print (service_vars d)
       (lns [''void $classname$::CallMethod('',
             ''    const ::google::protobuf::MethodDescriptor* method,'',
             ''    const ::google::protobuf::Message* request,'',
             ''    ::google::protobuf::Message* response,'',
             ''    ::hrpc::DoneFunc done) {'',
             ''  GOOGLE_DCHECK_EQ(method->service(), $classname$_descriptor_);'',
             ''  switch(method->index()) {''])] @
     map (\<lambda>i.
       let method = methods d ! i;
           sub_vars = [(''name'', method_name method),
                       (''index'', SimpleItoa H i),
                       (''input_type'', ClassName H (input_type method) True),
                       (''output_type'', ClassName H (output_type method) True)]
       in Print sub_vars
            (lns [''    case $index$:'',
                  ''      $name$('',
                  ''        ::google::protobuf::down_cast<const $input_type$*>(request),'',
                  ''        ::google::protobuf::down_cast< $output_type$*>(response),'',
                  ''        done);'',
                  ''      break;'']))
       [0..<method_count d] @
     [Print (service_vars d)
       (lns [''    default:'',
             ''      GOOGLE_LOG(FATAL) << \"Bad method index; this should never happen.\";'',
             ''      break;'',
             ''  }'',
             ''}'',
             ''''])]"

definition GenerateGetPrototype ::
  "'d cpp_helpers \<Rightarrow> 'd ServiceDescriptor \<Rightarrow> bool \<Rightarrow> printer_call list" where
  "GenerateGetPrototype H d is_request =
     (if is_request
      then [Print (service_vars d)
        (lns [''const ::google::protobuf::Message& $classname$::GetRequestPrototype(''])]
      else [Print (service_vars d)
        (lns [''const ::google::protobuf::Message& $classname$::GetResponsePrototype(''])]) @
     [Print (service_vars d)
       (lns [''    const ::google::protobuf::MethodDescriptor* method) const {'',
             ''  GOOGLE_DCHECK_EQ(method->service(), descriptor());'',
             ''  switch(method->index()) {''])] @
     map (\<lambda>i.
       let method = methods d ! i;
           type = (if is_request then input_type method else output_type method);
           sub_vars = [(''index'', SimpleItoa H i), (''type'', ClassName H type True)]
       in Print sub_vars
            (lns [''    case $index$:'',
                  ''      return $type$::default_instance();'']))
       [0..<method_count d] @
     [Print [(''input_or_output'', if is_request then ''input'' else ''output'')]
       (lns [''    default:'',
             ''      GOOGLE_LOG(FATAL) << \"Bad method index; this should never happen.\";'',
             ''      return *::google::protobuf::MessageFactory::generated_factory()'',
             ''          ->GetPrototype(method->$input_or_output$_type());'',
             ''  }'',
             ''}'',
             ''''])]"

definition GenerateStubMethods ::
  "'d cpp_helpers \<Rightarrow> 'd ServiceDescriptor \<Rightarrow> printer_call list" where
  "GenerateStubMethods H d = concat (map (\<lambda>i.
     let method = methods d ! i;
         sub_vars = [(''classname'', service_name d),
                     (''name'', method_name method),
                     (''index'', SimpleItoa H i),
                     (''input_type'', ClassName H (input_type method) True),
                     (''output_type'', ClassName H (output_type method) True)]
     in [Print sub_vars
          (lns [''void $classname$_Stub::$name$('',
                ''    const $input_type$* request,'',
                ''    $output_type$* response,'',
                ''    ::hrpc::DoneFunc done) {'',
                ''  hrpc_->CallMethod(descriptor()->method($index$),'',
                ''                    request, response, std::move(done));'',
                ''}'']),
         Print sub_vars
          (lns [''::hrpc::Result $classname$_Stub::$name$('',
                ''    const $input_type$& request,'',
                ''    $output_type$* response) {'',
                ''  return hrpc_->CallMethod(descriptor()->method($index$),'',
                ''                           &request, response, nullptr);'',
                ''}''])])
     [0..<method_count d])"

definition GenerateImplementation ::
  "'d cpp_helpers \<Rightarrow> 'd ServiceDescriptor \<Rightarrow> printer_call list" where
  "GenerateImplementation H d =
     [Print (service_vars d)
       (lns [''$classname$::~$classname$() {}'',
             '''',
             ''const ::google::protobuf::ServiceDescriptor* $classname$::descriptor() {'',
             ''  hrpc_protobuf_AssignDescriptorsOnce();'',
             ''  return $classname$_descriptor_;'',
             ''}'',
             '''',
             ''const ::google::protobuf::ServiceDescriptor* $classname$::GetDescriptor() {'',
             ''  hrpc_protobuf_AssignDescriptorsOnce();'',
             ''  return $classname$_descriptor_;'',
             ''}'',
             ''''])] @
     GenerateNotImplementedMethods H d @
     GenerateCallMethod H d @
     GenerateGetPrototype H d True @
     GenerateGetPrototype H d False @
     [Print (service_vars d)
       (lns [''$classname$_Stub::$classname$_Stub(::hrpc::HyperRpc* hrpc)'',
             ''  : hrpc_(hrpc) {}'',
             ''$classname$_Stub::~$classname$_Stub() {}'',
             ''''])] @
     GenerateStubMethods H d"

section \<open>CppFileGenerator\<close>

text \<open>The constructor: one service generator per service, and the parts of the package name.\<close>

record 'd CppFileGenerator =
  gen_file :: "'d FileDescriptor"
  package_parts :: "string list"
  service_generators :: "'d ServiceDescriptor list"

definition CppFileGenerator_init ::
  "'d cpp_helpers \<Rightarrow> 'd FileDescriptor \<Rightarrow> 'd CppFileGenerator" where
  "CppFileGenerator_init H fd =
     \<lparr>gen_file = fd,
      package_parts = SplitStringUsing H (package fd) ''.'',
      service_generators = map (\<lambda>i. services fd ! i) [0..<service_count fd]\<rparr>"

definition GenerateNamespaceOpeners :: "'d CppFileGenerator \<Rightarrow> printer_call list" where
  "GenerateNamespaceOpeners g =
     (if length (package_parts g) > 0 then [Print [] (lns [''''])] else []) @
     map (\<lambda>i. Print [(''part'', package_parts g ! i)] (lns [''namespace $part$ {'']))
       [0..<length (package_parts g)]"

definition GenerateNamespaceClosers :: "'d CppFileGenerator \<Rightarrow> printer_call list" where
  "GenerateNamespaceClosers g =
     (if length (package_parts g) > 0 then [Print [] (lns [''''])] else []) @
     map (\<lambda>i. Print [(''part'', package_parts g ! i)] (lns [''}  // namespace $part$'']))
       (rev [0..<length (package_parts g)])"

definition GenerateTopHeaderGuard ::
  "'d CppFileGenerator \<Rightarrow> string \<Rightarrow> printer_call list" where
  "GenerateTopHeaderGuard g filename_identifier =
     [Print [(''filename'', file_name (gen_file g)), (''filename_identifier'', filename_identifier)]
       (lns [''// Generated by the protobuf compiler hyper-rpc plugin.  DO NOT EDIT!'',
             ''// source: $filename$'',
             '''',
             ''#ifndef HRPC_$filename_identifier$__INCLUDED'',
             ''#define HRPC_$filename_identifier$__INCLUDED'',
             '''',
             ''#include <string>'']),
      Print [] (lns [''''])]"

definition GenerateBottomHeaderGuard ::
  "'d CppFileGenerator \<Rightarrow> string \<Rightarrow> printer_call list" where
  "GenerateBottomHeaderGuard g filename_identifier =
     [Print [(''filename_identifier'', filename_identifier)]
       (lns ['''',
             ''#endif  // HRPC_$filename_identifier$__INCLUDED''])]"

definition GenerateLibraryIncludes ::
  "'d cpp_helpers \<Rightarrow> 'd CppFileGenerator \<Rightarrow> printer_call list" where
  "GenerateLibraryIncludes H g =
     [Print [] (lns [''#include <hyperrpc/service.h>'']),
      Print [(''filename'', StripProto H (file_name (gen_file g)))]
       (lns [''#include \"$filename$.pb.h\"''])]"

definition GenerateForwardDeclarations :: "'d CppFileGenerator \<Rightarrow> printer_call list" where
  "GenerateForwardDeclarations g =
     [Print []
       (lns ['''',
             ''namespace hrpc {'',
             ''  class HyperRpc;'',
             ''} // namespace hrpc''])]"

definition GetAssignDescriptorsName :: "'d cpp_helpers \<Rightarrow> string \<Rightarrow> string" where
  "GetAssignDescriptorsName H name = ''hrpc_'' @ GlobalAssignDescriptorsName H name"

definition GenerateBuildDescriptors ::
  "'d cpp_helpers \<Rightarrow> 'd CppFileGenerator \<Rightarrow> printer_call list" where
  "GenerateBuildDescriptors H g =
     [Print [(''assigndescriptorsname'', GetAssignDescriptorsName H (file_name (gen_file g)))]
       (lns ['''',
             ''void $assigndescriptorsname$() {'']),
      Indent,
      Print [(''adddescriptorsname'', GlobalAddDescriptorsName H (file_name (gen_file g)))]
       (lns [''$adddescriptorsname$();'']),
      Print [(''filename'', file_name (gen_file g))]
       (lns [''const ::google::protobuf::FileDescriptor* file ='',
             ''  ::google::protobuf::DescriptorPool::generated_pool()->FindFileByName('',
             ''    \"$filename$\");'',
             ''GOOGLE_CHECK(file != NULL);''])] @
     concat (map (\<lambda>i. GenerateDescriptorInitializer H (service_generators g ! i) i)
       [0..<service_count (gen_file g)]) @
     [Outdent,
      Print [] (lns [''}'',
                     '''']),
      Print [(''assigndescriptorsname'', GetAssignDescriptorsName H (file_name (gen_file g)))]
       (lns [''namespace {'',
             '''',
             ''GOOGLE_PROTOBUF_DECLARE_ONCE(hrpc_protobuf_AssignDescriptors_once_);'',
             ''inline void hrpc_protobuf_AssignDescriptorsOnce() {'',
             ''  ::google::protobuf::GoogleOnceInit('',
             ''                 &hrpc_protobuf_AssignDescriptors_once_,'',
             ''                 &$assigndescriptorsname$);'',
             ''}'',
             '''',
             ''}  // namespace''])]"

definition GenerateServiceDefinitions ::
  "'d cpp_helpers \<Rightarrow> 'd CppFileGenerator \<Rightarrow> printer_call list" where
  "GenerateServiceDefinitions H g =
     concat (map (\<lambda>i.
       (if i > 0
        then [Print [] (lns ['''']), Print [] (kThinSeparator H), Print [] (lns [''''])]
        else []) @
       GenerateDeclarations H (service_generators g ! i))
       [0..<service_count (gen_file g)]) @
     [Print [] (lns ['''']), Print [] (kThickSeparator H), Print [] (lns [''''])]"

definition GenerateHeader ::
  "'d cpp_helpers \<Rightarrow> 'd CppFileGenerator \<Rightarrow> printer_call list" where
  "GenerateHeader H g =
    (let filename_identifier = FilenameIdentifier H (file_name (gen_file g)) in
     GenerateTopHeaderGuard g filename_identifier @
     GenerateLibraryIncludes H g @
     GenerateForwardDeclarations g @
     GenerateNamespaceOpeners g @
     GenerateServiceDefinitions H g @
     GenerateNamespaceClosers g @
     GenerateBottomHeaderGuard g filename_identifier)"

definition GenerateSource ::
  "'d cpp_helpers \<Rightarrow> 'd CppFileGenerator \<Rightarrow> printer_call list" where
  "GenerateSource H g =
    (let header = StripProto H (file_name (gen_file g)) @ ''.hrpc.pb.h'' in
     [Print [(''filename'', file_name (gen_file g)), (''header'', header)]
       (lns [''// Generated by the protobuf compiler hyper-rpc plugin.  DO NOT EDIT!'',
             ''// source: $filename$'',
             '''',
             ''#include \"$header$\"'']),
      Print [] (lns [''#include <google/protobuf/descriptor.h>''])] @
     GenerateNamespaceOpeners g @
     [Print [] (lns ['''',
                     ''namespace {'',
                     ''''])] @
     map (\<lambda>i. Print [(''name'', service_name (services (gen_file g) ! i))]
       (lns [''const ::google::protobuf::ServiceDescriptor* $name$_descriptor_ = NULL;'']))
       [0..<service_count (gen_file g)] @
     [Print [] (lns ['''',
                     ''}  // namespace'',
                     ''''])] @
     GenerateBuildDescriptors H g @
     concat (map (\<lambda>i.
       (if i = 0 then [Print [] (lns [''''])] else []) @
       [Print [] (kThickSeparator H), Print [] (lns [''''])] @
       GenerateImplementation H (service_generators g ! i))
       [0..<service_count (gen_file g)]) @
     GenerateNamespaceClosers g)"

section \<open>CppGenerator\<close>

text \<open>\<open>Generate\<close>: the files it opens in the generator context, in order, with the calls made to
  the printer of each, and the value it returns. The parsed parameter is not used.\<close>

definition Generate ::
  "'d cpp_helpers \<Rightarrow> 'd FileDescriptor \<Rightarrow> string \<Rightarrow>
   (string \<times> printer_call list) list \<times> bool" where
  "Generate H fd parameter =
    (let file_generator = CppFileGenerator_init H fd;
         basename = StripProto H (file_name fd) @ ''.hrpc.pb''
     in ([(basename @ ''.h'', GenerateHeader H file_generator),
          (basename @ ''.cc'', GenerateSource H file_generator)], True))"

text \<open>\<open>main\<close> of the plugin (\<^verbatim>\<open>cpp_plugin.cc\<close>): protobuf's \<open>PluginMain\<close>, a parameter, gets the
  arguments and the generator, and its result is the exit status.\<close>

definition plugin_main ::
  "(string list \<Rightarrow> ('d FileDescriptor \<Rightarrow> string \<Rightarrow> (string \<times> printer_call list) list \<times> bool) \<Rightarrow> 'status) \<Rightarrow>
   'd cpp_helpers \<Rightarrow> string list \<Rightarrow> 'status" where
  "plugin_main PluginMain H argv = PluginMain argv (Generate H)"

end
