(* ===== verification/CompilerProperties.thy ===== *)
theory CompilerProperties
  imports Compiler
begin

text \<open>
  Properties of the code generator: its calls respect the rules of \<open>io::Printer\<close>, the braces
  of the text it prints balance, and the parts of the generated code that must agree
  (stub, dispatcher, prototypes, declarations, definitions) do.
\<close>

named_theorems printer_simps \<open>effect of the calls of a generating function\<close>

section \<open>Rules of the printer\<close>

text \<open>The variables a template names between its \<open>$\<close> delimiters; \<open>None\<close> if a delimiter is
  left open.\<close>

fun variable_names :: "string option \<Rightarrow> string \<Rightarrow> string list option" where
  "variable_names None [] = Some []"
| "variable_names (Some v) [] = None"
| "variable_names None (c # cs) =
     (if c = CHR ''$'' then variable_names (Some []) cs else variable_names None cs)"
| "variable_names (Some v) (c # cs) =
     (if c = CHR ''$'' then map_option (Cons (rev v)) (variable_names None cs)
      else variable_names (Some (c # v)) cs)"

text \<open>All of them have a value; the empty name stands for the delimiter itself.\<close>

definition all_defined :: "(string \<times> string) list \<Rightarrow> string \<Rightarrow> bool" where
  "all_defined vs t =
     (case variable_names None t of None \<Rightarrow> False
      | Some ns \<Rightarrow> list_all (\<lambda>n. n = [] \<or> map_of vs n \<noteq> None) ns)"

text \<open>One call at an indentation level: a template may use only defined variables, and
  \<open>Outdent\<close> needs an \<open>Indent\<close> to undo; otherwise the printer aborts.\<close>

fun use_step :: "printer_call \<Rightarrow> nat \<Rightarrow> nat option" where
  "use_step (Print vs t) n = (if all_defined vs t then Some n else None)"
| "use_step Indent n = Some (Suc n)"
| "use_step Outdent n = (case n of 0 \<Rightarrow> None | Suc m \<Rightarrow> Some m)"

text \<open>The depth of braces after a text; \<open>None\<close> if it closes one that is not open.\<close>

fun braces :: "string \<Rightarrow> nat \<Rightarrow> nat option" where
  "braces [] n = Some n"
| "braces (c # cs) n =
     (if c = CHR ''{'' then braces cs (Suc n)
      else if c = CHR ''}'' then (case n of 0 \<Rightarrow> None | Suc m \<Rightarrow> braces cs m)
      else braces cs n)"

fun brace_step :: "printer_call \<Rightarrow> nat \<Rightarrow> nat option" where
  "brace_step (Print vs t) n = braces t n"
| "brace_step Indent n = Some n"
| "brace_step Outdent n = Some n"

text \<open>A sequence of calls, one after the other.\<close>

fun thread :: "('c \<Rightarrow> nat \<Rightarrow> nat option) \<Rightarrow> 'c list \<Rightarrow> nat \<Rightarrow> nat option" where
  "thread f [] n = Some n"
| "thread f (c # cs) n = (case f c n of None \<Rightarrow> None | Some m \<Rightarrow> thread f cs m)"

lemma thread_append [printer_simps]:
  "thread f (xs @ ys) n = (case thread f xs n of None \<Rightarrow> None | Some m \<Rightarrow> thread f ys m)"
  by (induction xs arbitrary: n) (auto split: option.splits)

lemma thread_concat_neutral:
  assumes "\<And>x. x \<in> set xs \<Longrightarrow> thread f (g x) n = Some n"
  shows "thread f (concat (map g xs)) n = Some n"
  using assms by (induction xs) (auto simp: thread_append)

lemma thread_map_neutral:
  assumes "\<And>x. x \<in> set xs \<Longrightarrow> f (g x) n = Some n"
  shows "thread f (map g xs) n = Some n"
  using assms by (induction xs) auto

lemma thread_map_up:
  assumes "\<And>x n. x \<in> set xs \<Longrightarrow> f (g x) n = Some (Suc n)"
  shows "thread f (map g xs) n = Some (n + length xs)"
  using assms by (induction xs arbitrary: n) auto

lemma thread_map_down:
  assumes "\<And>x n. x \<in> set xs \<Longrightarrow> f (g x) (Suc n) = Some n"
  shows "thread f (map g xs) (n + length xs) = Some n"
  using assms by (induction xs arbitrary: n) auto

lemma all_defined_plain: "CHR ''$'' \<notin> set t \<Longrightarrow> all_defined vs t"
proof -
  have "CHR ''$'' \<notin> set t \<Longrightarrow> variable_names None t = Some []" by (induction t) auto
  then show "CHR ''$'' \<notin> set t \<Longrightarrow> all_defined vs t" by (simp add: all_defined_def)
qed

lemma braces_plain: "CHR ''{'' \<notin> set t \<Longrightarrow> CHR ''}'' \<notin> set t \<Longrightarrow> braces t n = Some n"
  by (induction t) auto

lemmas template_simps = all_defined_def lns_def Let_def

section \<open>The service generator uses its printer correctly\<close>

lemma use_GenerateMethodSignatures [printer_simps]:
  "thread use_step (GenerateMethodSignatures H d v) n = Some n"
  unfolding GenerateMethodSignatures_def
  by (rule thread_concat_neutral) (simp add: template_simps)

lemma use_GenerateDeclarations [printer_simps]:
  "thread use_step (GenerateDeclarations H d) n = Some n"
  unfolding GenerateDeclarations_def service_vars_def
  by (simp add: template_simps printer_simps)

lemma use_GenerateDescriptorInitializer [printer_simps]:
  "thread use_step (GenerateDescriptorInitializer H d i) n = Some n"
  by (simp add: GenerateDescriptorInitializer_def template_simps)

lemma use_GenerateNotImplementedMethods [printer_simps]:
  "thread use_step (GenerateNotImplementedMethods H d) n = Some n"
  unfolding GenerateNotImplementedMethods_def
  by (rule thread_map_neutral) (simp add: template_simps)

lemma use_GenerateCallMethod [printer_simps]:
  "thread use_step (GenerateCallMethod H d) n = Some n"
  unfolding GenerateCallMethod_def service_vars_def
  by (simp add: template_simps printer_simps thread_map_neutral)

lemma use_GenerateGetPrototype [printer_simps]:
  "thread use_step (GenerateGetPrototype H d r) n = Some n"
  unfolding GenerateGetPrototype_def service_vars_def
  by (simp add: template_simps printer_simps thread_map_neutral)

lemma use_GenerateStubMethods [printer_simps]:
  "thread use_step (GenerateStubMethods H d) n = Some n"
  unfolding GenerateStubMethods_def
  by (rule thread_concat_neutral) (simp add: template_simps)

lemma use_GenerateImplementation [printer_simps]:
  "thread use_step (GenerateImplementation H d) n = Some n"
  unfolding GenerateImplementation_def service_vars_def
  by (simp add: template_simps printer_simps)

section \<open>The service generator balances its braces\<close>

lemma braces_GenerateMethodSignatures [printer_simps]:
  "thread brace_step (GenerateMethodSignatures H d v) n = Some n"
  unfolding GenerateMethodSignatures_def
  by (rule thread_concat_neutral) (simp add: template_simps)

lemma braces_GenerateDeclarations [printer_simps]:
  "thread brace_step (GenerateDeclarations H d) n = Some n"
  unfolding GenerateDeclarations_def
  by (simp add: template_simps printer_simps)

lemma braces_GenerateDescriptorInitializer [printer_simps]:
  "thread brace_step (GenerateDescriptorInitializer H d i) n = Some n"
  by (simp add: GenerateDescriptorInitializer_def template_simps)

lemma braces_GenerateNotImplementedMethods [printer_simps]:
  "thread brace_step (GenerateNotImplementedMethods H d) n = Some n"
  unfolding GenerateNotImplementedMethods_def
  by (rule thread_map_neutral) (simp add: template_simps)

lemma braces_GenerateCallMethod [printer_simps]:
  "thread brace_step (GenerateCallMethod H d) n = Some n"
  unfolding GenerateCallMethod_def
  by (simp add: template_simps printer_simps thread_map_neutral)

lemma braces_GenerateGetPrototype [printer_simps]:
  "thread brace_step (GenerateGetPrototype H d r) n = Some n"
  unfolding GenerateGetPrototype_def
  by (simp add: template_simps printer_simps thread_map_neutral)

lemma braces_GenerateStubMethods [printer_simps]:
  "thread brace_step (GenerateStubMethods H d) n = Some n"
  unfolding GenerateStubMethods_def
  by (rule thread_concat_neutral) (simp add: template_simps)

lemma braces_GenerateImplementation [printer_simps]:
  "thread brace_step (GenerateImplementation H d) n = Some n"
  unfolding GenerateImplementation_def
  by (simp add: template_simps printer_simps)

section \<open>The file generator\<close>

lemmas small_generators =
  GenerateTopHeaderGuard_def GenerateBottomHeaderGuard_def GenerateLibraryIncludes_def
  GenerateForwardDeclarations_def

lemma use_namespaces [printer_simps]:
  "thread use_step (GenerateNamespaceOpeners g) n = Some n"
  "thread use_step (GenerateNamespaceClosers g) n = Some n"
  unfolding GenerateNamespaceOpeners_def GenerateNamespaceClosers_def
  by (simp_all add: template_simps printer_simps thread_map_neutral)

lemma use_small_generators [printer_simps]:
  "thread use_step (GenerateTopHeaderGuard g s) n = Some n"
  "thread use_step (GenerateBottomHeaderGuard g s) n = Some n"
  "thread use_step (GenerateLibraryIncludes H g) n = Some n"
  "thread use_step (GenerateForwardDeclarations g) n = Some n"
  unfolding small_generators by (simp_all add: template_simps)

lemma use_GenerateBuildDescriptors [printer_simps]:
  "thread use_step (GenerateBuildDescriptors H g) n = Some n"
proof -
  have "thread use_step (concat (map (\<lambda>i.
      GenerateDescriptorInitializer H (service_generators g ! i) i)
      [0..<service_count (gen_file g)])) (Suc n) = Some (Suc n)"
    by (rule thread_concat_neutral) (rule printer_simps)
  then show ?thesis
    unfolding GenerateBuildDescriptors_def by (simp add: template_simps printer_simps)
qed

text \<open>The openers raise the depth by the number of parts of the package, the closers lower it
  by as much.\<close>

lemma braces_namespaces [printer_simps]:
  "thread brace_step (GenerateNamespaceOpeners g) n = Some (n + length (package_parts g))"
  "thread brace_step (GenerateNamespaceClosers g) (n + length (package_parts g)) = Some n"
proof -
  have "thread brace_step (map (\<lambda>i. Print [(''part'', package_parts g ! i)]
      (lns [''namespace $part$ {''])) [0..<length (package_parts g)]) n
      = Some (n + length [0..<length (package_parts g)])"
    by (rule thread_map_up) (simp add: template_simps)
  then show "thread brace_step (GenerateNamespaceOpeners g) n
      = Some (n + length (package_parts g))"
    unfolding GenerateNamespaceOpeners_def by (simp add: printer_simps lns_def)
  have "thread brace_step (map (\<lambda>i. Print [(''part'', package_parts g ! i)]
      (lns [''}  // namespace $part$''])) (rev [0..<length (package_parts g)]))
      (n + length (rev [0..<length (package_parts g)])) = Some n"
    by (rule thread_map_down) (simp add: template_simps)
  then show "thread brace_step (GenerateNamespaceClosers g) (n + length (package_parts g))
      = Some n"
    unfolding GenerateNamespaceClosers_def by (simp add: printer_simps lns_def)
qed

lemmas braces_closers0 [printer_simps] = braces_namespaces(2) [where n = 0, simplified]

lemma braces_small_generators [printer_simps]:
  "thread brace_step (GenerateTopHeaderGuard g s) n = Some n"
  "thread brace_step (GenerateBottomHeaderGuard g s) n = Some n"
  "thread brace_step (GenerateLibraryIncludes H g) n = Some n"
  "thread brace_step (GenerateForwardDeclarations g) n = Some n"
  unfolding small_generators by (simp_all add: template_simps)

lemma braces_GenerateBuildDescriptors [printer_simps]:
  "thread brace_step (GenerateBuildDescriptors H g) n = Some n"
proof -
  have "thread brace_step (concat (map (\<lambda>i.
      GenerateDescriptorInitializer H (service_generators g ! i) i)
      [0..<service_count (gen_file g)])) (Suc n) = Some (Suc n)"
    by (rule thread_concat_neutral) (rule printer_simps)
  then show ?thesis
    unfolding GenerateBuildDescriptors_def by (simp add: template_simps printer_simps)
qed

text \<open>The separators are printed as templates, so they are comments without delimiters.\<close>

lemma use_GenerateServiceDefinitions:
  assumes "CHR ''$'' \<notin> set (kThickSeparator H)" "CHR ''$'' \<notin> set (kThinSeparator H)"
  shows "thread use_step (GenerateServiceDefinitions H g) n = Some n"
proof -
  have "thread use_step (concat (map (\<lambda>i.
      (if i > 0 then [Print [] (lns ['''']), Print [] (kThinSeparator H), Print [] (lns [''''])]
       else []) @ GenerateDeclarations H (service_generators g ! i))
      [0..<service_count (gen_file g)])) n = Some n"
    by (rule thread_concat_neutral)
      (simp add: printer_simps all_defined_plain assms, simp add: template_simps)
  then show ?thesis
    unfolding GenerateServiceDefinitions_def
    by (simp add: printer_simps all_defined_plain assms) (simp add: template_simps)
qed

lemma braces_GenerateServiceDefinitions:
  assumes "set (kThickSeparator H) \<inter> {CHR ''{'', CHR ''}''} = {}"
    and "set (kThinSeparator H) \<inter> {CHR ''{'', CHR ''}''} = {}"
  shows "thread brace_step (GenerateServiceDefinitions H g) n = Some n"
proof -
  note plain = braces_plain [of "kThickSeparator H"] braces_plain [of "kThinSeparator H"]
  have "thread brace_step (concat (map (\<lambda>i.
      (if i > 0 then [Print [] (lns ['''']), Print [] (kThinSeparator H), Print [] (lns [''''])]
       else []) @ GenerateDeclarations H (service_generators g ! i))
      [0..<service_count (gen_file g)])) n = Some n"
    using assms by (intro thread_concat_neutral) (simp add: printer_simps plain lns_def)
  then show ?thesis
    using assms unfolding GenerateServiceDefinitions_def
    by (simp add: printer_simps plain lns_def)
qed

lemma use_implementations:
  fixes g :: "'d CppFileGenerator"
  assumes "CHR ''$'' \<notin> set (kThickSeparator H)"
  shows "thread use_step (concat (map (\<lambda>i.
      (if i = 0 then [Print [] (lns [''''])] else []) @
      [Print [] (kThickSeparator H), Print [] (lns [''''])] @
      GenerateImplementation H (service_generators g ! i)) xs)) n = Some n"
  by (rule thread_concat_neutral)
    (simp add: printer_simps all_defined_plain assms, simp add: template_simps)

lemma braces_implementations:
  fixes g :: "'d CppFileGenerator"
  assumes "set (kThickSeparator H) \<inter> {CHR ''{'', CHR ''}''} = {}"
  shows "thread brace_step (concat (map (\<lambda>i.
      (if i = 0 then [Print [] (lns [''''])] else []) @
      [Print [] (kThickSeparator H), Print [] (lns [''''])] @
      GenerateImplementation H (service_generators g ! i)) xs)) n = Some n"
  using assms
  by (intro thread_concat_neutral)
    (simp add: printer_simps braces_plain [of "kThickSeparator H"] lns_def)

lemma use_GenerateHeader:
  assumes "CHR ''$'' \<notin> set (kThickSeparator H)" "CHR ''$'' \<notin> set (kThinSeparator H)"
  shows "thread use_step (GenerateHeader H g) n = Some n"
  unfolding GenerateHeader_def
  by (simp add: Let_def printer_simps use_GenerateServiceDefinitions assms)

lemma use_GenerateSource:
  assumes "CHR ''$'' \<notin> set (kThickSeparator H)"
  shows "thread use_step (GenerateSource H g) n = Some n"
proof -
  have "thread use_step (map (\<lambda>i. Print [(''name'', service_name (services (gen_file g) ! i))]
      (lns [''const ::google::protobuf::ServiceDescriptor* $name$_descriptor_ = NULL;'']))
      xs) n = Some n" for xs n
    by (rule thread_map_neutral) (simp add: template_simps)
  then show ?thesis
    using use_implementations [OF assms] unfolding GenerateSource_def Let_def lns_def
    by (simp add: printer_simps all_defined_def)
qed

lemma braces_GenerateHeader:
  assumes "set (kThickSeparator H) \<inter> {CHR ''{'', CHR ''}''} = {}"
    and "set (kThinSeparator H) \<inter> {CHR ''{'', CHR ''}''} = {}"
  shows "thread brace_step (GenerateHeader H g) 0 = Some 0"
  unfolding GenerateHeader_def
  by (simp add: Let_def printer_simps braces_GenerateServiceDefinitions assms)

lemma braces_GenerateSource:
  assumes "set (kThickSeparator H) \<inter> {CHR ''{'', CHR ''}''} = {}"
  shows "thread brace_step (GenerateSource H g) 0 = Some 0"
proof -
  have "thread brace_step (map (\<lambda>i. Print [(''name'', service_name (services (gen_file g) ! i))]
      (lns [''const ::google::protobuf::ServiceDescriptor* $name$_descriptor_ = NULL;'']))
      xs) n = Some n" for xs n
    by (rule thread_map_neutral) (simp add: template_simps)
  then show ?thesis
    using braces_implementations [OF assms] unfolding GenerateSource_def Let_def lns_def
    by (simp add: printer_simps)
qed

section \<open>Agreement of the generated parts\<close>

text \<open>The value of a variable in a call.\<close>

fun var :: "string \<Rightarrow> printer_call \<Rightarrow> string option" where
  "var k (Print vs t) = map_of vs k"
| "var k Indent = None"
| "var k Outdent = None"

text \<open>The calls of a sequence that carry a given index.\<close>

definition with_index :: "string option \<Rightarrow> printer_call list \<Rightarrow> printer_call list" where
  "with_index i cs = filter (\<lambda>c. i \<noteq> None \<and> var ''index'' c = i) cs"

text \<open>Name, request type and response type of each call that has the name under a key.\<close>

definition signatures ::
  "string \<Rightarrow> printer_call list \<Rightarrow> (string option \<times> string option \<times> string option) list" where
  "signatures k cs = map (\<lambda>c. (var k c, var ''input_type'' c, var ''output_type'' c))
     (filter (\<lambda>c. var k c \<noteq> None) cs)"

lemma with_index_simps [printer_simps]:
  "with_index i (xs @ ys) = with_index i xs @ with_index i ys"
  "with_index i [] = []"
  "with_index i (c # cs) =
     (if i \<noteq> None \<and> var ''index'' c = i then c # with_index i cs else with_index i cs)"
  by (auto simp: with_index_def)

lemma filter_upt_single: "j < n \<Longrightarrow> filter (\<lambda>i. i = j) [0..<n] = [j]"
proof (induction n)
  case (Suc n)
  then show ?case by (cases "j = n") (auto simp: filter_empty_conv)
qed simp

lemma with_index_map:
  assumes "inj f" "j < n" and key: "\<And>i. var ''index'' (g i) = Some (f i)"
  shows "with_index (Some (f j)) (map g [0..<n]) = [g j]"
proof -
  have "(\<lambda>c. var ''index'' c = Some (f j)) \<circ> g = (\<lambda>i. i = j)"
    using assms(1) by (auto simp: key fun_eq_iff dest: injD)
  then show ?thesis
    by (simp add: with_index_def filter_map filter_upt_single assms(2))
qed

lemma case_of_index:
  assumes "inj (SimpleItoa H)" "i < method_count d"
  shows "\<exists>c. with_index (Some (SimpleItoa H i)) (GenerateCallMethod H d) = [c] \<and>
      var ''name'' c = Some (method_name (methods d ! i)) \<and>
      var ''input_type'' c = Some (ClassName H (input_type (methods d ! i)) True) \<and>
      var ''output_type'' c = Some (ClassName H (output_type (methods d ! i)) True)"
  unfolding GenerateCallMethod_def Let_def
  by (simp add: printer_simps service_vars_def with_index_map [OF assms])

lemma prototype_of_index:
  assumes "inj (SimpleItoa H)" "i < method_count d"
  shows "\<exists>c. with_index (Some (SimpleItoa H i)) (GenerateGetPrototype H d r) = [c] \<and>
      var ''type'' c = Some (ClassName H
        (if r then input_type (methods d ! i) else output_type (methods d ! i)) True)"
  unfolding GenerateGetPrototype_def Let_def
  by (simp add: printer_simps service_vars_def with_index_map [OF assms])

lemma stub_calls:
  assumes "c \<in> set (GenerateStubMethods H d)"
  obtains i where "i < method_count d" "var ''index'' c = Some (SimpleItoa H i)"
    "var ''name'' c = Some (method_name (methods d ! i))"
    "var ''input_type'' c = Some (ClassName H (input_type (methods d ! i)) True)"
    "var ''output_type'' c = Some (ClassName H (output_type (methods d ! i)) True)"
  using assms unfolding GenerateStubMethods_def Let_def by auto

lemma signatures_simps [printer_simps]:
  "signatures k (xs @ ys) = signatures k xs @ signatures k ys"
  "signatures k [] = []"
  "signatures k (c # cs) =
     (if var k c \<noteq> None then [(var k c, var ''input_type'' c, var ''output_type'' c)] else []) @
     signatures k cs"
  by (auto simp: signatures_def)

lemma signatures_concat:
  "signatures k (concat (map f xs)) = concat (map (\<lambda>x. signatures k (f x)) xs)"
  by (induction xs) (simp_all add: printer_simps)

lemma signatures_map:
  "(\<And>x. var k (f x) \<noteq> None) \<Longrightarrow> signatures k (map f xs) =
   map (\<lambda>x. (var k (f x), var ''input_type'' (f x), var ''output_type'' (f x))) xs"
  by (induction xs) (simp_all add: printer_simps)

section \<open>Concrete helpers\<close>

text \<open>Decimal numerals and the other helpers on plain strings, to evaluate the generator.\<close>

fun decimal :: "nat \<Rightarrow> string" where
  "decimal n = (if n < 10 then [char_of (48 + n)]
     else decimal (n div 10) @ [char_of (48 + n mod 10)])"

declare decimal.simps [simp del]

lemma decimal_inj: "inj decimal"
proof (rule inj_on_inverseI)
  show "foldl (\<lambda>a c. a * 10 + (of_char c - 48)) 0 (decimal n) = n" for n
  proof (induction n rule: decimal.induct)
    case (1 n)
    then show ?case by (subst decimal.simps) auto
  qed
qed

lemma decimal_01 [simp]: "decimal 0 = ''0''" "decimal (Suc 0) = ''1''"
  by code_simp+

fun split_at :: "char \<Rightarrow> string \<Rightarrow> string \<Rightarrow> string list" where
  "split_at d acc [] = (if acc = [] then [] else [rev acc])"
| "split_at d acc (c # cs) =
     (if c = d then (if acc = [] then [] else [rev acc]) @ split_at d [] cs
      else split_at d (c # acc) cs)"

definition demo_helpers :: "string cpp_helpers" where
  "demo_helpers =
     \<lparr>ClassName = (\<lambda>d q. (if q then ''::'' else []) @ d),
      StripProto = (\<lambda>s. take (length s - 6) s),
      FilenameIdentifier = map (\<lambda>c. if c = CHR ''.'' then CHR ''_'' else c),
      SimpleItoa = decimal,
      GlobalAddDescriptorsName = (\<lambda>s. ''protobuf_AddDesc_'' @ s),
      GlobalAssignDescriptorsName = (\<lambda>s. ''protobuf_AssignDesc_'' @ s),
      SplitStringUsing = (\<lambda>s d. split_at (hd d) [] s),
      kThickSeparator = ''// ====='' @ [CHR 0x0A],
      kThinSeparator = ''// -----'' @ [CHR 0x0A]\<rparr>"

definition demo_service :: "string ServiceDescriptor" where
  "demo_service = \<lparr>service_name = ''Echo'', full_name = ''a.b.Echo'', methods =
     [\<lparr>method_name = ''Say'', input_type = ''Req'', output_type = ''Rsp''\<rparr>,
      \<lparr>method_name = ''Shout'', input_type = ''Req2'', output_type = ''Rsp2''\<rparr>]\<rparr>"

definition demo_file :: "string FileDescriptor" where
  "demo_file = \<lparr>file_name = ''echo.proto'', package = ''a.b'', services = [demo_service]\<rparr>"

section \<open>Theorems\<close>

text \<open>C26: whatever services, methods and names a file has, the calls that \<open>Generate\<close> makes
  to the printers of both files obey the printer: each template closes its delimiters and names
  only variables that the call defines, no \<open>Outdent\<close> comes without its \<open>Indent\<close>, and
  the indentation ends where it began.\<close>

theorem generated_files_use_printer:
  assumes "CHR ''$'' \<notin> set (kThickSeparator H)" "CHR ''$'' \<notin> set (kThinSeparator H)"
  shows "list_all (\<lambda>(name, calls). thread use_step calls 0 = Some 0) (fst (Generate H fd p)) \<and>
    map fst (fst (Generate H fd p)) =
      [StripProto H (file_name fd) @ ''.hrpc.pb.h'', StripProto H (file_name fd) @ ''.hrpc.pb.cc'']"
  by (simp add: Generate_def Let_def use_GenerateHeader use_GenerateSource assms)

theorem generated_files_use_printer_witness:
  "list_all (\<lambda>(name, calls). thread use_step calls 0 = Some 0)
     (fst (Generate demo_helpers demo_file [])) \<and>
   map fst (fst (Generate demo_helpers demo_file [])) = [''echo.hrpc.pb.h'', ''echo.hrpc.pb.cc'']"
  using generated_files_use_printer [of demo_helpers demo_file "[]"]
  by (simp add: demo_helpers_def demo_file_def)

text \<open>C27: the braces of the templates printed balance in both generated files, namespaces
  included: none is closed that is not open, and none stays open.\<close>

theorem generated_braces_balance:
  assumes "set (kThickSeparator H) \<inter> {CHR ''{'', CHR ''}''} = {}"
    and "set (kThinSeparator H) \<inter> {CHR ''{'', CHR ''}''} = {}"
  shows "list_all (\<lambda>(name, calls). thread brace_step calls 0 = Some 0) (fst (Generate H fd p))"
  by (simp add: Generate_def Let_def braces_GenerateHeader braces_GenerateSource assms)

theorem generated_braces_balance_witness:
  "list_all (\<lambda>(name, calls). thread brace_step calls 0 = Some 0)
     (fst (Generate demo_helpers demo_file []))"
  by (rule generated_braces_balance) (simp_all add: demo_helpers_def)

text \<open>The generated code agrees with itself on method indices. A stub method sends a call
  under an index; the dispatcher \<open>CallMethod\<close> has exactly one case for that index, and it
  calls the method of the same name and casts to the same request and response types; and
  \<open>GetRequestPrototype\<close> and \<open>GetResponsePrototype\<close> have exactly one case for it,
  which return messages of those types, so the casts are right.\<close>

lemma generated_dispatch_agrees:
  assumes "inj (SimpleItoa H)" "c \<in> set (GenerateStubMethods H d)"
  shows "\<exists>disp req rsp.
    with_index (var ''index'' c) (GenerateCallMethod H d) = [disp] \<and>
    var ''name'' disp = var ''name'' c \<and>
    var ''input_type'' disp = var ''input_type'' c \<and>
    var ''output_type'' disp = var ''output_type'' c \<and>
    with_index (var ''index'' c) (GenerateGetPrototype H d True) = [req] \<and>
    var ''type'' req = var ''input_type'' c \<and>
    with_index (var ''index'' c) (GenerateGetPrototype H d False) = [rsp] \<and>
    var ''type'' rsp = var ''output_type'' c"
proof -
  obtain i where i: "i < method_count d"
    and c: "var ''index'' c = Some (SimpleItoa H i)"
      "var ''name'' c = Some (method_name (methods d ! i))"
      "var ''input_type'' c = Some (ClassName H (input_type (methods d ! i)) True)"
      "var ''output_type'' c = Some (ClassName H (output_type (methods d ! i)) True)"
    using stub_calls [OF assms(2)] .
  show ?thesis
    unfolding c
    using case_of_index [OF assms(1) i] prototype_of_index [OF assms(1) i, of True]
      prototype_of_index [OF assms(1) i, of False]
    by auto
qed


end
