(* ===== verification/GeneratedService.thy ===== *)
theory GeneratedService
  imports CompilerProperties CoreRuns
begin

text \<open>
  \<^verbatim>\<open>src/hyperrpc/service.h\<close>: the interface of a service, and what the classes that the plugin
  generates do when they run. The code of a generated class is read off the printer calls of
  \<open>Compiler\<close>: a \<open>switch\<close> takes the printed case that carries the method's index, and a name in
  a case is a virtual call, which runs the user's override or the generated default.
\<close>

section \<open>The interface\<close>

text \<open>\<open>Service\<close>. The closure \<open>done\<close> is the number of the context it answers; \<open>None\<close> is a process
  that \<open>GOOGLE_LOG(FATAL)\<close> stops.\<close>

type_synonym ('msg, 'd, 's) method_body = "msg_ptr \<Rightarrow> msg_ptr \<Rightarrow> nat \<Rightarrow> 's \<Rightarrow> ('msg, 'd) action list"

record ('sd, 'msg, 'd, 's) Service =
  GetDescriptor_of :: 'sd
  CallMethod_of :: "MethodDescriptor \<Rightarrow> ('msg, 'd, 's) method_body option"
  GetRequestPrototype_of :: "MethodDescriptor \<Rightarrow> 'msg option"
  GetResponsePrototype_of :: "MethodDescriptor \<Rightarrow> 'msg option"

section \<open>Descriptors at run time\<close>

text \<open>\<open>descriptor()->method(i)\<close>, and protobuf's \<open>FindMethodByName\<close>.\<close>

definition method_at :: "'t ServiceDescriptor \<Rightarrow> nat \<Rightarrow> MethodDescriptor" where
  "method_at d i = \<lparr>Common.MethodDescriptor.service_name = Compiler.service_name d,
     method_name = Compiler.method_name (methods d ! i), method_index = i\<rparr>"

definition find_method :: "'t ServiceDescriptor \<Rightarrow> string \<Rightarrow> MethodDescriptor option" where
  "find_method d name = map_option (method_at d)
     (List.find (\<lambda>i. Compiler.method_name (methods d ! i) = name) [0..<method_count d])"

section \<open>The generated class\<close>

text \<open>The method of a name: the override, or the default the plugin prints, which answers
  \<open>kNotImpl\<close>.\<close>

definition generated_method ::
  "'t cpp_helpers \<Rightarrow> 't ServiceDescriptor \<Rightarrow> (string \<Rightarrow> ('msg, 'd, 's) method_body option) \<Rightarrow> string \<Rightarrow>
   ('msg, 'd, 's) method_body option" where
  "generated_method H d overrides name =
     (case overrides name of
        Some body \<Rightarrow> Some body
      | None \<Rightarrow>
          (if list_ex (\<lambda>c. var ''methodname'' c = Some name) (GenerateNotImplementedMethods H d)
           then Some (\<lambda>request response done_f s. [ActAnswer done_f kNotImpl]) else None))"

definition generated_CallMethod ::
  "'t cpp_helpers \<Rightarrow> 't ServiceDescriptor \<Rightarrow> (string \<Rightarrow> ('msg, 'd, 's) method_body option) \<Rightarrow>
   MethodDescriptor \<Rightarrow> ('msg, 'd, 's) method_body option" where
  "generated_CallMethod H d overrides method =
     (case with_index (Some (SimpleItoa H (method_index method))) (GenerateCallMethod H d) of
        [] \<Rightarrow> None
      | c # _ \<Rightarrow> Option.bind (var ''name'' c) (generated_method H d overrides))"

text \<open>\<open>default_instance\<close> of a message class, by the name of the class.\<close>

definition generated_prototype ::
  "'t cpp_helpers \<Rightarrow> 't ServiceDescriptor \<Rightarrow> (string \<Rightarrow> 'msg) \<Rightarrow> bool \<Rightarrow> MethodDescriptor \<Rightarrow> 'msg option" where
  "generated_prototype H d default_instance is_request method =
     (case with_index (Some (SimpleItoa H (method_index method))) (GenerateGetPrototype H d is_request) of
        [] \<Rightarrow> None
      | c # _ \<Rightarrow> map_option default_instance (var ''type'' c))"

definition generated_service ::
  "'t cpp_helpers \<Rightarrow> (string \<Rightarrow> 'msg) \<Rightarrow> 't ServiceDescriptor \<Rightarrow>
   (string \<Rightarrow> ('msg, 'd, 's) method_body option) \<Rightarrow> ('t ServiceDescriptor, 'msg, 'd, 's) Service" where
  "generated_service H default_instance d overrides =
     \<lparr>GetDescriptor_of = d, CallMethod_of = generated_CallMethod H d overrides,
      GetRequestPrototype_of = generated_prototype H d default_instance True,
      GetResponsePrototype_of = generated_prototype H d default_instance False\<rparr>"

text \<open>A method of the stub class: the descriptor it hands to \<open>HyperRpc::CallMethod\<close>.\<close>

definition stub_method :: "'t cpp_helpers \<Rightarrow> 't ServiceDescriptor \<Rightarrow> string \<Rightarrow> MethodDescriptor option" where
  "stub_method H d name =
     (case filter (\<lambda>c. var ''name'' c = Some name) (GenerateStubMethods H d) of
        [] \<Rightarrow> None
      | c # _ \<Rightarrow> map_option (method_at d)
          (List.find (\<lambda>i. Some (SimpleItoa H i) = var ''index'' c) [0..<method_count d]))"

section \<open>Services in a worker\<close>

definition with_services ::
  "('own, 'tw, 'msg, 'e, ('t ServiceDescriptor, 'msg, 'd, 's) Service, 't ServiceDescriptor, 'z) core_env \<Rightarrow>
   ('own, 'tw, 'msg, 'e, ('t ServiceDescriptor, 'msg, 'd, 's) Service, 't ServiceDescriptor, 'z) core_env" where
  "with_services B = B\<lparr>GetDescriptor := (\<lambda>svc. Some (GetDescriptor_of svc)), FindMethodByName := find_method,
     GetRequestPrototype := (\<lambda>svc m. the (GetRequestPrototype_of svc m)),
     GetResponsePrototype := (\<lambda>svc m. the (GetResponsePrototype_of svc m))\<rparr>"

definition run_service ::
  "('t ServiceDescriptor, 'msg, 'd, 's) Service \<Rightarrow> MethodDescriptor \<Rightarrow> ('msg, 'd, 's) method_body" where
  "run_service svc m rq rp c s = the (CallMethod_of svc m) rq rp c s"

section \<open>What a generated class does\<close>

lemma find_unique:
  assumes "inj_on f {..<n}" "i < n"
  shows "List.find (\<lambda>k. f k = f i) [0..<n] = Some i"
proof -
  have "f k = f i \<longleftrightarrow> k = i" if "k < n" for k
    using inj_onD [OF assms(1)] assms(2) that by auto
  then show ?thesis
    using assms(2) by (auto simp: find_Some_iff intro!: exI [of _ i])
qed

lemma distinct_names:
  "distinct (map Compiler.method_name (methods d)) \<Longrightarrow> inj_on (\<lambda>k. Compiler.method_name (methods d ! k)) {..<method_count d}"
  by (auto simp: inj_on_def distinct_conv_nth method_count_def)

lemma find_method_at:
  assumes "distinct (map Compiler.method_name (methods d))" "i < method_count d"
  shows "find_method d (Compiler.method_name (methods d ! i)) = Some (method_at d i)"
  using find_unique [OF distinct_names [OF assms(1)] assms(2)] by (simp add: find_method_def)

lemma find_methodD:
  "find_method d name = Some m \<Longrightarrow> \<exists>i<method_count d. m = method_at d i \<and> Compiler.method_name (methods d ! i) = name"
  by (auto simp: find_method_def find_Some_iff)

lemma generated_method_total:
  assumes "i < method_count d"
  shows "generated_method H d overrides (Compiler.method_name (methods d ! i)) =
    Some (case overrides (Compiler.method_name (methods d ! i)) of
      Some body \<Rightarrow> body | None \<Rightarrow> (\<lambda>request response done_f s. [ActAnswer done_f kNotImpl]))"
proof -
  have "list_ex (\<lambda>c. var ''methodname'' c = Some (Compiler.method_name (methods d ! i)))
      (GenerateNotImplementedMethods H d)"
    using assms unfolding GenerateNotImplementedMethods_def Let_def by (auto simp: list_ex_iff)
  then show ?thesis by (simp add: generated_method_def split: option.split)
qed

lemma generated_CallMethod_at:
  assumes "inj (SimpleItoa H)" "i < method_count d"
  shows "generated_CallMethod H d overrides (method_at d i) =
    generated_method H d overrides (Compiler.method_name (methods d ! i))"
  using case_of_index [OF assms] by (auto simp: generated_CallMethod_def method_at_def)

lemma generated_prototype_at:
  assumes "inj (SimpleItoa H)" "i < method_count d"
  shows "generated_prototype H d inst r (method_at d i) =
    Some (inst (ClassName H ((if r then input_type else output_type) (methods d ! i)) True))"
  using prototype_of_index [OF assms, of r] by (auto simp: generated_prototype_def method_at_def)

lemma stub_method_at:
  assumes "inj (SimpleItoa H)" "distinct (map Compiler.method_name (methods d))" "i < method_count d"
  shows "stub_method H d (Compiler.method_name (methods d ! i)) = Some (method_at d i)"
proof -
  let ?name = "Compiler.method_name (methods d ! i)"
  let ?cs = "filter (\<lambda>c. var ''name'' c = Some ?name) (GenerateStubMethods H d)"
  have "?cs \<noteq> []"
    using assms(3) unfolding GenerateStubMethods_def Let_def by (force simp: filter_empty_conv)
  then obtain c cs where c: "?cs = c # cs" by (cases ?cs) auto
  then have "c \<in> set ?cs" by simp
  then have c_in: "c \<in> set (GenerateStubMethods H d)" "var ''name'' c = Some ?name" by auto
  then obtain k where k: "k < method_count d" "var ''index'' c = Some (SimpleItoa H k)"
    "Compiler.method_name (methods d ! k) = ?name"
    by (metis option.inject stub_calls)
  with assms(2,3) have "k = i" by (auto simp: distinct_conv_nth method_count_def)
  moreover have "List.find (\<lambda>j. Some (SimpleItoa H j) = Some (SimpleItoa H k)) [0..<method_count d] = Some k"
    by (rule find_unique [OF _ k(1)]) (use assms(1) in \<open>auto simp: inj_on_def dest: injD\<close>)
  ultimately show ?thesis using c k(2) by (simp add: stub_method_def)
qed



end
