(* ===== verification/HyperApi.thy ===== *)
theory HyperApi
  imports HyperProperties
begin

text \<open>
  \<^verbatim>\<open>src/hyperrpc/env.{h,cc}\<close> and the public class of \<^verbatim>\<open>src/hyperrpc/hyperrpc.{h,cc}\<close>: an
  \<open>Env\<close> that keeps the options, an \<open>HyperRpc\<close> object that owns an \<open>Impl\<close> and delegates to it,
  and the sequences of calls a program may make on it. The specification is a small automaton
  of what has been configured and started.
\<close>

section \<open>The objects\<close>

record 'h Env =
  env_opt :: "'h Options"

definition Env_init :: "'h Options \<Rightarrow> 'h Env" where
  "Env_init opt = \<lparr>env_opt = opt\<rparr>"

record ('core, 'svc, 'routing, 'u, 'h) HyperRpcObject =
  env :: "'h Env"
  pimpl :: "('core, 'svc, 'routing, 'u) HyperRpc"

type_synonym ('own, 'tw, 'msg, 'u, 'svc, 'h, 'z) hyper_object =
  "(('own, 'tw, 'msg, 'u closure, 'z) RpcCore_scheme, 'svc,
    string \<Rightarrow> string \<Rightarrow> 'msg \<Rightarrow> ('own, 'tw, 'msg, 'u closure, 'z) RpcCore_scheme \<Rightarrow>
      bool \<times> Addr list \<times> ('own, 'tw, 'msg, 'u closure, 'z) RpcCore_scheme, 'u, 'h) HyperRpcObject"

definition HyperRpc_new :: "'h Options \<Rightarrow> ('core, 'svc, 'routing, 'u, 'h) HyperRpcObject" where
  "HyperRpc_new opt = \<lparr>env = Env_init opt, pimpl = Impl_init\<rparr>"

text \<open>The default constructor, \<open>HyperRpc(OptionsBuilder().Build())\<close>, may throw.\<close>

definition HyperRpc_default ::
  "('b, 'h, 'log) HudpOptions \<Rightarrow> GFlags \<Rightarrow> error + ('core, 'svc, 'routing, 'u, 'h) HyperRpcObject" where
  "HyperRpc_default H G =
     ebind (OptionsBuilder_new H) (\<lambda>b. ebind (fst (Build H G b)) (\<lambda>opt. Inr (HyperRpc_new opt)))"

section \<open>The public methods\<close>

definition api_InitAsClient ::
  "'routing option \<Rightarrow> ('core, 'svc, 'routing, 'u, 'h) HyperRpcObject \<Rightarrow>
   bool \<times> ('core, 'svc, 'routing, 'u, 'h) HyperRpcObject" where
  "api_InitAsClient on_svc_routing x =
     (let (ok, s) = InitAsClient on_svc_routing (pimpl x) in (ok, x\<lparr>pimpl := s\<rparr>))"

definition api_InitAsServer ::
  "('svc \<Rightarrow> string) \<Rightarrow> 'svc list \<Rightarrow> ('core, 'svc, 'routing, 'u, 'h) HyperRpcObject \<Rightarrow>
   bool \<times> ('core, 'svc, 'routing, 'u, 'h) HyperRpcObject" where
  "api_InitAsServer svc_name services x =
     (let (ok, s) = InitAsServer svc_name services (pimpl x) in (ok, x\<lparr>pimpl := s\<rparr>))"

definition api_Start ::
  "('b, 'h, 'log) HudpOptions \<Rightarrow> (nat \<Rightarrow> ('own, 'tw, 'msg, 'u closure, 'z) core) \<Rightarrow>
   (nat \<Rightarrow> nat \<Rightarrow> ('own, 'u closure) SessionNode) \<Rightarrow> 'own \<Rightarrow> (nat \<Rightarrow> u64) \<Rightarrow> bool \<Rightarrow>
   ('own, 'tw, 'msg, 'u, 'svc, 'h, 'z) hyper_object \<Rightarrow>
   (bool \<times> ('own, 'tw, 'msg, 'u, 'svc, 'h, 'z) hyper_object) option" where
  "api_Start H new_core garbage own0 rands udp_ok x =
     map_option (\<lambda>(ok, s). (ok, x\<lparr>pimpl := s\<rparr>))
       (Start H (env_opt (env x)) new_core garbage own0 rands udp_ok (pimpl x))"

definition api_CallMethod ::
  "('own, 'tw, 'msg, 'u closure, 'svc, 'sd, 'z) core_env \<Rightarrow> caller \<Rightarrow> nat option \<Rightarrow>
   MethodDescriptor \<Rightarrow> msg_ptr \<Rightarrow> msg_ptr \<Rightarrow> 'u option \<Rightarrow>
   ('own, 'tw, 'msg, 'u, 'svc, 'h, 'z) hyper_object \<Rightarrow>
   call_result \<times> ('own, 'tw, 'msg, 'u, 'svc, 'h, 'z) hyper_object" where
  "api_CallMethod C caller accepted_by method request response done_f x =
     (let (r, s) = Impl_CallMethod C caller accepted_by method request response done_f (pimpl x)
      in (r, x\<lparr>pimpl := s\<rparr>))"

section \<open>Sequences of calls\<close>

text \<open>A call with what its environment answers: \<open>DoStart\<close> whether HyperUdp comes up, \<open>DoCall\<close> the
  calling thread and the worker whose queue accepts the task.\<close>

datatype ('svc, 'routing, 'u) api_call =
    AsClient "'routing option" | AsServer "'svc list" | DoStart bool
  | DoCall caller "nat option" MethodDescriptor msg_ptr msg_ptr "'u option"

text \<open>An aborted process makes no more calls.\<close>

definition api_step ::
  "('own, 'tw, 'msg, 'u closure, 'svc, 'sd, 'z) core_env \<Rightarrow> ('svc \<Rightarrow> string) \<Rightarrow>
   ('b, 'h, 'log) HudpOptions \<Rightarrow> (nat \<Rightarrow> ('own, 'tw, 'msg, 'u closure, 'z) core) \<Rightarrow>
   (nat \<Rightarrow> nat \<Rightarrow> ('own, 'u closure) SessionNode) \<Rightarrow> 'own \<Rightarrow> (nat \<Rightarrow> u64) \<Rightarrow>
   ('own, 'tw, 'msg, 'u, 'svc, 'h, 'z) hyper_object \<Rightarrow>
   ('svc, string \<Rightarrow> string \<Rightarrow> 'msg \<Rightarrow> ('own, 'tw, 'msg, 'u closure, 'z) RpcCore_scheme \<Rightarrow>
      bool \<times> Addr list \<times> ('own, 'tw, 'msg, 'u closure, 'z) RpcCore_scheme, 'u) api_call \<Rightarrow>
   ('own, 'tw, 'msg, 'u, 'svc, 'h, 'z) hyper_object option" where
  "api_step C svc_name H new_core garbage own0 rands x c =
     (if aborted (pimpl x) then Some x
      else case c of
        AsClient r \<Rightarrow> Some (snd (api_InitAsClient r x))
      | AsServer svcs \<Rightarrow> Some (snd (api_InitAsServer svc_name svcs x))
      | DoStart ok \<Rightarrow> map_option snd (api_Start H new_core garbage own0 rands ok x)
      | DoCall caller by m rq rp d \<Rightarrow> Some (snd (api_CallMethod C caller by m rq rp d x)))"

text \<open>What the calls configure. \<open>None\<close> is a failed assert.\<close>

record ('svc, 'routing) Config =
  running :: bool
  client :: "'routing option"
  started_with :: "'routing option"
  listed :: "'svc list"

definition no_config :: "('svc, 'routing) Config" where
  "no_config = \<lparr>running = False, client = None, started_with = None, listed = []\<rparr>"

fun config_step :: "('svc, 'routing) Config \<Rightarrow> ('svc, 'routing, 'u) api_call \<Rightarrow> ('svc, 'routing) Config option" where
  "config_step c (AsClient r) = Some (c\<lparr>client := r\<rparr>)"
| "config_step c (AsServer svcs) = Some (c\<lparr>listed := listed c @ svcs\<rparr>)"
| "config_step c (DoStart ok) =
     (if running c then None else Some (if ok then c\<lparr>running := True, started_with := client c\<rparr> else c))"
| "config_step c (DoCall caller by m rq rp d) = (if running c then Some c else None)"

text \<open>Of several services of one name the last one listed is found.\<close>

definition last_named :: "('svc \<Rightarrow> string) \<Rightarrow> string \<Rightarrow> 'svc list \<Rightarrow> 'svc option" where
  "last_named svc_name name services = find (\<lambda>svc. svc_name svc = name) (rev services)"

lemma find_append: "find P (xs @ ys) = (case find P xs of None \<Rightarrow> find P ys | Some x \<Rightarrow> Some x)"
  by (induction xs) simp_all

lemma last_named_append:
  "last_named svc_name name (xs @ ys) =
   (case last_named svc_name name ys of None \<Rightarrow> last_named svc_name name xs | Some svc \<Rightarrow> Some svc)"
  unfolding last_named_def rev_append find_append ..

lemma InitAsServer_simps [simp]:
  "is_initialized (snd (InitAsServer svc_name svcs s)) = is_initialized s"
  "aborted (snd (InitAsServer svc_name svcs s)) = aborted s"
  "client_routing (snd (InitAsServer svc_name svcs s)) = client_routing s"
  "core_routing (snd (InitAsServer svc_name svcs s)) = core_routing s"
  "rpc_core_vec (snd (InitAsServer svc_name svcs s)) = rpc_core_vec s"
  "service_map (snd (InitAsServer svc_name svcs s)) name =
    (case last_named svc_name name svcs of None \<Rightarrow> service_map s name | Some svc \<Rightarrow> Some svc)"
  unfolding InitAsServer_def snd_conv
  by (induction svcs arbitrary: s) (auto simp: last_named_def find_append split: option.split)

lemma Impl_CallMethod_simps:
  "is_initialized s \<Longrightarrow> is_initialized (snd (Impl_CallMethod C caller by m rq rp d s))"
  "is_initialized s \<Longrightarrow> aborted (snd (Impl_CallMethod C caller by m rq rp d s)) = aborted s"
  "client_routing (snd (Impl_CallMethod C caller by m rq rp d s)) = client_routing s"
  "core_routing (snd (Impl_CallMethod C caller by m rq rp d s)) = core_routing s"
  "service_map (snd (Impl_CallMethod C caller by m rq rp d s)) = service_map s"
  "length (rpc_core_vec (snd (Impl_CallMethod C caller by m rq rp d s))) = length (rpc_core_vec s)"
  "\<not> is_initialized s \<Longrightarrow> aborted (snd (Impl_CallMethod C caller by m rq rp d s))"
  by (auto simp: Impl_CallMethod_def Let_def set_core_def post_def abort_process_def
      split: caller.split option.split)

definition configured :: "('svc \<Rightarrow> string) \<Rightarrow> nat \<Rightarrow> ('svc, 'routing) Config \<Rightarrow>
    ('core, 'svc, 'routing, 'u) HyperRpc \<Rightarrow> bool" where
  "configured svc_name n c s \<longleftrightarrow> \<not> aborted s \<and> is_initialized s = running c \<and> client_routing s = client c \<and>
     (\<forall>name. OnFindService s name = last_named svc_name name (listed c)) \<and>
     (running c \<longrightarrow> core_routing s = started_with c \<and> length (rpc_core_vec s) = n)"

lemma api_step_configured:
  assumes "worker_num H (hudp_options opt) < 2 ^ 16" "max_rpc_sessions opt \<le> 2 ^ 47"
    and "\<And>i. blank_core (new_core i)" "\<And>i. rands i < 2 ^ 32" and env: "env x = Env_init opt"
    and c: "configured svc_name (unat (worker_num H (hudp_options opt))) c (pimpl x)"
  shows "\<exists>x'. api_step C svc_name H new_core garbage own0 rands x call = Some x' \<and> env x' = env x \<and>
    (case config_step c call of
       None \<Rightarrow> aborted (pimpl x')
     | Some c' \<Rightarrow> configured svc_name (unat (worker_num H (hudp_options opt))) c' (pimpl x'))"
proof (cases call)
  case (AsClient r)
  with c show ?thesis
    by (simp add: api_step_def configured_def api_InitAsClient_def InitAsClient_def OnFindService_def)
next
  case (AsServer svcs)
  have "snd (api_InitAsServer svc_name svcs x) = x\<lparr>pimpl := snd (InitAsServer svc_name svcs (pimpl x))\<rparr>"
    by (simp add: api_InitAsServer_def split: prod.split)
  with AsServer c show ?thesis
    by (simp add: api_step_def configured_def OnFindService_def last_named_append split: option.split)
next
  case (DoStart ok)
  obtain cores where cores: "init_cores H opt new_core garbage own0 rands = Some cores"
    using init_cores_total [OF assms(1,2), of new_core rands garbage own0] assms(3,4) by blast
  from init_cores_spec(1) [OF cores] DoStart c cores env show ?thesis
    by (cases ok; cases "running c")
      (simp_all add: api_step_def api_Start_def configured_def Start_def Env_init_def abort_process_def OnFindService_def)
next
  case (DoCall caller acc m rq rp d)
  have "snd (api_CallMethod C caller acc m rq rp d x) =
      x\<lparr>pimpl := snd (Impl_CallMethod C caller acc m rq rp d (pimpl x))\<rparr>"
    by (simp add: api_CallMethod_def split: prod.split)
  with DoCall c show ?thesis
    by (simp add: api_step_def configured_def Impl_CallMethod_simps OnFindService_def)
qed

lemma api_aborted:
  "aborted (pimpl x) \<Longrightarrow> mfold (api_step C svc_name H new_core garbage own0 rands) x calls = Some x"
  by (induction calls) (simp_all add: api_step_def)

section \<open>Property\<close>

text \<open>C30: the life of a \<open>HyperRpc\<close> object. Whatever calls a program makes on a new object, in whatever
  order, every call returns or aborts the process, and it aborts exactly when \<open>Start\<close> is called
  after a successful \<open>Start\<close> or \<open>CallMethod\<close> before one. Otherwise the object is initialised
  exactly if a \<open>Start\<close> has succeeded, has one dispatcher per worker then, finds by each name the
  service listed last, also those registered after \<open>Start\<close>, and routes with the closure that
  was set when it started: one set later has no effect.\<close>

theorem object_life:
  assumes "worker_num H (hudp_options opt) < 2 ^ 16" and "max_rpc_sessions opt \<le> 2 ^ 47"
    and "\<And>i. blank_core (new_core i)" and "\<And>i. rands i < 2 ^ 32"
  shows "\<exists>x. mfold (api_step C svc_name H new_core garbage own0 rands) (HyperRpc_new opt) calls = Some x \<and>
    (case mfold config_step no_config calls of
       None \<Rightarrow> aborted (pimpl x)
     | Some c \<Rightarrow> configured svc_name (unat (worker_num H (hudp_options opt))) c (pimpl x))"
proof -
  have "\<exists>x'. mfold (api_step C svc_name H new_core garbage own0 rands) x calls = Some x' \<and>
      (case mfold config_step c calls of
         None \<Rightarrow> aborted (pimpl x')
       | Some c' \<Rightarrow> configured svc_name (unat (worker_num H (hudp_options opt))) c' (pimpl x'))"
    if "env x = Env_init opt" "configured svc_name (unat (worker_num H (hudp_options opt))) c (pimpl x)" for x c
    using that
  proof (induction calls arbitrary: x c)
    case (Cons call calls)
    have "\<exists>x1. api_step C svc_name H new_core garbage own0 rands x call = Some x1 \<and> env x1 = env x \<and>
        (case config_step c call of None \<Rightarrow> aborted (pimpl x1)
         | Some c' \<Rightarrow> configured svc_name (unat (worker_num H (hudp_options opt))) c' (pimpl x1))"
      using assms Cons.prems by (rule api_step_configured)
    then obtain x1 where x1: "api_step C svc_name H new_core garbage own0 rands x call = Some x1" "env x1 = env x"
        "case config_step c call of None \<Rightarrow> aborted (pimpl x1)
         | Some c' \<Rightarrow> configured svc_name (unat (worker_num H (hudp_options opt))) c' (pimpl x1)" by blast
    show ?case
    proof (cases "config_step c call")
      case None
      with x1 api_aborted show ?thesis by fastforce
    next
      case (Some c1)
      with Cons.IH [of x1 c1] x1 Cons.prems(1) show ?thesis by simp
    qed
  qed simp
  then show ?thesis
    by (simp add: HyperRpc_new_def no_config_def configured_def Impl_init_def OnFindService_def last_named_def)
qed

text \<open>Started once, a service registered late, then started again.\<close>

theorem object_life_witness:
  "\<exists>x y :: (bool, nat list, byte list, nat, unit, u64, unit) hyper_object.
     mfold (api_step (demo_env_of True 0) (\<lambda>_. ''TestService'') demo_hudp (\<lambda>_. demo_blank_core_of)
       (\<lambda>_. undefined) False (\<lambda>_. 0)) (HyperRpc_new demo_options)
       [DoStart False, DoStart True, AsServer [()]] = Some x \<and>
     \<not> aborted (pimpl x) \<and> OnFindService (pimpl x) ''TestService'' = Some () \<and> length (rpc_core_vec (pimpl x)) = 4 \<and>
     mfold (api_step (demo_env_of True 0) (\<lambda>_. ''TestService'') demo_hudp (\<lambda>_. demo_blank_core_of)
       (\<lambda>_. undefined) False (\<lambda>_. 0)) (HyperRpc_new demo_options)
       [DoStart True, AsServer [()], DoStart True] = Some y \<and> aborted (pimpl y)"
proof -
  have small: "worker_num demo_hudp (hudp_options demo_options) < 2 ^ 16" "max_rpc_sessions demo_options \<le> 2 ^ 47"
    by (simp_all add: demo_hudp_def)
  have blank: "blank_core (demo_blank_core_of :: nat closure demo_core_of)"
    by (simp add: blank_core_def demo_blank_core_of_def)
  have rand: "(0 :: u64) < 2 ^ 32" by simp
  note life = object_life [OF small, of "\<lambda>_. demo_blank_core_of :: nat closure demo_core_of" "\<lambda>_. 0"
      "demo_env_of True 0" "\<lambda>_. ''TestService''" "\<lambda>_. undefined" False, OF blank rand]
  from life [of "[DoStart False, DoStart True, AsServer [()]]"] life [of "[DoStart True, AsServer [()], DoStart True]"]
  show ?thesis
    by (auto simp: no_config_def configured_def last_named_def demo_hudp_def)
qed

end
