(* ===== verification/CoreBooks.thy ===== *)
theory CoreBooks
  imports CoreProperties
begin

text \<open>
  The closures a worker is handed, in order, and user code that makes no calls of its own: its
  closures, services and routing may answer contexts and write messages. Then only
  \<open>CallMethod\<close> adds to the books, one entry for each call.
\<close>

section \<open>The entries\<close>

fun ev_adds :: "'d event \<Rightarrow> ('d \<times> nat) list" where
  "ev_adds (EvAdd d n) = [(d, n)]"
| "ev_adds _ = []"

definition adds :: "('own, 'tw, 'msg, 'd, 'z) RpcSessionManager_scheme \<Rightarrow> ('d \<times> nat) list" where
  "adds s = concat (map ev_adds (trace s))"

lemma sum_ev_added: "sum_list (map ev_added es) = mset (map fst (concat (map ev_adds es)))"
proof (induction es)
  case (Cons e es)
  then show ?case by (cases e) simp_all
qed simp

lemma sum_ev_dropped:
  "sum_list (map ev_dropped es) = mset (map fst (filter (\<lambda>(d, n). 65536 < n) (concat (map ev_adds es))))"
proof (induction es)
  case (Cons e es)
  then show ?case by (cases e) simp_all
qed simp

lemma added_adds: "added s = mset (map fst (adds s))"
  unfolding added_def adds_def by (rule sum_ev_added)

lemma dropped_adds: "dropped s = mset (map fst (filter (\<lambda>(d, n). 65536 < n) (adds s)))"
  unfolding dropped_def adds_def by (rule sum_ev_dropped)

lemma adds_fields [simp]:
  "adds (s\<lparr>sess_pool := p\<rparr>) = adds s" "adds (s\<lparr>timerw := w\<rparr>) = adds s" "adds (s\<lparr>msgs := m\<rparr>) = adds s"
  "adds (s\<lparr>next_rpc_id := x\<rparr>) = adds s" "adds (s\<lparr>fault := b\<rparr>) = adds s"
  "adds (s\<lparr>trace := trace s @ [EvDone d r]\<rparr>) = adds s"
  "adds (s\<lparr>trace := trace s @ [EvSend mt rq rid a]\<rparr>) = adds s"
  "adds (s\<lparr>trace := trace s @ [EvAdd d n]\<rparr>) = adds s @ [(d, n)]"
  by (simp_all add: adds_def)

lemma adds_worker_fields [simp]:
  "adds (s\<lparr>sent := p\<rparr>) = adds s" "adds (s\<lparr>served := v\<rparr>) = adds s" "adds (s\<lparr>core_fault := b\<rparr>) = adds s"
  "adds (delete_context c s) = adds s" "adds (accepted_context New ctx0 rqp rpp s) = adds s"
  by (simp_all add: adds_def accepted_context_def Let_def)

lemma adds_helpers [simp]:
  "adds (raise_fault s) = adds s" "adds (update_node i f s) = adds s" "adds (FreeSessionNode i s) = adds s"
  "adds (snd (NextRpcId s)) = adds s" "adds (snd (FindSessionNode rid s)) = adds s"
  "adds (node_arm_timer E i s) = adds s" "adds (node_cancel_timer E i s) = adds s"
proof -
  show node [simp]: "adds (raise_fault s) = adds s" "adds (update_node i f s) = adds s" for s f
    by (simp_all add: raise_fault_def update_node_def split: option.split)
  show "adds (FreeSessionNode i s) = adds s" "adds (snd (NextRpcId s)) = adds s"
    "adds (snd (FindSessionNode rid s)) = adds s"
    "adds (node_arm_timer E i s) = adds s" "adds (node_cancel_timer E i s) = adds s"
    by (simp_all add: FreeSessionNode_def NextRpcId_def FindSessionNode_def node_arm_timer_def
        node_cancel_timer_def Let_def split: option.split prod.split)
qed

lemma adds_alloc [simp]: "adds (snd (AllocSessionNode s)) = adds s"
proof -
  have "adds (snd (alloc_loop k s)) = adds s" for k s
  proof (induction k arbitrary: s)
    case (Suc k)
    obtain rid s1 where s1: "NextRpcId s = (rid, s1)" by force
    then have "adds s1 = adds s" using adds_helpers(4) [of s] by simp
    with Suc s1 show ?case by (simp add: Let_def split: option.split)
  qed simp
  then show ?thesis by (simp add: AllocSessionNode_def)
qed

section \<open>Closures that make no calls\<close>

primrec makes_call :: "('msg, 'd) action \<Rightarrow> bool" where
  "makes_call (ActCall m rq rp d) = True"
| "makes_call (ActAnswer c r) = False"
| "makes_call (ActWrite p v) = False"

locale passive_sessions =
  fixes E :: "('own, 'tw, 'msg, 'd, 'z) mgr_env"
  assumes done_adds [simp]: "adds (run_done E d r s) = adds s"
    and send_adds [simp]: "adds (on_send_request E m rq rid a s) = adds s"
begin

lemma node_adds [simp]: "adds (invoke_done E d r s) = adds s" "adds (node_call_done E i r s) = adds s"
  "adds (node_send E i k s) = adds s"
  by (simp_all add: invoke_done_def node_call_done_def node_send_def split: option.split)

lemma AddSession_adds: "adds (snd (AddSession E m rq rp eps d s)) = adds s @ [(d, el_size eps)]"
proof -
  let ?s = "s\<lparr>trace := trace s @ [EvAdd d (el_size eps)]\<rparr>"
  have alloc: "AllocSessionNode ?s = (x, s1) \<Longrightarrow> adds s1 = adds s @ [(d, el_size eps)]" for x s1
    using adds_alloc [of ?s] by simp
  show ?thesis
    by (auto simp: AddSession_def Let_def alloc split: prod.split option.split)
qed

lemma found_adds: "FindSessionNode rid s = (x, s1) \<Longrightarrow> adds s1 = adds s"
  using adds_helpers(5) [of rid s] by simp

lemma events_adds [simp]:
  "adds (OnSendRequestFailed E rid s) = adds s" "adds (OnRecvResponse E sv mt rid r body s) = adds s"
  "adds (OnSessionTimeout E i s) = adds s"
  by (auto simp: OnSendRequestFailed_def OnRecvResponse_def OnSessionTimeout_def Let_def found_adds
      split: prod.split option.split)

end

text \<open>The same for the worker; \<open>n\<close> bounds the addresses the routing closure gives.\<close>

locale passive_worker =
  fixes C :: "('own, 'tw, 'msg, 'd, 'svc, 'sd, 'z) core_env" and n :: nat
  assumes run_adds: "adds (run_done (sess_env C) d r s) = adds s"
    and packet_adds [simp]: "adds (on_send_packet C pkt a ctx s) = adds s"
    and service_adds [simp]: "adds (Service_CallMethod C svc m rq rp c s) = adds s"
    and routing_adds: "on_service_routing C = Some f \<Longrightarrow> f sv mt msg s = (ok, addrs, s1) \<Longrightarrow>
      adds s1 = adds s \<and> length addrs \<le> n"
begin

lemma SendMessage_adds [simp]: "adds (SendMessage C h body a ctx s) = adds s"
  by (simp add: SendMessage_def raise_core_fault_def split: option.split)

end

sublocale passive_worker \<subseteq> sessions: passive_sessions "mgr_env_of C"
  by unfold_locales (simp_all add: mgr_env_of_def run_adds OnOutgoingRpcSend_def)

context passive_worker
begin

lemma resolve_adds:
  assumes "resolve_endpoints C m rq s = (x, s1)"
  shows "adds s1 = adds s" "x = Some eps \<Longrightarrow> el_size eps \<le> n"
proof -
  have "adds s1 = adds s \<and> (\<forall>eps. x = Some eps \<longrightarrow> el_size eps \<le> n)"
  proof (cases "on_service_routing C")
    case None
    with assms show ?thesis by (auto simp: resolve_endpoints_def)
  next
    case (Some f)
    obtain ok addrs t where f: "f (service_name m) (method_name m) (msgs s rq) s = (ok, addrs, t)"
      by (metis prod.collapse)
    have add: "AddEndpoint = PushBack" by (intro ext) (simp add: AddEndpoint_def)
    from el.build [of addrs] obtain l where l: "mfold PushBack EndpointList_init addrs = Some l" "el_size l = length addrs"
      by blast
    from routing_adds [OF Some f] l f Some assms show ?thesis
      by (auto simp: resolve_endpoints_def Let_def add split: if_splits)
  qed
  then show "adds s1 = adds s" "x = Some eps \<Longrightarrow> el_size eps \<le> n" by blast+
qed

lemma CallMethod_adds: "\<exists>k\<le>n. adds (CallMethod C m rq rp d s) = adds s @ [(d, k)]"
proof (cases "resolve_endpoints C m rq s")
  case (Pair x s1)
  note r = resolve_adds [OF Pair]
  show ?thesis
  proof (cases x)
    case None
    with Pair r(1) show ?thesis by (intro exI [of _ 0]) (simp add: CallMethod_def)
  next
    case (Some eps)
    with Pair r show ?thesis
      by (intro exI [of _ "el_size eps"]) (simp add: CallMethod_def sessions.AddSession_adds)
  qed
qed

lemma OnIncomingRpcDone_adds [simp]: "adds (OnIncomingRpcDone C c r s) = adds s"
  by (simp add: OnIncomingRpcDone_def raise_core_fault_def split: option.split)

lemma OnRecvRequestMessage_adds [simp]: "adds (OnRecvRequestMessage C h body a s) = adds s"
proof (cases rule: OnRecvRequestMessage_cases [of C h])
  case (found svc sd m)
  then show ?thesis by (simp add: OnRecvRequestMessage_found Let_def split: prod.split)
next
  case dropped
  then show ?thesis by (simp add: OnRecvRequestMessage_dropped)
qed

lemma handlers_adds [simp]:
  "adds (snd (OnRecvPacket C buf a s)) = adds s" "adds (snd (OnSendPacketFailed C rid s)) = adds s"
  "adds (OnTimer C i s) = adds s"
  by (auto simp: OnRecvPacket_def OnRecvResponseMessage_def OnSendPacketFailed_def OnTimer_def Let_def
      raise_core_fault_def split: option.split prod.split)

lemma run_actions_adds: "\<not> list_ex makes_call acts \<Longrightarrow> adds (fold (run_action C) acts s) = adds s"
proof (induction acts arbitrary: s)
  case (Cons a acts)
  then show ?case by (cases a) simp_all
qed simp

end

section \<open>User code without calls\<close>

definition quiet_route :: "nat \<Rightarrow> bool \<times> Addr list \<times> ('msg, 'd) action list \<Rightarrow> bool" where
  "quiet_route n x = (case x of (ok, addrs, acts) \<Rightarrow> length addrs \<le> n \<and> \<not> list_ex makes_call acts)"

definition quiet_user :: "nat \<Rightarrow> ('msg, 'd, 'svc, 's) UserCode \<Rightarrow> bool" where
  "quiet_user n U \<longleftrightarrow>
     (\<forall>d r s. \<not> list_ex makes_call (done_acts U d r s)) \<and>
     (\<forall>svc m rq rp c s. \<not> list_ex makes_call (service_acts U svc m rq rp c s)) \<and>
     (\<forall>f sv mt msg s. routing_acts U = Some f \<longrightarrow> quiet_route n (f sv mt msg s))"

text \<open>The user code \<open>U\<close> with its calls left out and its routes cut to \<open>n\<close> addresses; code that makes no
  calls and gives at most \<open>n\<close> addresses is its own restriction.\<close>

definition restrict_user :: "nat \<Rightarrow> ('msg, 'd, 'svc, 's) UserCode \<Rightarrow> ('msg, 'd, 'svc, 's) UserCode" where
  "restrict_user n U =
     \<lparr>done_acts = (\<lambda>d r s. filter (\<lambda>a. \<not> makes_call a) (done_acts U d r s)),
      service_acts = (\<lambda>svc m rq rp c s. filter (\<lambda>a. \<not> makes_call a) (service_acts U svc m rq rp c s)),
      routing_acts = map_option (\<lambda>f sv mt msg s. case f sv mt msg s of
        (ok, addrs, acts) \<Rightarrow> (ok, take n addrs, filter (\<lambda>a. \<not> makes_call a) acts)) (routing_acts U)\<rparr>"

lemma restrict_user_id:
  fixes U :: "('msg, 'd, 'svc, 's) UserCode"
  assumes "quiet_user n U"
  shows "restrict_user n U = U"
proof -
  have keep: "filter (\<lambda>a. \<not> makes_call a) acts = acts" if "\<not> list_ex makes_call acts" for acts :: "('msg, 'd) action list"
    using that by (induction acts) auto
  have "routing_acts (restrict_user n U) = routing_acts U"
  proof (cases "routing_acts U")
    case (Some f)
    have "(case f sv mt msg s of (ok, addrs, acts) \<Rightarrow> (ok, take n addrs, filter (\<lambda>a. \<not> makes_call a) acts)) = f sv mt msg s"
      for sv mt msg s
    proof -
      have "quiet_route n (f sv mt msg s)" using assms Some unfolding quiet_user_def by blast
      with keep show ?thesis by (cases "f sv mt msg s") (simp add: quiet_route_def)
    qed
    with Some show ?thesis by (simp add: restrict_user_def)
  qed (simp add: restrict_user_def)
  moreover have "\<not> list_ex makes_call (done_acts U d r s)" "\<not> list_ex makes_call (service_acts U svc m rq rp c s)"
    for d r s svc m rq rp c using assms unfolding quiet_user_def by blast+
  then have "done_acts (restrict_user n U) = done_acts U" "service_acts (restrict_user n U) = service_acts U"
    by (simp_all add: restrict_user_def keep fun_eq_iff)
  ultimately show ?thesis by simp
qed

lemma restricted_passive:
  assumes "\<And>acts s. \<not> list_ex makes_call acts \<Longrightarrow> adds (run acts s) = adds s"
  shows "passive_worker (user_env B (restrict_user n U) run) n"
proof -
  have *: "\<not> list_ex makes_call (filter (\<lambda>a. \<not> makes_call a) acts)" for acts
    by (simp add: list_ex_iff)
  show ?thesis
    by unfold_locales (auto simp: user_env_def restrict_user_def assms * split: prod.splits)
qed

lemma nested_passive: "passive_worker (nested_core B (restrict_user n U) d) n"
proof (induction d)
  case 0
  show ?case unfolding nested_core.simps by (rule restricted_passive) simp
next
  case (Suc d)
  from passive_worker.run_actions_adds [OF Suc]
  show ?case unfolding nested_core.simps by (rule restricted_passive)
qed

interpretation no_calls: passive_worker "nested_core B (restrict_user n U) d" n for B U n d
  by (rule nested_passive)

end
