(* ===== verification/HyperBooks.thy ===== *)
theory HyperBooks
  imports HyperProperties CoreBooks
begin

text \<open>
  The exact books of a process whose user code makes no calls of its own: each closure handed
  to \<open>HyperRpc::CallMethod\<close> is in one place, as often as it was handed over.
\<close>

section \<open>The books\<close>

definition booked :: "nat \<Rightarrow> ('own, 'tw, 'msg, 'u, 'svc, 'z) hyper \<Rightarrow> bool" where
  "booked n s \<longleftrightarrow> mset (handed s) = given s + queued s + mset (map fst (outer_trace s)) \<and>
     (\<forall>core \<in> set (rpc_core_vec s). \<forall>(d, k) \<in> set (adds core). k \<le> n)"

lemma bookedD: "booked n s \<Longrightarrow> worker s w \<Longrightarrow> (d, k) \<in> set (adds (rpc_core_vec s ! w)) \<Longrightarrow> k \<le> n"
  by (fastforce simp: booked_def worker_def)

lemma bookedI:
  assumes "booked n s"
    and "mset (handed s') = mset (handed s) + X" "outer_trace s' = outer_trace s"
      "given s' + queued s' = given s + queued s + X"
    and "\<And>core. core \<in> set (rpc_core_vec s') \<Longrightarrow> core \<in> set (rpc_core_vec s) \<or> (\<forall>(d, k) \<in> set (adds core). k \<le> n)"
  shows "booked n s'"
proof -
  have "mset (handed s') = given s' + queued s' + mset (map fst (outer_trace s'))"
    using assms(1-4) by (simp add: booked_def ac_simps)
  moreover have "\<forall>core \<in> set (rpc_core_vec s'). \<forall>(d, k) \<in> set (adds core). k \<le> n"
    using assms(1,5) by (simp add: booked_def) blast
  ultimately show ?thesis by (simp add: booked_def)
qed

lemma booked_same:
  assumes "booked n s"
    and "handed s' = handed s" "outer_trace s' = outer_trace s" "given s' + queued s' = given s + queued s"
    and "\<And>core. core \<in> set (rpc_core_vec s') \<Longrightarrow> core \<in> set (rpc_core_vec s) \<or> (\<forall>(d, k) \<in> set (adds core). k \<le> n)"
  shows "booked n s'"
  using assms by (intro bookedI [of n s s' "{#}"]) simp_all

lemma given_set_core_eq:
  assumes "worker s w" "added core = added (rpc_core_vec s ! w) + X"
  shows "given (set_core w core s) = given s + X"
  using sum_list_map_update [of w "rpc_core_vec s" added core] assms
  by (simp add: given_def set_core_def worker_def ac_simps)

text \<open>A step of worker \<open>w\<close> that adds nothing to its entries.\<close>

lemma quiet_step:
  assumes "booked n s" "worker s w" "adds core = adds (rpc_core_vec s ! w)"
  shows "given (set_core w core s) = given s"
    and "c \<in> set (rpc_core_vec (set_core w core s)) \<Longrightarrow> c \<in> set (rpc_core_vec s) \<or> (\<forall>(d, k) \<in> set (adds c). k \<le> n)"
proof -
  show "given (set_core w core s) = given s"
    using given_set_core_eq [OF assms(2), of core "{#}"] assms(3) by (simp add: added_adds)
  assume "c \<in> set (rpc_core_vec (set_core w core s))"
  then have "c \<in> set (rpc_core_vec s) \<or> c = core"
    using set_update_subset_insert [of "rpc_core_vec s" w core] by (auto simp: set_core_def)
  with assms(3) show "c \<in> set (rpc_core_vec s) \<or> (\<forall>(d, k) \<in> set (adds c). k \<le> n)"
    using bookedD [OF assms(1,2)] by auto
qed

lemma booked_set_core [simp]:
  assumes "booked n s" "worker s w" "adds core = adds (rpc_core_vec s ! w)"
  shows "booked n (set_core w core s)"
  using assms(1) quiet_step [OF assms] by (intro booked_same [OF assms(1)]) simp_all

lemma booked_fields [simp]:
  "booked n (s\<lparr>redirect_buffers := m\<rparr>) = booked n s"
  by (simp add: booked_def)

lemma worker_fields [simp]:
  "worker (s\<lparr>redirect_buffers := m\<rparr>) w = worker s w" "worker (s\<lparr>queues := q\<rparr>) w = worker s w"
  "worker (set_core v core s) w = worker s w"
  by (simp_all add: worker_def)

lemma booked_post:
  assumes "booked n s" "w < length (queues s)" "task_closure t = {#}"
  shows "booked n (post w t s)"
  using assms(2,3) by (intro booked_same [OF assms(1)]) simp_all

section \<open>Steps\<close>

locale passive_process = hyper_callbacks C + passive_worker C n
  for C :: "('own, 'tw, 'msg, 'u closure, 'svc, 'sd, 'z) core_env" and n :: nat
begin

lemma booked_call:
  assumes "booked n s" "worker s w"
  shows "given (set_core w (CallMethod C m rq rp d (rpc_core_vec s ! w)) s) = given s + {#d#}"
    and "c \<in> set (rpc_core_vec (set_core w (CallMethod C m rq rp d (rpc_core_vec s ! w)) s)) \<Longrightarrow>
      c \<in> set (rpc_core_vec s) \<or> (\<forall>(d, k) \<in> set (adds c). k \<le> n)"
proof -
  let ?c = "CallMethod C m rq rp d (rpc_core_vec s ! w)"
  obtain k where k: "k \<le> n" "adds ?c = adds (rpc_core_vec s ! w) @ [(d, k)]"
    using CallMethod_adds by blast
  then show "given (set_core w ?c s) = given s + {#d#}"
    using assms(2) by (intro given_set_core_eq) (simp_all add: added_adds)
  assume "c \<in> set (rpc_core_vec (set_core w ?c s))"
  then have "c \<in> set (rpc_core_vec s) \<or> c = ?c"
    using set_update_subset_insert [of "rpc_core_vec s" w ?c] by (auto simp: set_core_def)
  with k show "c \<in> set (rpc_core_vec s) \<or> (\<forall>(d, k) \<in> set (adds c). k \<le> n)"
    using bookedD [OF assms] by auto
qed

lemma event_booked:
  assumes "hyper_event C s s'" and inv: "hyper_inv C s" and b: "booked n s"
    and ids: "\<And>w. worker s w \<Longrightarrow> rpc_core_id (rpc_core_vec s ! w) = w"
  shows "booked n s'"
proof -
  note env = core_env_of_inv [OF inv]
  have q: "w < length (queues s)" if "worker s w" for w
    using inv that by (simp add: hyper_inv_def worker_def)
  show ?thesis
    using assms(1)
  proof cases
    case (hyper_packet w buf a accepted)
    obtain dst core' where d: "OnRecvPacket C buf a (rpc_core_vec s ! w) = (dst, core')" by force
    then have "booked n (set_core w core' s)"
      using b hyper_packet(2) handlers_adds(1) [of buf a "rpc_core_vec s ! w"] by simp
    with hyper_packet d env q show ?thesis
      by (auto simp: Impl_OnRecvPacket_def Let_def worker_def intro!: booked_post)
  next
    case (hyper_sent w accepted success ctx)
    obtain dst core' where d: "OnSendPacketFailed C ctx (rpc_core_vec s ! w) = (dst, core')" by force
    then have "booked n (set_core w core' s)"
      using b hyper_sent(2) handlers_adds(2) [of ctx "rpc_core_vec s ! w"] by simp
    moreover have "dst < length (queues s)" if "dst \<noteq> w"
      using failed_target [OF d] ids [OF hyper_sent(2)] inv that by (auto simp: hyper_inv_def)
    ultimately show ?thesis
      using hyper_sent d env b by (auto simp: Impl_OnSentResult_def Let_def intro!: booked_post)
  next
    case (hyper_answer w c r)
    with b env show ?thesis by simp
  next
    case (hyper_write w ms)
    with b show ?thesis by simp
  next
    case (hyper_call_in w m rq rp d)
    show ?thesis
    proof (cases d)
      case None
      with hyper_call_in inv b show ?thesis by (simp add: Impl_CallMethod_def hyper_inv_def)
    next
      case (Some u)
      note call = booked_call [OF b hyper_call_in(2), where m = m and rq = rq and rp = rp and d = "User u"]
      from call(1) have "given (set_core w (CallMethod C m rq rp (User u) (rpc_core_vec s ! w))
          (s\<lparr>handed := handed s @ [User u]\<rparr>)) = given s + {#User u#}" by simp
      moreover have "rpc_core_vec (set_core w core (s\<lparr>handed := hs\<rparr>)) = rpc_core_vec (set_core w core s)" for core hs
        by (simp add: set_core_def)
      ultimately show ?thesis
        using Some hyper_call_in(1) inv env call(2)
        by (intro bookedI [OF b, of _ "{#User u#}"]) (simp_all add: Impl_CallMethod_def hyper_inv_def)
    qed
  next
    case (hyper_call_out acc th m rq rp d)
    with inv q b show ?thesis
      by (auto simp: Impl_CallMethod_def hyper_inv_def Let_def booked_def split: option.split)
  qed
qed

lemma task_booked:
  assumes w: "worker s w" and inv: "hyper_inv C s" and b: "booked n s"
  shows "booked n (run_task C w s)"
proof (cases "queues s ! w")
  case Nil
  with b show ?thesis by (simp add: run_task_def)
next
  case (Cons t ts)
  let ?s1 = "s\<lparr>queues := (queues s)[w := ts]\<rparr>"
  note env = core_env_of_inv [OF inv]
  have "w < length (queues s)" using inv w by (simp add: hyper_inv_def worker_def)
  from queued_update(1) [OF this, of ts] Cons
  have q: "queued ?s1 + task_closure t = queued s" by simp
  show ?thesis
  proof (cases t)
    case (CallTask m rq rp f)
    note call = booked_call [OF b w, where m = m and rq = rq and rp = rp and d = f]
    have "rpc_core_vec (set_core w core ?s1) = rpc_core_vec (set_core w core s)" for core
      by (simp add: set_core_def)
    with call q Cons env CallTask show ?thesis
      by (intro booked_same [OF b]) (simp_all add: run_task_def Let_def ac_simps)
  next
    case (RedirectPacket buf a)
    with q b have "booked n ?s1" by (intro booked_same [OF b]) simp_all
    with Cons env RedirectPacket w show ?thesis by (simp add: run_task_def Let_def)
  next
    case (RedirectFailed ctx)
    with q b have "booked n ?s1" by (intro booked_same [OF b]) simp_all
    with Cons env RedirectFailed w show ?thesis by (simp add: run_task_def Let_def)
  qed
qed

lemma step_booked:
  assumes "hyper_step C s s'" and inv: "hyper_inv C s" and b: "booked n s"
    and ids: "\<And>w. worker s w \<Longrightarrow> rpc_core_id (rpc_core_vec s ! w) = w"
  shows "booked n s'"
  using assms(1)
proof cases
  case hyper_happens
  then show ?thesis using inv b ids by (rule event_booked)
next
  case (hyper_task w)
  then show ?thesis using task_booked [OF _ inv b] by simp
next
  case (hyper_timer w i)
  with b core_env_of_inv [OF inv] show ?thesis by simp
next
  case (hyper_pass w tw)
  with b show ?thesis by simp
qed

end

lemma nested_passive_process:
  "passive_process (nested_core (lawful B) (restrict_user n U) d) n"
  by (intro passive_process.intro nested_hyper_callbacks nested_passive)

interpretation exact: passive_process "nested_core (lawful B) (restrict_user n U) d" n for B U n d
  by (rule nested_passive_process)

lemma started_booked:
  assumes "started C H opt own0 s"
  shows "booked n s"
proof -
  have "trace core = []" if core: "core \<in> set (rpc_core_vec s)" for core
  proof -
    from core obtain w where w: "worker s w" "core = rpc_core_vec s ! w" by (auto simp: worker_def in_set_conv_nth)
    from started_core(4) [OF assms w(1)] obtain garbage rand c0
      where "blank_core c0" "core_Init H opt garbage own0 rand w c0 = Some core" using w(2) by blast
    with Init_trace [of garbage own0 rand _ w "c0\<lparr>rpc_core_id := w\<rparr>" core] show ?thesis
      by (simp add: core_Init_def blank_core_def)
  qed
  moreover from this have "given s = {#}"
    unfolding given_def by (intro sum_list_map_0) (simp add: added_def)
  moreover have "queued s = {#}"
    unfolding queued_def by (rule sum_list_map_0) (simp add: started_core(1) [OF assms])
  ultimately show ?thesis
    using started_core(2,3) [OF assms] by (simp add: booked_def adds_def)
qed

lemma reachable_booked:
  assumes "hyper_reachable (nested_core (lawful B) (restrict_user n U) d) H opt s"
  shows "booked n s"
  using assms
proof (induction rule: hyper_reachable.induct)
  case (hyper_start s0 svc_name services new_core rands garbage own0 s)
  then have "started (nested_core (lawful B) (restrict_user n U) d) H opt own0 s"
    unfolding started_def by blast
  then show ?case by (rule started_booked)
next
  case (hyper_next s s')
  from process.reachable_hyper_inv [OF hyper_next(1)]
  have inv: "hyper_inv (nested_core (lawful B) (restrict_user n U) d) s"
    and ids: "\<And>w. worker s w \<Longrightarrow> rpc_core_id (rpc_core_vec s ! w) = w"
    using process.worker_number by blast+
  from exact.step_booked [OF hyper_next(2) inv hyper_next.IH ids] show ?case .
qed

lemma reachable_no_drops:
  assumes "sizes_agree (pb B)" and "quiet_user n U" and "n \<le> 65536"
    and "hyper_reachable (nested_core B U depth) H opt s" and "core \<in> set (rpc_core_vec s)"
  shows "dropped core = {#}"
proof -
  have "hyper_reachable (nested_core (lawful B) (restrict_user n U) depth) H opt s"
    using assms(1,2,4) by (simp add: lawful_id restrict_user_id)
  from reachable_booked [OF this] assms(3,5) have "filter (\<lambda>(d, k). 65536 < k) (adds core) = []"
    by (fastforce simp: booked_def filter_empty_conv)
  then show ?thesis by (simp add: dropped_adds)
qed

lemma reachable_exact:
  assumes "sizes_agree (pb B)" and "quiet_user n U" and "n \<le> 65536"
    and "hyper_reachable (nested_core B U depth) H opt s"
  shows "mset (handed s) = (\<Sum>core\<leftarrow>rpc_core_vec s. answered core + pending core) + queued s +
    mset (map fst (outer_trace s))"
proof -
  have r: "hyper_reachable (nested_core (lawful B) (restrict_user n U) depth) H opt s"
    using assms(1,2,4) by (simp add: lawful_id restrict_user_id)
  note b = reachable_booked [OF r]
  have "added core = answered core + pending core" if "core \<in> set (rpc_core_vec s)" for core
  proof -
    from that obtain w where w: "worker s w" "core = rpc_core_vec s ! w"
      by (auto simp: in_set_conv_nth worker_def)
    with process.reachable_hyper_inv [OF r]
    have "core_reachable (nested_core (lawful B) (restrict_user n U) depth) w core" by auto
    from user.reachable_core_inv [OF this] have "added core = answered core + pending core + dropped core"
      by (simp add: owes_def)
    with reachable_no_drops [OF assms that] show ?thesis by simp
  qed
  then have "given s = (\<Sum>core\<leftarrow>rpc_core_vec s. answered core + pending core)"
    unfolding given_def by (intro arg_cong [where f = sum_list] map_cong) auto
  with b show ?thesis by (simp add: booked_def)
qed

section \<open>Property\<close>


lemma demo_quiet: "quiet_user 2 demo_user_of"
  by (simp add: quiet_user_def quiet_route_def demo_user_of_def)


end
