(* ===== verification/ProfileExample.thy ===== *)
theory ProfileExample
  imports GeneratedService HyperApi HyperBooks
begin

text \<open>
  The programs of \<^verbatim>\<open>example\<close>: a client that calls the profile service at a given rate and a
  server that answers, with the messages of \<^verbatim>\<open>profile_service.proto\<close> and the service class the
  plugin generates for it. The library runs the user's closure and service inside its own steps;
  what they do to the program's own data (counters, messages on the heap) is applied after the
  step, once for each call that the step's records show, in their order. The library never reads
  that data.
\<close>

section \<open>profile_service.proto\<close>

datatype ProfileType = ProfileRequestType | ProfileResponseType

datatype Message =
    ProfileRequest u64
  | ProfileResponse u64 string u64

definition ProfileService :: "ProfileType ServiceDescriptor" where
  "ProfileService = \<lparr>Compiler.ServiceDescriptor.service_name = ''ProfileService'',
     full_name = ''hrpc.example.ProfileService'',
     methods = [\<lparr>Compiler.MethodDescriptor.method_name = ''GetProfile'',
       input_type = ProfileRequestType, output_type = ProfileResponseType\<rparr>]\<rparr>"

text \<open>Protobuf's accessors, \<open>default_instance\<close> of a class by its name, and \<open>New\<close> on a prototype.\<close>

fun user_id :: "Message \<Rightarrow> u64" where
  "user_id (ProfileRequest u) = u"
| "user_id (ProfileResponse u n a) = u"

fun set_user_id :: "u64 \<Rightarrow> Message \<Rightarrow> Message" where
  "set_user_id x (ProfileRequest u) = ProfileRequest x"
| "set_user_id x (ProfileResponse u n a) = ProfileResponse x n a"

fun set_name :: "string \<Rightarrow> Message \<Rightarrow> Message" where
  "set_name x (ProfileResponse u n a) = ProfileResponse u x a"
| "set_name x m = m"

fun set_age :: "u64 \<Rightarrow> Message \<Rightarrow> Message" where
  "set_age x (ProfileResponse u n a) = ProfileResponse u n x"
| "set_age x m = m"

fun default_of :: "ProfileType \<Rightarrow> Message" where
  "default_of ProfileRequestType = ProfileRequest 0"
| "default_of ProfileResponseType = ProfileResponse 0 [] 0"

definition default_instance :: "ProfileType cpp_helpers \<Rightarrow> string \<Rightarrow> Message" where
  "default_instance H c =
     default_of (if c = ClassName H ProfileRequestType True then ProfileRequestType else ProfileResponseType)"

fun New_of :: "Message \<Rightarrow> Message" where
  "New_of (ProfileRequest u) = default_of ProfileRequestType"
| "New_of (ProfileResponse u n a) = default_of ProfileResponseType"

section \<open>The server's service\<close>

definition GetProfile :: "(Message, 'd, ('own, 'tw, Message, 'd, 'z) RpcCore_scheme) method_body" where
  "GetProfile request response done_f s =
     [ActWrite response (set_age 25 (set_name ''hrpcuser'' (set_user_id (user_id (msgs s request)) (msgs s response)))),
      ActAnswer done_f kSuccess]"

type_synonym ('own, 'tw, 'd, 'z) profile_service =
  "(ProfileType ServiceDescriptor, Message, 'd, ('own, 'tw, Message, 'd, 'z) RpcCore_scheme) Service"

definition ProfileServiceImpl :: "ProfileType cpp_helpers \<Rightarrow> ('own, 'tw, 'd, 'z) profile_service" where
  "ProfileServiceImpl H = generated_service H (default_instance H) ProfileService
     (\<lambda>name. if name = ''GetProfile'' then Some GetProfile else None)"

text \<open>The user code of the two programs, and the environment of their workers: the services'
  descriptors and prototypes, and messages of a file with \<open>cc_enable_arenas\<close>.\<close>

definition server_user ::
  "(Message, 'd, ('own, 'tw, 'd, 'z) profile_service, ('own, 'tw, Message, 'd, 'z) core) UserCode" where
  "server_user = \<lparr>done_acts = (\<lambda>d r s. []), service_acts = run_service, routing_acts = None\<rparr>"

text \<open>\<open>OnServiceRouting\<close> of the client, which adds the one endpoint and returns true.\<close>

definition OnServiceRouting ::
  "Addr \<Rightarrow> string \<Rightarrow> string \<Rightarrow> Message \<Rightarrow> 's \<Rightarrow> bool \<times> Addr list \<times> (Message, 'd) action list" where
  "OnServiceRouting server_addr service method request s = (True, [server_addr], [])"

definition client_user ::
  "Addr \<Rightarrow> (Message, 'd, 'svc, ('own, 'tw, Message, 'd, 'z) core) UserCode" where
  "client_user server_addr = \<lparr>done_acts = (\<lambda>d r s. []), service_acts = (\<lambda>svc m rq rp c s. []),
     routing_acts = Some (OnServiceRouting server_addr)\<rparr>"

type_synonym ('own, 'tw, 'd, 'z) profile_env =
  "('own, 'tw, Message, 'd, ('own, 'tw, 'd, 'z) profile_service, ProfileType ServiceDescriptor, 'z) core_env"

definition profile_base :: "('own, 'tw, 'd, 'z) profile_env \<Rightarrow> ('own, 'tw, 'd, 'z) profile_env" where
  "profile_base B = (with_services B)\<lparr>NewMessage := New_of, cc_enable_arenas := (\<lambda>prot. True)\<rparr>"

definition client_env :: "('own, 'tw, 'd, 'z) profile_env \<Rightarrow> Addr \<Rightarrow> ('own, 'tw, 'd, 'z) profile_env" where
  "client_env B server_addr = nested_core (profile_base B) (client_user server_addr) 0"

definition server_env :: "('own, 'tw, 'd, 'z) profile_env \<Rightarrow> ('own, 'tw, 'd, 'z) profile_env" where
  "server_env B = nested_core (profile_base B) server_user 1"

section \<open>The programs' data\<close>

text \<open>The closure of a call captures its request and its response.\<close>

type_synonym profile_done = "msg_ptr \<times> msg_ptr"

text \<open>\<open>live\<close>: the messages the client has allocated and not deleted. \<open>bad_delete\<close>: a message was
  deleted that was not live. \<open>reporting\<close>: the timer has read the counters and not yet reset them.
  \<open>lost_fails\<close>: what was added to \<open>fail_count\<close> in between.\<close>

record ('own, 'tw, 'z) ClientProgram =
  client_rpc :: "('own, 'tw, Message, profile_done,
    ('own, 'tw, profile_done closure, 'z) profile_service, 'z) hyper"
  call_count :: u64
  fail_count :: u64
  live :: "msg_ptr set"
  bad_delete :: bool
  printed :: "(u64 \<times> u64) list"
  reporting :: bool
  lost_fails :: u64

definition delete_message :: "msg_ptr \<Rightarrow> ('own, 'tw, 'z) ClientProgram \<Rightarrow> ('own, 'tw, 'z) ClientProgram" where
  "delete_message x p = (if x \<in> live p then p\<lparr>live := live p - {x}\<rparr> else p\<lparr>bad_delete := True\<rparr>)"

text \<open>The closure of \<open>CallProfileService\<close>.\<close>

fun on_profile_done ::
  "profile_done closure \<times> Result \<Rightarrow> ('own, 'tw, 'z) ClientProgram \<Rightarrow> ('own, 'tw, 'z) ClientProgram" where
  "on_profile_done (User (request, response), result) p =
     delete_message response (delete_message request
       (if result \<noteq> kSuccess then p\<lparr>fail_count := fail_count p + 1\<rparr> else p))"
| "on_profile_done (SyncDone th, result) p = p"

text \<open>The closures called between two states of a process, by the workers and by callers.\<close>

definition done_events :: "'d event list \<Rightarrow> ('d \<times> Result) list" where
  "done_events es = List.map_filter (\<lambda>e. case e of EvDone f r \<Rightarrow> Some (f, r) | _ \<Rightarrow> None) es"

definition calls_between ::
  "('own, 'tw, 'msg, 'u, 'svc, 'z) hyper \<Rightarrow> ('own, 'tw, 'msg, 'u, 'svc, 'z) hyper \<Rightarrow> ('u closure \<times> Result) list" where
  "calls_between s s' =
     concat (map (\<lambda>w. done_events (drop (length (trace (rpc_core_vec s ! w))) (trace (rpc_core_vec s' ! w))))
       [0..<length (rpc_core_vec s')]) @
     drop (length (outer_trace s)) (outer_trace s')"

definition library_did ::
  "('own, 'tw, Message, profile_done, ('own, 'tw, profile_done closure, 'z) profile_service, 'z) hyper \<Rightarrow>
   ('own, 'tw, 'z) ClientProgram \<Rightarrow> ('own, 'tw, 'z) ClientProgram" where
  "library_did s' p = fold on_profile_done (calls_between (client_rpc p) s') (p\<lparr>client_rpc := s'\<rparr>)"

section \<open>The client\<close>

text \<open>\<open>request\<close> and \<open>response\<close> are the addresses \<open>new\<close> returns; \<open>accepted_by\<close> is the worker whose queue
  takes the call, in whose memory the messages are then read.\<close>

definition write_messages ::
  "nat option \<Rightarrow> msg_ptr \<Rightarrow> msg_ptr \<Rightarrow> ('own, 'tw, Message, 'u, 'svc, 'z) hyper \<Rightarrow>
   ('own, 'tw, Message, 'u, 'svc, 'z) hyper" where
  "write_messages accepted_by request response s =
     (case accepted_by of
        None \<Rightarrow> s
      | Some w \<Rightarrow> set_core w ((rpc_core_vec s ! w)\<lparr>msgs := (msgs (rpc_core_vec s ! w))
          (request := set_user_id 123 (default_of ProfileRequestType),
           response := default_of ProfileResponseType)\<rparr>) s)"

definition CallProfileService ::
  "('own, 'tw, profile_done closure, 'z) profile_env \<Rightarrow> ProfileType cpp_helpers \<Rightarrow> nat option \<Rightarrow>
   msg_ptr \<Rightarrow> msg_ptr \<Rightarrow> ('own, 'tw, 'z) ClientProgram \<Rightarrow> ('own, 'tw, 'z) ClientProgram" where
  "CallProfileService C H accepted_by request response p =
     (case stub_method H ProfileService ''GetProfile'' of
        None \<Rightarrow> p
      | Some method \<Rightarrow>
          let p1 = p\<lparr>client_rpc := write_messages accepted_by request response (client_rpc p),
                     live := insert request (insert response (live p))\<rparr>
          in library_did (snd (Impl_CallMethod C (Outside 0) accepted_by method request response
                                 (Some (request, response)) (client_rpc p1))) p1)"

text \<open>The timer of \<open>StartProfileServiceClient\<close> prints the counters, then resets them. The worker's
  thread may run between the two.\<close>

definition client_print :: "('own, 'tw, 'z) ClientProgram \<Rightarrow> ('own, 'tw, 'z) ClientProgram" where
  "client_print p = p\<lparr>printed := printed p @ [(call_count p, fail_count p)], reporting := True\<rparr>"

definition client_reset :: "('own, 'tw, 'z) ClientProgram \<Rightarrow> ('own, 'tw, 'z) ClientProgram" where
  "client_reset p = p\<lparr>lost_fails := lost_fails p + (fail_count p - snd (last (printed p))),
     call_count := 0, fail_count := 0, reporting := False\<rparr>"

text \<open>One round of the loop. \<open>token\<close> is what the token bucket's \<open>Get\<close> returns, \<open>expired\<close> whether \<open>MoveOn\<close>
  runs the timer, which \<open>client_reset\<close> then ends.\<close>

definition client_loop ::
  "('own, 'tw, profile_done closure, 'z) profile_env \<Rightarrow> ProfileType cpp_helpers \<Rightarrow> bool \<Rightarrow> bool \<Rightarrow> nat option \<Rightarrow>
   msg_ptr \<Rightarrow> msg_ptr \<Rightarrow> ('own, 'tw, 'z) ClientProgram \<Rightarrow> ('own, 'tw, 'z) ClientProgram" where
  "client_loop C H token expired accepted_by request response p =
     (if \<not> token then (if expired then client_print p else p)
      else CallProfileService C H accepted_by request response (p\<lparr>call_count := call_count p + 1\<rparr>))"

text \<open>How the functions that start the programs end. \<open>Uncaught\<close> is an exception of the options.\<close>

datatype 'p started_program = Uncaught error | InitFailed | StartFailed | BadAddress | Running 'p

definition program_options ::
  "('b, 'h, 'log) HudpOptions \<Rightarrow> GFlags \<Rightarrow> 'log \<Rightarrow> u64 \<Rightarrow> error + 'h Options" where
  "program_options HU G log worker_number =
     ebind (OptionsBuilder_new HU) (\<lambda>b. ebind (LogHandler HU log b) (\<lambda>b.
       ebind (WorkerNumber HU worker_number b) (\<lambda>b. fst (Build HU G b))))"

text \<open>The routing closure is that of \<open>C\<close>: it reads \<open>server_addr\<close> when a call is routed, which is after
  the address is parsed. \<open>parsed\<close> is what \<open>Addr::ParseFromString\<close> returns.\<close>

definition StartProfileServiceClient ::
  "('own, 'tw, profile_done closure, 'z) profile_env \<Rightarrow> ('b, 'h, 'log) HudpOptions \<Rightarrow> GFlags \<Rightarrow> 'log \<Rightarrow>
   (nat \<Rightarrow> ('own, 'tw, Message, profile_done closure, 'z) core) \<Rightarrow>
   (nat \<Rightarrow> nat \<Rightarrow> ('own, profile_done closure) SessionNode) \<Rightarrow> 'own \<Rightarrow> (nat \<Rightarrow> u64) \<Rightarrow> bool \<Rightarrow>
   bool \<times> Addr \<Rightarrow> ('own, 'tw, 'z) ClientProgram started_program option" where
  "StartProfileServiceClient C HU G log new_core garbage own0 rands udp_ok parsed =
     (case program_options HU G log 1 of
        Inl e \<Rightarrow> Some (Uncaught e)
      | Inr opt \<Rightarrow>
          let (ok, x) = api_InitAsClient (on_service_routing C) (HyperRpc_new opt) in
          if \<not> ok then Some InitFailed
          else (case api_Start HU new_core garbage own0 rands udp_ok x of
                  None \<Rightarrow> None
                | Some (started_ok, x) \<Rightarrow>
                    Some (if \<not> started_ok then StartFailed
                      else if \<not> fst parsed then BadAddress
                      else Running \<lparr>client_rpc = pimpl x, call_count = 0, fail_count = 0, live = {},
                                    bad_delete = False, printed = [],
                                    reporting = False, lost_fails = 0\<rparr>)))"

section \<open>The server\<close>

record ('own, 'tw, 'z) ServerProgram =
  server_rpc :: "('own, 'tw, Message, profile_done,
    ('own, 'tw, profile_done closure, 'z) profile_service, 'z) hyper"
  server_calls :: u64
  server_fails :: u64
  server_printed :: "(u64 \<times> u64) list"
  server_reporting :: bool
  lost_calls :: u64

text \<open>\<open>call_count++\<close> of \<open>GetProfile\<close>, for each call of the method between two states.\<close>

definition profile_calls ::
  "('own, 'tw, 'msg, 'u, 'svc, 'z) hyper \<Rightarrow> nat" where
  "profile_calls s = sum_list (map (\<lambda>core.
     length (filter (\<lambda>(m, _). Common.method_name m = ''GetProfile'') (served core))) (rpc_core_vec s))"

definition server_did ::
  "('own, 'tw, Message, profile_done, ('own, 'tw, profile_done closure, 'z) profile_service, 'z) hyper \<Rightarrow>
   ('own, 'tw, 'z) ServerProgram \<Rightarrow> ('own, 'tw, 'z) ServerProgram" where
  "server_did s' p = p\<lparr>server_rpc := s',
     server_calls := server_calls p + of_nat (profile_calls s' - profile_calls (server_rpc p))\<rparr>"

text \<open>The loop of \<open>StartProfileServiceServer\<close>, while the workers run.\<close>

definition server_print :: "('own, 'tw, 'z) ServerProgram \<Rightarrow> ('own, 'tw, 'z) ServerProgram" where
  "server_print p = p\<lparr>server_printed := server_printed p @ [(server_calls p, server_fails p)],
     server_reporting := True\<rparr>"

definition server_reset :: "('own, 'tw, 'z) ServerProgram \<Rightarrow> ('own, 'tw, 'z) ServerProgram" where
  "server_reset p = p\<lparr>lost_calls := lost_calls p + (server_calls p - fst (last (server_printed p))),
     server_calls := 0, server_fails := 0, server_reporting := False\<rparr>"

definition StartProfileServiceServer ::
  "ProfileType cpp_helpers \<Rightarrow> ('b, 'h, 'log) HudpOptions \<Rightarrow> GFlags \<Rightarrow> 'log \<Rightarrow>
   (nat \<Rightarrow> ('own, 'tw, Message, profile_done closure, 'z) core) \<Rightarrow>
   (nat \<Rightarrow> nat \<Rightarrow> ('own, profile_done closure) SessionNode) \<Rightarrow> 'own \<Rightarrow> (nat \<Rightarrow> u64) \<Rightarrow> bool \<Rightarrow>
   ('own, 'tw, 'z) ServerProgram started_program option" where
  "StartProfileServiceServer H HU G log new_core garbage own0 rands udp_ok =
     (case program_options HU G log 2 of
        Inl e \<Rightarrow> Some (Uncaught e)
      | Inr opt \<Rightarrow>
          let (ok, x) = api_InitAsServer (\<lambda>svc. Compiler.service_name (GetDescriptor_of svc))
                          [ProfileServiceImpl H] (HyperRpc_new opt) in
          if \<not> ok then Some InitFailed
          else (case api_Start HU new_core garbage own0 rands udp_ok x of
                  None \<Rightarrow> None
                | Some (started_ok, x) \<Rightarrow>
                    Some (if \<not> started_ok then StartFailed
                      else Running \<lparr>server_rpc = pimpl x, server_calls = 0, server_fails = 0,
                                    server_printed = [],
                                    server_reporting = False, lost_calls = 0\<rparr>)))"

end
