(* ===== verification/ProfileRuns.thy ===== *)
theory ProfileRuns
  imports ProfileExample HyperFrame
begin

text \<open>
  Runs of the example client, and the books of its messages and counters: in every reachable state
  the messages that are live are those the closures captured that wait in the library.
\<close>

section \<open>Runs\<close>

text \<open>What happens in a process while its program does not call the library.\<close>

inductive library_step ::
  "('own, 'tw, 'msg, 'u closure, 'svc, 'sd, 'z) core_env \<Rightarrow> ('own, 'tw, 'msg, 'u, 'svc, 'z) hyper \<Rightarrow>
   ('own, 'tw, 'msg, 'u, 'svc, 'z) hyper \<Rightarrow> bool"
  for C :: "('own, 'tw, 'msg, 'u closure, 'svc, 'sd, 'z) core_env" where
  lib_packet: "worker s w \<Longrightarrow> library_step C s (Impl_OnRecvPacket C w accepted buf a s)"
| lib_sent: "worker s w \<Longrightarrow> library_step C s (Impl_OnSentResult C w accepted success ctx s)"
| lib_task: "worker s w \<Longrightarrow> library_step C s (run_task C w s)"
| lib_timer: "worker s w \<Longrightarrow> i < length (sess_pool (rpc_core_vec s ! w)) \<Longrightarrow>
     library_step C s (set_core w (OnTimer (core_env_of C s) i (rpc_core_vec s ! w)) s)"
| lib_pass: "worker s w \<Longrightarrow> library_step C s (set_core w ((rpc_core_vec s ! w)\<lparr>timerw := tw\<rparr>) s)"

lemma library_step_hyper: "library_step C s s' \<Longrightarrow> hyper_step C s s'"
  by (induction rule: library_step.induct)
    (blast intro: hyper_happens hyper_packet hyper_sent hyper_task hyper_timer hyper_pass)+

text \<open>What \<open>Start\<close> needs, as in \<open>started\<close>, for the options of a program.\<close>

definition good_start ::
  "('own, 'tw, 'msg, 'u closure, 'svc, 'sd, 'z) core_env \<Rightarrow> ('b, 'h, 'log) HudpOptions \<Rightarrow> 'h Options \<Rightarrow>
   (nat \<Rightarrow> ('own, 'tw, 'msg, 'u closure, 'z) core) \<Rightarrow> (nat \<Rightarrow> u64) \<Rightarrow> bool" where
  "good_start C HU opt new_core rands \<longleftrightarrow> workers C = worker_num HU (hudp_options opt) \<and>
     worker_num HU (hudp_options opt) < 2 ^ 16 \<and> max_rpc_sessions opt \<le> 2 ^ 47 \<and>
     (\<forall>i. blank_core (new_core i)) \<and> (\<forall>i. rands i < 2 ^ 32)"

inductive client_step ::
  "('own, 'tw, profile_done closure, 'z) profile_env \<Rightarrow> ProfileType cpp_helpers \<Rightarrow>
   ('own, 'tw, 'z) ClientProgram \<Rightarrow> ('own, 'tw, 'z) ClientProgram \<Rightarrow> bool"
  for C :: "('own, 'tw, profile_done closure, 'z) profile_env" and H :: "ProfileType cpp_helpers" where
  client_library: "library_step C (client_rpc p) s' \<Longrightarrow> client_step C H p (library_did s' p)"
| client_resets: "reporting p \<Longrightarrow> client_step C H p (client_reset p)"
| client_round: "\<not> reporting p \<Longrightarrow> (\<And>w. accepted_by = Some w \<Longrightarrow> worker (client_rpc p) w) \<Longrightarrow>
     request \<notin> live p \<Longrightarrow> response \<notin> live p \<Longrightarrow> request \<noteq> response \<Longrightarrow>
     client_step C H p (client_loop C H token expired accepted_by request response p)"

inductive client_reachable ::
  "('own, 'tw, profile_done closure, 'z) profile_env \<Rightarrow> ProfileType cpp_helpers \<Rightarrow>
   ('b, 'h, 'log) HudpOptions \<Rightarrow> 'h Options \<Rightarrow> ('own, 'tw, 'z) ClientProgram \<Rightarrow> bool"
  for C :: "('own, 'tw, profile_done closure, 'z) profile_env" and H :: "ProfileType cpp_helpers"
    and HU :: "('b, 'h, 'log) HudpOptions" and opt :: "'h Options" where
  client_starts: "program_options HU G log 1 = Inr opt \<Longrightarrow> good_start C HU opt new_core rands \<Longrightarrow>
     on_find_service C = (\<lambda>_. None) \<Longrightarrow>
     StartProfileServiceClient C HU G log new_core garbage own0 rands udp_ok parsed = Some (Running p) \<Longrightarrow>
     client_reachable C H HU opt p"
| client_next: "client_reachable C H HU opt p \<Longrightarrow> client_step C H p p' \<Longrightarrow> client_reachable C H HU opt p'"

section \<open>The start of the programs\<close>

lemma api_Start_running:
  assumes "api_Start HU new_core garbage own0 rands udp_ok x = Some (True, y)" "\<not> is_initialized (pimpl x)"
  shows "Start HU (env_opt (env x)) new_core garbage own0 rands True (pimpl x) = Some (True, pimpl y)"
  using assms by (cases udp_ok) (auto simp: api_Start_def Start_def split: Option.bind_splits)

lemma good_start_started:
  assumes "good_start C HU opt new_core rands"
    and "s0 = snd (InitAsServer svc_name svcs (snd (InitAsClient (on_service_routing C) Impl_init)))"
    and "on_find_service C = service_map s0" "Start HU opt new_core garbage own0 rands True s0 = Some (True, s)"
  shows "started C HU opt own0 s"
  using assms unfolding started_def good_start_def by blast

lemma client_started:
  assumes "program_options HU G log 1 = Inr opt" "good_start C HU opt new_core rands"
    and "on_find_service C = (\<lambda>_. None)"
    and "StartProfileServiceClient C HU G log new_core garbage own0 rands udp_ok parsed = Some (Running p)"
  shows "started C HU opt own0 (client_rpc p)" "call_count p = 0" "fail_count p = 0" "live p = {}"
    "\<not> bad_delete p" "printed p = []" "\<not> reporting p" "lost_fails p = 0"
proof -
  let ?x = "snd (api_InitAsClient (on_service_routing C) (HyperRpc_new opt))"
  have x: "pimpl ?x = snd (InitAsClient (on_service_routing C) Impl_init)" "env_opt (env ?x) = opt"
    "fst (api_InitAsClient (on_service_routing C) (HyperRpc_new opt))"
    by (simp_all add: api_InitAsClient_def InitAsClient_def HyperRpc_new_def Env_init_def)
  from assms(1,4) x(3) obtain y where y: "api_Start HU new_core garbage own0 rands udp_ok ?x = Some (True, y)"
    "p = \<lparr>client_rpc = pimpl y, call_count = 0, fail_count = 0, live = {}, bad_delete = False,
      printed = [], reporting = False, lost_fails = 0\<rparr>"
    by (auto simp: StartProfileServiceClient_def split: prod.splits option.splits if_splits)
  then show "call_count p = 0" "fail_count p = 0" "live p = {}" "\<not> bad_delete p" "printed p = []"
    "\<not> reporting p" "lost_fails p = 0" by simp_all
  have "\<not> is_initialized (pimpl ?x)" by (simp add: x InitAsClient_def Impl_init_def)
  note start = api_Start_running [OF y(1) this, unfolded x(1,2)]
  have s0: "snd (InitAsClient (on_service_routing C) Impl_init) =
      snd (InitAsServer (\<lambda>svc. []) [] (snd (InitAsClient (on_service_routing C) Impl_init)))"
    by (simp add: InitAsServer_def)
  have map: "on_find_service C = service_map (snd (InitAsClient (on_service_routing C) Impl_init))"
    using assms(3) by (simp add: InitAsClient_def Impl_init_def)
  show "started C HU opt own0 (client_rpc p)"
    unfolding y(2) ClientProgram.simps by (rule good_start_started [OF assms(2) s0 map start])
qed

section \<open>The closures called in a step\<close>

lemma answered_done_events: "answered s = mset (map fst (done_events (trace s)))"
proof -
  have "sum_list (map ev_answered es) = mset (map fst (done_events es))" for es
    by (induction es) (auto simp: done_events_def map_filter_simps split: event.split)
  then show ?thesis unfolding answered_def .
qed

lemma done_events_append: "done_events (xs @ ys) = done_events xs @ done_events ys"
  by (simp add: done_events_def List.map_filter_def)

definition grows :: "('own, 'tw, 'msg, 'u, 'svc, 'z) hyper \<Rightarrow> ('own, 'tw, 'msg, 'u, 'svc, 'z) hyper \<Rightarrow> bool" where
  "grows s s' \<longleftrightarrow> length (rpc_core_vec s') = length (rpc_core_vec s) \<and>
     (\<forall>w. worker s w \<longrightarrow> prefix (trace (rpc_core_vec s ! w)) (trace (rpc_core_vec s' ! w))) \<and>
     prefix (outer_trace s) (outer_trace s')"

lemma grows_refl: "grows s s"
  by (simp add: grows_def)

lemma grows_trans: "grows s t \<Longrightarrow> grows t u \<Longrightarrow> grows s u"
  by (auto simp: grows_def worker_def dest: spec intro: prefix_order.trans)

text \<open>All closures called so far, and those handed over that wait.\<close>

definition all_called :: "('own, 'tw, 'msg, 'u, 'svc, 'z) hyper \<Rightarrow> ('u closure \<times> Result) multiset" where
  "all_called s = (\<Sum>core\<leftarrow>rpc_core_vec s. mset (done_events (trace core))) + mset (outer_trace s)"

definition waiting :: "('own, 'tw, 'msg, 'u, 'svc, 'z) hyper \<Rightarrow> 'u closure multiset" where
  "waiting s = (\<Sum>core\<leftarrow>rpc_core_vec s. pending core) + queued s"

lemma calls_between_all:
  assumes "grows s s'"
  shows "all_called s' = all_called s + mset (calls_between s s')"
proof -
  let ?n = "length (rpc_core_vec s)"
  let ?new = "\<lambda>w. done_events (drop (length (trace (rpc_core_vec s ! w))) (trace (rpc_core_vec s' ! w)))"
  have split: "mset (done_events (trace (rpc_core_vec s' ! w))) =
      mset (done_events (trace (rpc_core_vec s ! w))) + mset (?new w)" if "w < ?n" for w
  proof -
    from assms that obtain es where "trace (rpc_core_vec s' ! w) = trace (rpc_core_vec s ! w) @ es"
      by (auto simp: grows_def worker_def prefix_def)
    then show ?thesis by (simp add: done_events_append)
  qed
  have len: "length (rpc_core_vec s') = ?n" using assms by (simp add: grows_def)
  have "(\<Sum>core\<leftarrow>rpc_core_vec s'. mset (done_events (trace core))) =
      (\<Sum>w<?n. mset (done_events (trace (rpc_core_vec s ! w))) + mset (?new w))"
    using split by (simp add: sum_list_sum_nth atLeast0LessThan len)
  also have "\<dots> = (\<Sum>core\<leftarrow>rpc_core_vec s. mset (done_events (trace core))) + (\<Sum>w<?n. mset (?new w))"
    by (simp add: sum.distrib sum_list_sum_nth atLeast0LessThan)
  also have "(\<Sum>w<?n. mset (?new w)) = mset (concat (map ?new [0..<?n]))"
    by (simp add: mset_concat interv_sum_list_conv_sum_set_nat atLeast0LessThan comp_def)
  finally have cores: "(\<Sum>core\<leftarrow>rpc_core_vec s'. mset (done_events (trace core))) =
      (\<Sum>core\<leftarrow>rpc_core_vec s. mset (done_events (trace core))) + mset (concat (map ?new [0..<?n]))" .
  have "mset (outer_trace s') = mset (outer_trace s) + mset (drop (length (outer_trace s)) (outer_trace s'))"
    using assms by (auto simp: grows_def prefix_def)
  with cores show ?thesis
    unfolding all_called_def calls_between_def len by (simp add: ac_simps)
qed

context hyper_callbacks
begin

lemma step_grows:
  assumes "hyper_step C s s'" and inv: "hyper_inv C s"
    and ids: "\<And>w. worker s w \<Longrightarrow> rpc_core_id (rpc_core_vec s ! w) = w"
  shows "grows s s'"
proof -
  from step_sim [OF assms] have s': "hyper_inv C s'" and one: "one_core_step (core_step C) s s'" by auto
  have "prefix (trace (rpc_core_vec s ! w)) (trace (rpc_core_vec s' ! w))" if "worker s w" for w
    using one unfolding one_core_step_def
  proof (elim disjE exE conjE)
    fix v core'
    assume "core_step C (rpc_core_vec s ! v) core'" "rpc_core_vec s' = (rpc_core_vec s)[v := core']"
    with that core_callbacks.step_advances [OF callbacks, of "rpc_core_vec s ! v" core' 0] show ?thesis
      by (cases "w = v") (auto simp: worker_def advances_def)
  qed simp
  moreover have "prefix (outer_trace s) (outer_trace s')"
    using assms(1)
  proof cases
    case hyper_happens
    then show ?thesis
      by cases (auto simp: Impl_OnRecvPacket_def Impl_OnSentResult_def Impl_CallMethod_def abort_process_def Let_def
          split: prod.split option.split caller.split)
  qed (auto simp: run_task_def Let_def split: list.split task.split)
  moreover have "length (rpc_core_vec s') = length (rpc_core_vec s)"
    using s' inv by (simp add: hyper_inv_def)
  ultimately show ?thesis by (simp add: grows_def)
qed

end

lemma called_parts:
  fixes s :: "('own, 'tw, 'msg, 'u, 'svc, 'z) hyper"
  shows "image_mset fst (all_called s) = (\<Sum>core\<leftarrow>rpc_core_vec s. answered core) + mset (map fst (outer_trace s))"
proof -
  have "image_mset fst (\<Sum>core\<leftarrow>cores. mset (done_events (trace core))) = (\<Sum>core\<leftarrow>cores. answered core)"
    for cores :: "('own, 'tw, 'msg, 'u closure, 'z) core list"
    by (induction cores) (simp_all add: answered_done_events)
  then show ?thesis by (simp add: all_called_def)
qed

lemma all_called_books:
  fixes s :: "('own, 'tw, 'msg, 'u, 'svc, 'z) hyper"
  shows "image_mset fst (all_called s) + waiting s =
     (\<Sum>core\<leftarrow>rpc_core_vec s. answered core + pending core) + queued s + mset (map fst (outer_trace s))"
  by (simp add: called_parts waiting_def sum_list_addf ac_simps)

lemma notified_none:
  assumes "\<And>f. f \<in># image_mset fst (all_called s) \<Longrightarrow> f \<noteq> SyncDone th"
  shows "notified s th = []"
proof -
  have "filter (\<lambda>x. fst x = SyncDone th) (outer_trace s) = []"
    using assms by (fastforce simp: all_called_def filter_empty_conv)
  moreover have "List.map_filter (\<lambda>e. case e of EvDone f r \<Rightarrow> if f = SyncDone th then Some r else None | _ \<Rightarrow> None)
      (trace core) = []" if "core \<in> set (rpc_core_vec s)" for core
  proof -
    have "f \<noteq> SyncDone th" if "EvDone f r \<in> set (trace core)" for f r
    proof -
      have "(f, r) \<in> set (done_events (trace core))"
        using that by (force simp: done_events_def List.map_filter_def image_iff)
      with \<open>core \<in> _\<close> have "(f, r) \<in># all_called s"
        by (auto simp: all_called_def)
      with assms show ?thesis by fastforce
    qed
    then show ?thesis by (auto simp: List.map_filter_def filter_empty_conv split: event.splits)
  qed
  ultimately show ?thesis by (simp add: notified_def)
qed

section \<open>The client's closure\<close>

fun captured :: "profile_done closure \<Rightarrow> msg_ptr multiset" where
  "captured (User (request, response)) = {#request, response#}"
| "captured (SyncDone th) = {#}"

definition captured_by :: "profile_done closure multiset \<Rightarrow> msg_ptr multiset" where
  "captured_by M = (\<Sum>f\<in>#M. captured f)"

lemma captured_by_simps [simp]:
  "captured_by {#} = {#}" "captured_by (add_mset f M) = captured f + captured_by M"
  "captured_by (M + N) = captured_by M + captured_by N"
  by (simp_all add: captured_by_def)

lemma delete_live:
  assumes "add_mset x M = mset_set (live p)" "finite (live p)"
  shows "delete_message x p = p\<lparr>live := live p - {x}\<rparr>" "M = mset_set (live p - {x})"
proof -
  from assms have "x \<in> live p" by (metis elem_mset_set union_single_eq_member)
  then show "delete_message x p = p\<lparr>live := live p - {x}\<rparr>" by (simp add: delete_message_def)
  from \<open>x \<in> live p\<close> assms(2) have "mset_set (live p) = add_mset x (mset_set (live p - {x}))"
    by (metis mset_set.remove)
  with assms(1) show "M = mset_set (live p - {x})" by simp
qed

definition failures :: "('f \<times> Result) list \<Rightarrow> nat" where
  "failures xs = length (filter (\<lambda>x. snd x \<noteq> kSuccess) xs)"

lemma run_closures:
  assumes "captured_by (mset (map fst xs)) + M = mset_set (live p)" "finite (live p)" "\<not> bad_delete p"
    and "\<And>f r. (f, r) \<in> set xs \<Longrightarrow> \<exists>u. f = User u"
  shows "\<exists>L. finite L \<and> M = mset_set L \<and>
    fold on_profile_done xs p = p\<lparr>fail_count := fail_count p + of_nat (failures xs), live := L\<rparr>"
  using assms
proof (induction xs arbitrary: p)
  case Nil
  then show ?case by (intro exI [of _ "live p"]) (simp add: failures_def)
next
  case (Cons x xs)
  obtain f r where x: "x = (f, r)" by force
  with Cons.prems(4) obtain a b where f: "f = User (a, b)" by fastforce
  let ?p = "if r \<noteq> kSuccess then p\<lparr>fail_count := fail_count p + 1\<rparr> else p"
  have "add_mset a (add_mset b (captured_by (mset (map fst xs)) + M)) = mset_set (live ?p)" "finite (live ?p)"
    using Cons.prems(1,2) by (simp_all add: x f)
  note first = delete_live [OF this]
  let ?p1 = "?p\<lparr>live := live ?p - {a}\<rparr>"
  have "add_mset b (captured_by (mset (map fst xs)) + M) = mset_set (live ?p1)" "finite (live ?p1)"
    using first(2) Cons.prems(2) by simp_all
  note second = delete_live [OF this]
  let ?p2 = "?p1\<lparr>live := live ?p1 - {b}\<rparr>"
  have "on_profile_done x p = ?p2" using first(1) second(1) by (simp add: x f)
  moreover have "\<exists>L. finite L \<and> M = mset_set L \<and>
      fold on_profile_done xs ?p2 = ?p2\<lparr>fail_count := fail_count ?p2 + of_nat (failures xs), live := L\<rparr>"
  proof (rule Cons.IH)
    show "captured_by (mset (map fst xs)) + M = mset_set (live ?p2)" using second(2) by simp
  qed (use Cons.prems in \<open>auto\<close>)
  then obtain L where L: "finite L" "M = mset_set L"
    "fold on_profile_done xs ?p2 = ?p2\<lparr>fail_count := fail_count ?p2 + of_nat (failures xs), live := L\<rparr>" by blast
  moreover have "failures (x # xs) = (if r \<noteq> kSuccess then 1 else 0) + failures xs" by (simp add: failures_def x)
  ultimately show ?case
    by (cases "r = kSuccess") (intro exI [of _ L] conjI, simp_all)+
qed

lemma on_profile_done_keeps [simp]:
  "client_rpc (on_profile_done x p) = client_rpc p" "call_count (on_profile_done x p) = call_count p"
  "printed (on_profile_done x p) = printed p" "reporting (on_profile_done x p) = reporting p"
  by (cases "(x, p)" rule: on_profile_done.cases; simp add: delete_message_def)+

lemma run_closures_keeps [simp]:
  "client_rpc (fold on_profile_done xs p) = client_rpc p" "call_count (fold on_profile_done xs p) = call_count p"
  "printed (fold on_profile_done xs p) = printed p" "reporting (fold on_profile_done xs p) = reporting p"
  by (induction xs arbitrary: p) simp_all

lemma CallProfileService_count [simp]: "call_count (CallProfileService C H w q r p) = call_count p"
  by (simp add: CallProfileService_def library_did_def Let_def split: option.split)

section \<open>The client keeps its books\<close>

text \<open>The counters count modulo \<open>2 ^ 64\<close>, as the code's do.\<close>

definition calls_counted :: "('own, 'tw, 'z) ClientProgram \<Rightarrow> u64" where
  "calls_counted p = sum_list (map fst (printed p)) + (if reporting p then 0 else call_count p)"

definition fails_counted :: "('own, 'tw, 'z) ClientProgram \<Rightarrow> u64" where
  "fails_counted p = sum_list (map snd (printed p)) + lost_fails p +
     (if reporting p then fail_count p - snd (last (printed p)) else fail_count p)"

definition failed_calls :: "('own, 'tw, 'msg, 'u, 'svc, 'z) hyper \<Rightarrow> nat" where
  "failed_calls s = size {#x \<in># all_called s. snd x \<noteq> kSuccess#}"

definition client_books :: "('own, 'tw, 'z) ClientProgram \<Rightarrow> bool" where
  "client_books p \<longleftrightarrow> \<not> bad_delete p \<and> finite (live p) \<and>
     captured_by (waiting (client_rpc p)) = mset_set (live p) \<and>
     (\<forall>f \<in> set (handed (client_rpc p)). \<exists>u. f = User u) \<and>
     calls_counted p = of_nat (length (handed (client_rpc p))) \<and>
     fails_counted p = of_nat (failed_calls (client_rpc p))"

lemma client_quiet: "quiet_user 1 (client_user addr)"
  by (simp add: quiet_user_def quiet_route_def client_user_def OnServiceRouting_def)

lemma client_exact:
  assumes "sizes_agree (pb B)" "hyper_reachable (client_env B addr) HU opt s"
  shows "mset (handed s) = image_mset fst (all_called s) + waiting s"
proof -
  have "sizes_agree (pb (profile_base B))" using assms(1) by (simp add: profile_base_def with_services_def)
  from reachable_exact [OF this client_quiet _ assms(2) [unfolded client_env_def]] show ?thesis
    by (simp add: all_called_books)
qed

lemma client_facts:
  assumes "sizes_agree (pb B)" "hyper_reachable (client_env B addr) HU opt s"
  shows "hyper_inv (client_env B addr) s" "hyper_step (client_env B addr) s s' \<Longrightarrow> grows s s'"
proof -
  have "sizes_agree (pb (profile_base B))" using assms(1) by (simp add: profile_base_def with_services_def)
  then have env: "client_env B addr = nested_core (lawful (profile_base B)) (client_user addr) 0"
    by (simp add: client_env_def lawful_id)
  from process.reachable_hyper_inv [OF assms(2) [unfolded env]]
  show inv: "hyper_inv (client_env B addr) s"
    and "hyper_step (client_env B addr) s s' \<Longrightarrow> grows s s'"
    unfolding env using process.step_grows process.worker_number by blast+
qed

text \<open>A step of the library after the closures of \<open>new\<close> were handed over, which the caller's data already
  counts.\<close>

lemma library_did_books:
  assumes sizes: "sizes_agree (pb B)" and reach: "hyper_reachable (client_env B addr) HU opt (client_rpc p)"
    and step: "hyper_reachable (client_env B addr) HU opt s'" "grows (client_rpc p) s'"
    and handed: "handed s' = handed (client_rpc p) @ new" "\<forall>f \<in> set (handed s'). \<exists>u. f = User u"
    and live: "captured_by (waiting (client_rpc p) + mset new) = mset_set (live p)" "finite (live p)" "\<not> bad_delete p"
    and counts: "calls_counted p = of_nat (length (handed s'))"
      "fails_counted p = of_nat (failed_calls (client_rpc p))"
  shows "client_books (library_did s' p) \<and> client_rpc (library_did s' p) = s'"
proof -
  let ?s = "client_rpc p" and ?p = "p\<lparr>client_rpc := s'\<rparr>"
  let ?xs = "calls_between ?s s'"
  note all = calls_between_all [OF step(2)]
  note ex = client_exact [OF sizes reach] and ex' = client_exact [OF sizes step(1)]
  have "image_mset fst (all_called s') + waiting s' = image_mset fst (all_called ?s) + waiting ?s + mset new"
    using ex ex' by (simp add: handed(1) ac_simps)
  then have out: "mset (map fst ?xs) + waiting s' = waiting ?s + mset new" by (simp add: all)
  have "\<exists>u. f = User u" if "(f, r) \<in> set ?xs" for f r
  proof -
    from that have "f \<in># image_mset fst (all_called s')" by (force simp: all)
    then have "f \<in># mset (handed s')" by (simp add: ex')
    with handed(2) show ?thesis by simp
  qed
  moreover have "captured_by (mset (map fst ?xs)) + captured_by (waiting s') = mset_set (live ?p)"
    using live(1) unfolding captured_by_simps(3) [symmetric] out by simp
  ultimately obtain L where L: "finite L" "captured_by (waiting s') = mset_set L"
    "library_did s' p = ?p\<lparr>fail_count := fail_count ?p + of_nat (failures ?xs), live := L\<rparr>"
    using run_closures [of ?xs "captured_by (waiting s')" ?p] live(2,3) by (auto simp: library_did_def)
  have "failed_calls s' = failed_calls ?s + failures ?xs"
    by (simp add: all failures_def failed_calls_def flip: mset_filter)
  moreover have "calls_counted (library_did s' p) = calls_counted p"
    "fails_counted (library_did s' p) = fails_counted p + of_nat (failures ?xs)"
    by (simp_all add: L(3) calls_counted_def fails_counted_def)
  ultimately show ?thesis
    using L handed(2) counts live(3) by (simp add: client_books_def)
qed

lemma map_update_same: "f y = f (xs ! w) \<Longrightarrow> map f (xs[w := y]) = map f xs"
  by (metis list_update_id map_update)

lemma write_messages_same:
  "handed (write_messages w q r s) = handed s" "waiting (write_messages w q r s) = waiting s"
  "all_called (write_messages w q r s) = all_called s" "worker (write_messages w q r s) = worker s"
  "is_initialized (write_messages w q r s) = is_initialized s"
  by (cases w; simp add: write_messages_def waiting_def all_called_def worker_def set_core_def fun_eq_iff
      queued_def pending_def map_update_same)+

lemma write_messages_event:
  assumes "\<And>v. w = Some v \<Longrightarrow> worker s v"
  shows "hyper_event C s (write_messages w q r s) \<or> write_messages w q r s = s"
  using assms by (cases w) (auto simp: write_messages_def intro: hyper_write)

lemma client_round_books:
  assumes sizes: "sizes_agree (pb B)" and reach: "hyper_reachable (client_env B addr) HU opt (client_rpc p)"
    and books: "client_books p" and idle: "\<not> reporting p" and fresh: "q \<notin> live p" "r \<notin> live p" "q \<noteq> r"
    and w: "\<And>v. w = Some v \<Longrightarrow> worker (client_rpc p) v"
    and stub: "stub_method H ProfileService ''GetProfile'' = Some m"
  defines "p' \<equiv> CallProfileService (client_env B addr) H w q r (p\<lparr>call_count := call_count p + 1\<rparr>)"
  shows "client_books p'" "hyper_reachable (client_env B addr) HU opt (client_rpc p')"
    "handed (client_rpc p') = handed (client_rpc p) @ [User (q, r)]"
    "\<exists>m. (hyper_event (client_env B addr) (client_rpc p) m \<or> m = client_rpc p) \<and>
       hyper_event (client_env B addr) m (client_rpc p')"
proof -
  let ?C = "client_env B addr" and ?s1 = "write_messages w q r (client_rpc p)"
  let ?p1 = "p\<lparr>call_count := call_count p + 1, client_rpc := ?s1, live := insert q (insert r (live p))\<rparr>"
  let ?s' = "snd (Impl_CallMethod ?C (Outside 0) w m q r (Some (q, r)) ?s1)"
  have wrote: "hyper_event ?C (client_rpc p) ?s1 \<or> ?s1 = client_rpc p"
    by (rule write_messages_event) (rule w)
  with reach have reach1: "hyper_reachable ?C HU opt ?s1" by (auto intro: hyper_next hyper_happens)
  have users: "\<exists>u. f = User u" if "f \<in> set (handed ?s1)" for f
    using books that by (auto simp: client_books_def write_messages_same)
  have "notified ?s1 0 = []"
  proof (rule notified_none)
    fix f assume "f \<in># image_mset fst (all_called ?s1)"
    then have "f \<in># mset (handed ?s1)" by (simp add: client_exact [OF sizes reach1])
    with users show "f \<noteq> SyncDone 0" by auto
  qed
  moreover have "SyncDone 0 \<notin> set (handed ?s1)" using users by auto
  ultimately have "idle_thread ?s1 0" by (simp add: idle_thread_def count_list_0_iff)
  with w have event: "hyper_event ?C ?s1 ?s'"
    by (intro hyper_call_out) (simp_all add: write_messages_same)
  note step = hyper_next [OF reach1 hyper_happens [OF event]] client_facts(2) [OF sizes reach1 hyper_happens [OF event]]
  have init: "is_initialized ?s1" using client_facts(1) [OF sizes reach1] by (simp add: hyper_inv_def)
  then have handed: "handed ?s' = handed ?s1 @ [User (q, r)]"
    by (auto simp: Impl_CallMethod_def Let_def split: option.split)
  have "mset_set (insert q (insert r (live p))) = add_mset q (add_mset r (mset_set (live p)))"
    using books fresh by (simp add: client_books_def)
  with books have live: "captured_by (waiting ?s1 + mset [User (q, r)]) = mset_set (live ?p1)"
    by (simp add: client_books_def write_messages_same ac_simps)
  have books': "client_books (library_did ?s' ?p1) \<and> client_rpc (library_did ?s' ?p1) = ?s'"
  proof (rule library_did_books [OF sizes, where HU = HU and opt = opt and addr = addr and new = "[User (q, r)]"])
    show "hyper_reachable ?C HU opt (client_rpc ?p1)" using reach1 by simp
    show "captured_by (waiting (client_rpc ?p1) + mset [User (q, r)]) = mset_set (live ?p1)" using live by simp
    show "calls_counted ?p1 = of_nat (length (handed ?s'))"
      using books idle by (simp add: client_books_def calls_counted_def handed write_messages_same flip: add.assoc)
    show "fails_counted ?p1 = of_nat (failed_calls (client_rpc ?p1))"
      using books idle by (simp add: client_books_def fails_counted_def failed_calls_def write_messages_same)
  qed (use books users handed step in \<open>auto simp: client_books_def write_messages_same\<close>)
  have "p' = library_did ?s' ?p1"
    by (simp add: p'_def CallProfileService_def stub Let_def)
  with books' have p': "client_books p'" "client_rpc p' = ?s'" by simp_all
  from p' step(1) show "client_books p'" "hyper_reachable ?C HU opt (client_rpc p')" by simp_all
  from p'(2) handed show "handed (client_rpc p') = handed (client_rpc p) @ [User (q, r)]"
    by (simp add: write_messages_same)
  from p'(2) wrote event show "\<exists>m. (hyper_event ?C (client_rpc p) m \<or> m = client_rpc p) \<and> hyper_event ?C m (client_rpc p')"
    by auto
qed

text \<open>What every step of the client keeps.\<close>

definition client_ok ::
  "('own, 'tw, profile_done closure, 'z) profile_env \<Rightarrow> ('b, 'h, 'log) HudpOptions \<Rightarrow> 'h Options \<Rightarrow>
   ('own, 'tw, 'z) ClientProgram \<Rightarrow> bool" where
  "client_ok C HU opt p \<longleftrightarrow> client_books p \<and> hyper_reachable C HU opt (client_rpc p)"

lemma client_steps:
  assumes "(hyper_step (client_env B addr))\<^sup>*\<^sup>* s s'" "hyper_reachable (client_env B addr) HU opt s"
    and "sizes_agree (pb B)"
  shows "hyper_reachable (client_env B addr) HU opt s' \<and> grows s s'"
  using assms(1)
proof (induction rule: rtranclp_induct)
  case (step t u)
  then show ?case
    using client_facts(2) [OF assms(3) _ step(2)] hyper_next by (blast intro: grows_trans)
qed (simp add: assms(2) grows_refl)

lemma client_library_ok:
  assumes "client_ok (client_env B addr) HU opt p" and sizes: "sizes_agree (pb B)"
    and "(hyper_step (client_env B addr))\<^sup>*\<^sup>* (client_rpc p) s'" "handed s' = handed (client_rpc p)"
  shows "client_ok (client_env B addr) HU opt (library_did s' p)" "client_rpc (library_did s' p) = s'"
proof -
  from assms(1) have books: "client_books p" and reach: "hyper_reachable (client_env B addr) HU opt (client_rpc p)"
    by (simp_all add: client_ok_def)
  from client_steps [OF assms(3) reach sizes]
  have step: "hyper_reachable (client_env B addr) HU opt s'" "grows (client_rpc p) s'" by simp_all
  from books assms(4) have "client_books (library_did s' p) \<and> client_rpc (library_did s' p) = s'"
    by (intro library_did_books [OF sizes reach step, where new = "[]"]) (simp_all add: client_books_def)
  with step(1) show "client_ok (client_env B addr) HU opt (library_did s' p)" "client_rpc (library_did s' p) = s'"
    by (simp_all add: client_ok_def)
qed

lemma client_reset_ok: "client_ok C HU opt p \<Longrightarrow> reporting p \<Longrightarrow> client_ok C HU opt (client_reset p)"
  by (simp add: client_reset_def client_ok_def client_books_def calls_counted_def fails_counted_def ac_simps)

lemma client_print_ok: "client_ok C HU opt p \<Longrightarrow> \<not> reporting p \<Longrightarrow> client_ok C HU opt (client_print p)"
  by (simp add: client_print_def client_ok_def client_books_def calls_counted_def fails_counted_def ac_simps)

lemma GetProfile_method_at: "0 < method_count ProfileService"
  "Compiler.method_name (methods ProfileService ! 0) = ''GetProfile''"
  "distinct (map Compiler.method_name (methods ProfileService))"
  "Common.service_name (method_at ProfileService 0) = ''ProfileService''"
  "Common.method_name (method_at ProfileService 0) = ''GetProfile''"
  by (simp_all add: ProfileService_def method_count_def method_at_def)

lemma GetProfile_stub:
  "inj (SimpleItoa H) \<Longrightarrow> stub_method H ProfileService ''GetProfile'' = Some (method_at ProfileService 0)"
  using stub_method_at [OF _ GetProfile_method_at(3,1)] by (simp add: GetProfile_method_at)

lemma client_loop_ok:
  assumes ok: "client_ok (client_env B addr) HU opt p" and "sizes_agree (pb B)" and "inj (SimpleItoa H)"
    and idle: "\<not> reporting p" and "q \<notin> live p" "r \<notin> live p" "q \<noteq> r"
    and "\<And>v. w = Some v \<Longrightarrow> worker (client_rpc p) v"
  shows "client_ok (client_env B addr) HU opt (client_loop (client_env B addr) H token expired w q r p)"
proof (cases token)
  case True
  from ok have reach: "hyper_reachable (client_env B addr) HU opt (client_rpc p)" and books: "client_books p"
    by (simp_all add: client_ok_def)
  from client_round_books(1,2) [OF assms(2) reach books idle assms(5-8) GetProfile_stub [OF assms(3)]] True
  show ?thesis by (simp add: client_ok_def client_loop_def)
next
  case False
  with client_print_ok [OF ok idle] ok show ?thesis by (simp add: client_loop_def)
qed

lemma library_step_handed: "library_step C s s' \<Longrightarrow> handed s' = handed s"
  by (cases rule: library_step.cases) (auto simp: Impl_OnRecvPacket_def Impl_OnSentResult_def run_task_def
      abort_process_def Let_def split: prod.split list.split task.split)

lemma client_started_ok:
  assumes "started (client_env B addr) HU opt own0 (client_rpc p)" and sizes: "sizes_agree (pb B)"
    and "call_count p = 0" "fail_count p = 0" "live p = {}" "\<not> bad_delete p" "printed p = []" "\<not> reporting p"
    and "lost_fails p = 0"
  shows "client_ok (client_env B addr) HU opt p"
proof -
  note books = started_booked [OF assms(1), where n = 0]
  from started_reachable [OF assms(1)] have reach: "hyper_reachable (client_env B addr) HU opt (client_rpc p)" .
  from client_exact [OF sizes reach] started_core(2) [OF assms(1)]
  have "image_mset fst (all_called (client_rpc p)) + waiting (client_rpc p) = {#}" by simp
  then have "all_called (client_rpc p) = {#}" "waiting (client_rpc p) = {#}" by simp_all
  with assms(3-) started_core(2) [OF assms(1)] reach show ?thesis
    by (simp add: client_ok_def client_books_def calls_counted_def fails_counted_def failed_calls_def)
qed

lemma client_step_ok:
  assumes "client_step (client_env B addr) H p p'" and ok: "client_ok (client_env B addr) HU opt p"
    and "sizes_agree (pb B)" and "inj (SimpleItoa H)"
  shows "client_ok (client_env B addr) HU opt p'"
  using assms(1)
proof cases
  case (client_library s')
  then show ?thesis
    using client_library_ok(1) [OF ok assms(3) r_into_rtranclp] library_step_hyper library_step_handed by blast
next
  case client_resets
  with client_reset_ok [OF ok] show ?thesis by simp
next
  case (client_round w q r token expired)
  with client_loop_ok [OF ok assms(3,4)] show ?thesis by simp
qed

lemma client_reachable_books:
  assumes "client_reachable (client_env B addr) H HU opt p" and sizes: "sizes_agree (pb B)"
    and "inj (SimpleItoa H)"
  shows "client_books p \<and> hyper_reachable (client_env B addr) HU opt (client_rpc p)"
  using assms(1) unfolding client_ok_def [symmetric]
proof (induction rule: client_reachable.induct)
  case (client_starts G log new_core rands garbage own0 udp_ok parsed p)
  from client_started_ok [OF _ sizes] client_started [OF client_starts] show ?case by blast
next
  case (client_next p p')
  from client_step_ok [OF client_next(2,3) sizes assms(3)] show ?case .
qed

section \<open>The server keeps its books\<close>

inductive server_step ::
  "('own, 'tw, profile_done closure, 'z) profile_env \<Rightarrow> ('own, 'tw, 'z) ServerProgram \<Rightarrow>
   ('own, 'tw, 'z) ServerProgram \<Rightarrow> bool"
  for C :: "('own, 'tw, profile_done closure, 'z) profile_env" where
  server_library: "library_step C (server_rpc p) s' \<Longrightarrow> server_step C p (server_did s' p)"
| server_prints: "\<not> server_reporting p \<Longrightarrow> server_step C p (server_print p)"
| server_resets: "server_reporting p \<Longrightarrow> server_step C p (server_reset p)"

inductive server_reachable ::
  "('own, 'tw, profile_done closure, 'z) profile_env \<Rightarrow> ProfileType cpp_helpers \<Rightarrow>
   ('b, 'h, 'log) HudpOptions \<Rightarrow> 'h Options \<Rightarrow> ('own, 'tw, 'z) ServerProgram \<Rightarrow> bool"
  for C :: "('own, 'tw, profile_done closure, 'z) profile_env" and H :: "ProfileType cpp_helpers"
    and HU :: "('b, 'h, 'log) HudpOptions" and opt :: "'h Options" where
  server_starts: "program_options HU G log 2 = Inr opt \<Longrightarrow> good_start C HU opt new_core rands \<Longrightarrow>
     on_find_service C = [''ProfileService'' \<mapsto> ProfileServiceImpl H] \<Longrightarrow>
     StartProfileServiceServer H HU G log new_core garbage own0 rands udp_ok = Some (Running p) \<Longrightarrow>
     server_reachable C H HU opt p"
| server_next: "server_reachable C H HU opt p \<Longrightarrow> server_step C p p' \<Longrightarrow> server_reachable C H HU opt p'"

lemma server_finds:
  "server_reachable C H HU opt p \<Longrightarrow> on_find_service C = [''ProfileService'' \<mapsto> ProfileServiceImpl H]"
  by (induction rule: server_reachable.induct)

lemma server_started:
  assumes "program_options HU G log 2 = Inr opt" "good_start C HU opt new_core rands"
    and "on_find_service C = [''ProfileService'' \<mapsto> ProfileServiceImpl H]" "on_service_routing C = None"
    and "StartProfileServiceServer H HU G log new_core garbage own0 rands udp_ok = Some (Running p)"
  shows "started C HU opt own0 (server_rpc p)" "server_calls p = 0" "server_fails p = 0"
    "server_printed p = []" "\<not> server_reporting p" "lost_calls p = 0"
proof -
  let ?name = "\<lambda>svc. Compiler.service_name (GetDescriptor_of svc)"
  let ?x = "snd (api_InitAsServer ?name [ProfileServiceImpl H] (HyperRpc_new opt))"
  have x: "pimpl ?x = snd (InitAsServer ?name [ProfileServiceImpl H] Impl_init)" "env_opt (env ?x) = opt"
    "fst (api_InitAsServer ?name [ProfileServiceImpl H] (HyperRpc_new opt))"
    by (simp_all add: api_InitAsServer_def InitAsServer_def HyperRpc_new_def Env_init_def)
  from assms(1,5) x(3) obtain y where y: "api_Start HU new_core garbage own0 rands udp_ok ?x = Some (True, y)"
    "p = \<lparr>server_rpc = pimpl y, server_calls = 0, server_fails = 0, server_printed = [],
      server_reporting = False, lost_calls = 0\<rparr>"
    by (auto simp: StartProfileServiceServer_def split: prod.splits option.splits if_splits)
  then show "server_calls p = 0" "server_fails p = 0" "server_printed p = []" "\<not> server_reporting p"
    "lost_calls p = 0" by simp_all
  have "\<not> is_initialized (pimpl ?x)" by (simp add: x InitAsServer_def Impl_init_def)
  note start = api_Start_running [OF y(1) this, unfolded x(1,2)]
  have s0: "snd (InitAsServer ?name [ProfileServiceImpl H] Impl_init) =
      snd (InitAsServer ?name [ProfileServiceImpl H] (snd (InitAsClient (on_service_routing C) Impl_init)))"
    by (simp add: InitAsClient_def Impl_init_def assms(4))
  have map: "on_find_service C = service_map (snd (InitAsServer ?name [ProfileServiceImpl H] Impl_init))"
    using assms(3) by (simp add: InitAsServer_def Impl_init_def ProfileServiceImpl_def generated_service_def ProfileService_def)
  show "started C HU opt own0 (server_rpc p)"
    unfolding y(2) ServerProgram.simps by (rule good_start_started [OF assms(2) s0 map start])
qed

text \<open>What the server has counted, modulo \<open>2 ^ 64\<close>.\<close>

definition calls_served :: "('own, 'tw, 'z) ServerProgram \<Rightarrow> u64" where
  "calls_served p = sum_list (map fst (server_printed p)) + lost_calls p +
     (if server_reporting p then server_calls p - fst (last (server_printed p)) else server_calls p)"

lemma server_facts:
  assumes "sizes_agree (pb B)" "hyper_reachable (server_env B) HU opt s"
  shows "hyper_inv (server_env B) s" "library_step (server_env B) s s' \<Longrightarrow> hyper_reachable (server_env B) HU opt s'"
    and "library_step (server_env B) s s' \<Longrightarrow> profile_calls s \<le> profile_calls s'"
proof -
  have "sizes_agree (pb (profile_base B))" using assms(1) by (simp add: profile_base_def with_services_def)
  then have env: "server_env B = nested_core (lawful (profile_base B)) server_user 1"
    by (simp add: server_env_def lawful_id)
  have inv: "hyper_inv (server_env B) s" if "hyper_reachable (server_env B) HU opt s" for s
    using process.reachable_hyper_inv [OF that [unfolded env]] unfolding env by blast
  show here: "hyper_inv (server_env B) s" by (rule inv) (rule assms)
  assume step: "library_step (server_env B) s s'"
  from hyper_next [OF assms(2) library_step_hyper [OF step]] show reach: "hyper_reachable (server_env B) HU opt s'" .
  have len: "length (rpc_core_vec s') = length (rpc_core_vec s)"
    using here inv [OF reach] by (simp add: hyper_inv_def)
  let ?n = "\<lambda>core. length (filter (\<lambda>(m, _). Common.method_name m = ''GetProfile'') (served core))"
  have "?n (rpc_core_vec s ! w) \<le> ?n (rpc_core_vec s' ! w)" if "w < length (rpc_core_vec s)" for w
  proof -
    have "prefix (served (rpc_core_vec s ! w)) (served (rpc_core_vec s' ! w))"
      using served_grows [OF library_step_hyper [OF step [unfolded env]]] here inv [OF reach] that
      unfolding env worker_def by blast
    then show ?thesis by (auto simp: prefix_def)
  qed
  then show "profile_calls s \<le> profile_calls s'"
    unfolding profile_calls_def by (auto simp: sum_list_sum_nth len intro: sum_mono)
qed

lemma server_reachable_books:
  assumes "server_reachable (server_env B) H HU opt p" and sizes: "sizes_agree (pb B)"
  shows "hyper_reachable (server_env B) HU opt (server_rpc p) \<and>
    calls_served p = of_nat (profile_calls (server_rpc p)) \<and> server_fails p = 0 \<and>
    set (map snd (server_printed p)) \<subseteq> {0}"
  using assms(1)
proof (induction rule: server_reachable.induct)
  case (server_starts G log new_core rands garbage own0 udp_ok p)
  have "on_service_routing (server_env B) = None" by (simp add: server_env_def user_env_def server_user_def)
  note start = server_started [OF server_starts(1-3) this server_starts(4)]
  have "served core = []" if "core \<in> set (rpc_core_vec (server_rpc p))" for core
  proof -
    from that obtain w where w: "worker (server_rpc p) w" "core = rpc_core_vec (server_rpc p) ! w"
      by (auto simp: worker_def in_set_conv_nth)
    from started_core(4) [OF start(1) w(1)] w(2) show ?thesis by (auto simp: core_Init_def dest: core_Init_inv(5))
  qed
  then have "profile_calls (server_rpc p) = 0" by (simp add: profile_calls_def sum_list_eq_0_iff)
  with start(2-) started_reachable [OF start(1)] show ?case by (simp add: calls_served_def)
next
  case (server_next p p')
  from server_next(2) show ?case
  proof cases
    case (server_library s')
    let ?new = "of_nat (profile_calls s' - profile_calls (server_rpc p))"
    from server_facts(2,3) [OF sizes, of HU opt "server_rpc p" s'] server_next(3) server_library(2)
    have more: "hyper_reachable (server_env B) HU opt s'" "profile_calls (server_rpc p) \<le> profile_calls s'" by auto
    have "calls_served p' = calls_served p + ?new"
      unfolding server_library(1) by (simp add: server_did_def calls_served_def)
    moreover have "calls_served p + ?new = of_nat (profile_calls s')"
      using server_next(3) more(2) by (simp add: of_nat_diff)
    ultimately show ?thesis
      using server_next(3) more(1) by (simp add: server_library(1) server_did_def)
  qed (use server_next(3) in \<open>auto simp: server_print_def server_reset_def calls_served_def ac_simps\<close>)
qed

section \<open>A step of one worker\<close>

lemma calls_between_none:
  "rpc_core_vec s' = rpc_core_vec s \<Longrightarrow> outer_trace s' = outer_trace s \<Longrightarrow> calls_between s s' = []"
  by (simp add: calls_between_def done_events_def map_filter_simps)

lemma calls_between_core:
  assumes "rpc_core_vec s' = (rpc_core_vec s)[w := core]" "w < length (rpc_core_vec s)"
    and "trace core = trace (rpc_core_vec s ! w) @ es" "outer_trace s' = outer_trace s"
  shows "calls_between s s' = done_events es"
proof -
  let ?new = "\<lambda>v. done_events (drop (length (trace (rpc_core_vec s ! v))) (trace (rpc_core_vec s' ! v)))"
  have new: "?new v = (if v = w then done_events es else [])" if "v < length (rpc_core_vec s)" for v
    using that assms(1-3) by (simp add: done_events_def map_filter_simps)
  have range: "[0..<length (rpc_core_vec s)] = [0..<w] @ w # [Suc w..<length (rpc_core_vec s)]"
    using assms(2) upt_add_eq_append [of 0 w "length (rpc_core_vec s) - w"] by (simp add: upt_conv_Cons)
  have rest: "concat (map ?new [0..<w]) = []" "concat (map ?new [Suc w..<length (rpc_core_vec s)]) = []"
    using new assms(2) by (auto simp: concat_eq_Nil_conv)
  have "concat (map ?new [0..<length (rpc_core_vec s)]) = done_events es"
    unfolding range map_append concat_append list.map concat.simps new [OF assms(2)] rest by simp
  moreover have "length (rpc_core_vec s') = length (rpc_core_vec s)" by (simp add: assms(1))
  ultimately show ?thesis by (simp add: calls_between_def assms(4))
qed

end
