(* ===== verification/ProfileProperties.thy ===== *)
theory ProfileProperties
  imports ProfileRuns
begin

text \<open>
  What holds of the example programs: the client deletes each message once and keeps its counters,
  and a call between client and server ends with the profile. Both on concrete programs as well.
\<close>

section \<open>A concrete instance\<close>

abbreviation "GetProfile_method \<equiv> method_at ProfileService 0"

fun encode :: "Message \<Rightarrow> byte list" where
  "encode (ProfileRequest u) = id_bytes u"
| "encode (ProfileResponse u n a) = id_bytes u @ id_bytes a @ map of_char n"

fun read_id :: "byte list \<Rightarrow> u64" where
  "read_id [a, b, c, d, e, f, g, h] = ucast (load32 a b c d) OR push_bit 32 (ucast (load32 e f g h))"
| "read_id _ = 0"

fun decode :: "Message \<Rightarrow> byte list \<Rightarrow> bool \<times> Message" where
  "decode (ProfileRequest u) b = (length b = 8, ProfileRequest (read_id b))"
| "decode (ProfileResponse u n a) b =
     (16 \<le> length b, ProfileResponse (read_id (take 8 b)) (map (\<lambda>x. char_of (unat x)) (drop 16 b)) (read_id (take 8 (drop 8 b))))"

lemma read_id_bytes [simp]: "read_id (id_bytes x) = x"
  by (simp add: id_bytes_def mem32_def load32_mem id_bytes_load)

lemma char_of_byte [simp]: "char_of (unat (of_char c :: byte)) = c"
proof -
  have "unat (of_char c :: byte) = unat (of_nat (of_char c) :: byte)" by (simp only: of_nat_of_char)
  also have "\<dots> = of_char c" by (simp add: unat_of_nat)
  finally show ?thesis by simp
qed

lemma decode_encode:
  "decode (default_of ProfileRequestType) (encode (ProfileRequest u)) = (True, ProfileRequest u)"
  "decode (default_of ProfileResponseType) (encode (ProfileResponse u n a)) = (True, ProfileResponse u n a)"
  by (simp_all add: length_id_bytes comp_def)

definition profile_helpers :: "ProfileType cpp_helpers" where
  "profile_helpers = \<lparr>ClassName = (\<lambda>t q. case t of
        ProfileRequestType \<Rightarrow> ''::hrpc::example::ProfileRequest''
      | ProfileResponseType \<Rightarrow> ''::hrpc::example::ProfileResponse''),
     StripProto = StripProto demo_helpers, FilenameIdentifier = FilenameIdentifier demo_helpers,
     SimpleItoa = decimal, GlobalAddDescriptorsName = GlobalAddDescriptorsName demo_helpers,
     GlobalAssignDescriptorsName = GlobalAssignDescriptorsName demo_helpers,
     SplitStringUsing = SplitStringUsing demo_helpers, kThickSeparator = [], kThinSeparator = []\<rparr>"

lemma profile_helpers_ok: "inj (SimpleItoa profile_helpers)"
  "ClassName profile_helpers ProfileRequestType True \<noteq> ClassName profile_helpers ProfileResponseType True"
  by (simp_all add: profile_helpers_def decimal_inj)

definition profile_demo ::
  "u64 \<Rightarrow> (string \<Rightarrow> (bool, nat list, 'd, unit) profile_service option) \<Rightarrow> (bool, nat list, 'd, unit) profile_env" where
  "profile_demo n svcs = \<lparr>sess_env =
       \<lparr>default_rpc_timeout = 2500, has_timer = (\<lambda>own. own),
        AddTimer = (\<lambda>tw ms i own. (tw @ [i], True)), ResetTimer = (\<lambda>tw own ms. (tw, True)),
        CancelTimer = (\<lambda>tw own. (tw, False)), ParseFromArray = decode,
        run_done = (\<lambda>d r s. s), on_send_request = (\<lambda>m rq rid a s. s)\<rparr>,
     workers = n, pb = one_method_pb GetProfile_method encode, stack_garbage = (\<lambda>_. 0), NewMessage = New_of,
     cc_enable_arenas = (\<lambda>_. True), GetDescriptor = (\<lambda>_. None), FindMethodByName = (\<lambda>_ _. None),
     GetRequestPrototype = (\<lambda>_ _. ProfileRequest 0), GetResponsePrototype = (\<lambda>_ _. ProfileRequest 0),
     Service_CallMethod = (\<lambda>_ _ _ _ _ s. s), on_send_packet = (\<lambda>_ _ _ s. s),
     on_find_service = svcs, on_service_routing = None\<rparr>"

definition profile_blank :: "(bool, nat list, Message, 'd) RpcCore" where
  "profile_blank = \<lparr>pool_size_order = 0, pool_size_mask = 0, sess_pool = [], next_rpc_id = 0,
     timerw = [], msgs = (\<lambda>_. ProfileRequest 0), trace = [], fault = False, contexts = (\<lambda>_. None),
     next_context = 0, msg_owner = (\<lambda>_. None), next_msg = 100, rpc_core_id = 0, sent = [],
     served = [], core_fault = False\<rparr>"

text \<open>The programs start.\<close>

lemma api_Start_total:
  assumes "good_start C HU (env_opt (env x)) new_core rands" "\<not> is_initialized (pimpl x)"
  shows "\<exists>y. api_Start HU new_core garbage own0 rands True x = Some (True, y)"
proof -
  from assms(1) have "\<exists>cores. init_cores HU (env_opt (env x)) new_core garbage own0 rands = Some cores"
    by (intro init_cores_total) (simp_all add: good_start_def)
  with assms(2) show ?thesis by (auto simp: api_Start_def Start_def)
qed

lemma client_starts_up:
  fixes C :: "('own, 'tw, profile_done closure, 'z) profile_env" and opt :: "'h Options"
  assumes "program_options HU G log 1 = Inr opt" "good_start C HU opt new_core rands"
  shows "\<exists>p. StartProfileServiceClient C HU G log new_core garbage own0 rands True (True, addr) = Some (Running p)"
proof -
  let ?i = "api_InitAsClient (on_service_routing C) (HyperRpc_new opt) ::
    bool \<times> ('own, 'tw, Message, profile_done, ('own, 'tw, profile_done closure, 'z) profile_service, 'h, 'z) hyper_object"
  let ?x = "snd ?i"
  have x: "fst ?i" "env_opt (env ?x) = opt"
    "\<not> is_initialized (pimpl ?x)"
    by (simp_all add: api_InitAsClient_def InitAsClient_def HyperRpc_new_def Env_init_def Impl_init_def)
  have "\<exists>y. api_Start HU new_core garbage own0 rands True ?x = Some (True, y)"
    by (rule api_Start_total [where C = C]) (simp_all add: x assms(2))
  then obtain y where "api_Start HU new_core garbage own0 rands True ?x = Some (True, y)" by blast
  with assms(1) x(1) show ?thesis
    by (simp add: StartProfileServiceClient_def case_prod_unfold Let_def)
qed

lemma profile_options:
  assumes "n \<noteq> 0"
  shows "program_options demo_hudp no_flags () n =
    Inr \<lparr>hudp_options = n, max_rpc_sessions = 1000000, rpc_timeout_opt = 2500\<rparr>"
  using assms by (simp add: program_options_def options_eval LogHandler_def)

lemma profile_good_start:
  assumes "n < 2 ^ 16" "workers C = n"
  shows "good_start C demo_hudp \<lparr>hudp_options = n, max_rpc_sessions = 1000000, rpc_timeout_opt = 2500\<rparr>
    (\<lambda>_. profile_blank) (\<lambda>_. 0)"
  using assms by (simp add: good_start_def demo_hudp_def blank_core_def profile_blank_def)

abbreviation "demo_client_env \<equiv> client_env (profile_demo 1 (\<lambda>_. None)) (1, 1)"
abbreviation "demo_client_options \<equiv> \<lparr>hudp_options = 1, max_rpc_sessions = 1000000, rpc_timeout_opt = 2500\<rparr>"

lemma demo_client_facts:
  "on_find_service demo_client_env = (\<lambda>_. None)"
  "good_start demo_client_env demo_hudp demo_client_options (\<lambda>_. profile_blank) (\<lambda>_. 0)"
proof -
  have C: "workers demo_client_env = 1" "on_find_service demo_client_env = (\<lambda>_. None)"
    by (simp_all add: client_env_def user_env_def profile_base_def with_services_def profile_demo_def)
  then show "on_find_service demo_client_env = (\<lambda>_. None)"
    "good_start demo_client_env demo_hudp demo_client_options (\<lambda>_. profile_blank) (\<lambda>_. 0)"
    by (auto intro: profile_good_start)
qed

lemma demo_client:
  obtains p where "client_reachable demo_client_env profile_helpers demo_hudp demo_client_options p"
    "started demo_client_env demo_hudp demo_client_options False (client_rpc p)" "live p = {}" "call_count p = 0" "\<not> reporting p" "fail_count p = 0"
    "StartProfileServiceClient demo_client_env demo_hudp no_flags () (\<lambda>_. profile_blank) (\<lambda>_. undefined) False
      (\<lambda>_. 0) True (True, (1, 1)) = Some (Running p)"
proof -
  let ?C = "demo_client_env"
  note C = demo_client_facts(1) and good = demo_client_facts(2)
  note opt = profile_options [of 1, simplified]
  from client_starts_up [OF opt good, of "\<lambda>_. undefined" False "(1, 1)"] obtain p where
    p: "StartProfileServiceClient ?C demo_hudp no_flags () (\<lambda>_. profile_blank) (\<lambda>_. undefined) False (\<lambda>_. 0) True (True, (1, 1)) =
      Some (Running p)" by blast
  with client_starts [OF opt good C p] client_started [OF opt good C p] show thesis
    by (intro that) simp_all
qed

abbreviation "demo_server_env \<equiv> server_env (profile_demo 2 [''ProfileService'' \<mapsto> ProfileServiceImpl profile_helpers])"
abbreviation "demo_server_options \<equiv> \<lparr>hudp_options = 2, max_rpc_sessions = 1000000, rpc_timeout_opt = 2500\<rparr>"

lemma server_starts_up:
  fixes C :: "('own, 'tw, profile_done closure, 'z) profile_env" and opt :: "'h Options"
  assumes "program_options HU G log 2 = Inr opt" "good_start C HU opt new_core rands"
  shows "\<exists>p :: ('own, 'tw, 'z) ServerProgram.
    StartProfileServiceServer H HU G log new_core garbage own0 rands True = Some (Running p)"
proof -
  let ?i = "api_InitAsServer (\<lambda>svc. Compiler.service_name (GetDescriptor_of svc)) [ProfileServiceImpl H] (HyperRpc_new opt) ::
    bool \<times> ('own, 'tw, Message, profile_done, ('own, 'tw, profile_done closure, 'z) profile_service, 'h, 'z) hyper_object"
  let ?x = "snd ?i"
  have x: "fst ?i" "env_opt (env ?x) = opt" "\<not> is_initialized (pimpl ?x)"
    by (simp_all add: api_InitAsServer_def InitAsServer_def HyperRpc_new_def Env_init_def Impl_init_def)
  have "\<exists>y. api_Start HU new_core garbage own0 rands True ?x = Some (True, y)"
    by (rule api_Start_total [where C = C]) (simp_all add: x assms(2))
  then obtain y where "api_Start HU new_core garbage own0 rands True ?x = Some (True, y)" by blast
  with assms(1) x(1) show ?thesis
    by (simp add: StartProfileServiceServer_def case_prod_unfold Let_def)
qed

lemma demo_server:
  obtains p where "server_reachable demo_server_env profile_helpers demo_hudp demo_server_options p"
    "started demo_server_env demo_hudp demo_server_options False (server_rpc p)" "\<not> server_reporting p"
    "server_printed p = []" "server_calls p = 0" "server_fails p = 0"
proof -
  let ?C = demo_server_env
  have C: "workers ?C = 2" "on_find_service ?C = [''ProfileService'' \<mapsto> ProfileServiceImpl profile_helpers]"
    "on_service_routing ?C = None"
    by (simp_all add: server_env_def user_env_def profile_base_def with_services_def profile_demo_def server_user_def)
  have good: "good_start ?C demo_hudp demo_server_options (\<lambda>_. profile_blank) (\<lambda>_. 0)"
    by (rule profile_good_start) (simp_all add: C)
  note opt = profile_options [of 2, simplified]
  from server_starts_up [OF opt good, of profile_helpers "\<lambda>_. undefined" False] obtain p where
    "StartProfileServiceServer profile_helpers demo_hudp no_flags () (\<lambda>_. profile_blank) (\<lambda>_. undefined) False (\<lambda>_. 0) True =
      Some (Running p)" by blast
  with server_starts [OF opt good C(2) this] server_started [OF opt good C(2,3) this] show thesis
    by (intro that) simp_all
qed

section \<open>The client\<close>

text \<open>C8: the client frees what it allocates. In every state the client program can reach, whatever
  packets arrive and however its loop, its timer and the library's steps interleave: no message was
  deleted twice or before it was allocated; the messages not yet deleted are exactly those
  captured by the closures that wait in the library, each once, so that none leaks; and the
  counters printed so far and the current one add up to the calls made, those of failures up to
  what was added between the timer's printing and resetting, which is lost.\<close>

theorem client_deletes_each_message_once:
  assumes "client_reachable (client_env B addr) H HU opt p" and "sizes_agree (pb B)" and "inj (SimpleItoa H)"
  shows "\<not> bad_delete p \<and> finite (live p) \<and>
    captured_by (waiting (client_rpc p)) = mset_set (live p) \<and>
    calls_counted p = of_nat (length (handed (client_rpc p))) \<and>
    fails_counted p = of_nat (failed_calls (client_rpc p))"
  using client_reachable_books [OF assms] by (simp add: client_books_def)

text \<open>A client whose first call is refused by the worker's queue.\<close>

theorem client_deletes_each_message_once_witness:
  "\<exists>p. client_reachable demo_client_env profile_helpers demo_hudp demo_client_options p \<and> call_count p = 1 \<and>
     \<not> bad_delete p \<and> captured_by (waiting (client_rpc p)) = mset_set (live p)"
proof -
  obtain p where p: "client_reachable demo_client_env profile_helpers demo_hudp demo_client_options p"
    "live p = {}" "call_count p = 0" "\<not> reporting p" by (rule demo_client)
  let ?p = "client_loop demo_client_env profile_helpers True False None 1 2 p"
  have "client_step demo_client_env profile_helpers p ?p"
    by (rule client_round) (simp_all add: p)
  note reach = client_next [OF p(1) this]
  have "call_count ?p = 1"
    using p(3) by (simp add: client_loop_def CallProfileService_count)
  with client_deletes_each_message_once [OF reach] reach show ?thesis
    by (intro exI [of _ ?p]) (simp add: profile_demo_def profile_helpers_ok)
qed

section \<open>The server\<close>



section \<open>A call between the two\<close>

text \<open>Protobuf carries the messages of a call and parses what it serialised.\<close>

definition carries_profile ::
  "('own, 'tw, 'd, 'z) profile_env \<Rightarrow> ('own2, 'tw2, 'd2, 'z2) profile_env \<Rightarrow> bool" where
  "carries_profile B B' \<longleftrightarrow> pb B' = pb B \<and> (\<exists>reqb. ParseFromArray (sess_env B') (ProfileRequest 0) reqb = (True, ProfileRequest 123) \<and>
       (\<forall>rid. carries (pb B) (request_header GetProfile_method rid) (ProfileRequest 123) reqb)) \<and>
     (\<exists>respb. ParseFromArray (sess_env B) (ProfileResponse 0 [] 0) respb = (True, ProfileResponse 123 ''hrpcuser'' 25) \<and>
       (\<forall>rid. carries (pb B) (reply_header GetProfile_method rid kSuccess) (ProfileResponse 123 ''hrpcuser'' 25) respb))"

lemma profile_base_simps [simp]:
  "pb (profile_base B) = pb B" "sess_env (profile_base B) = sess_env B" "workers (profile_base B) = workers B"
  "NewMessage (profile_base B) = New_of" "on_find_service (profile_base B) = on_find_service B"
  by (simp_all add: profile_base_def with_services_def)

lemma profile_service_found:
  assumes "on_find_service B ''ProfileService'' = Some (ProfileServiceImpl H)"
  shows "names_method (profile_base B) (request_header GetProfile_method rid) (ProfileServiceImpl H) ProfileService GetProfile_method"
  using assms find_method_at [OF GetProfile_method_at(3,1)]
  by (simp add: names_method_def GetProfile_method_at profile_base_def with_services_def ProfileServiceImpl_def generated_service_def)

lemma profile_prototypes:
  assumes "inj (SimpleItoa H)" "ClassName H ProfileRequestType True \<noteq> ClassName H ProfileResponseType True"
  shows "New_of (GetRequestPrototype (profile_base B) (ProfileServiceImpl H) GetProfile_method) = ProfileRequest 0"
    "New_of (GetResponsePrototype (profile_base B) (ProfileServiceImpl H) GetProfile_method) = ProfileResponse 0 [] 0"
  using generated_prototype_at [OF assms(1) GetProfile_method_at(1), of "default_instance H" True]
    generated_prototype_at [OF assms(1) GetProfile_method_at(1), of "default_instance H" False] assms(2)
  by (simp_all add: profile_base_def with_services_def ProfileServiceImpl_def generated_service_def)
    (simp_all add: ProfileService_def default_instance_def)

lemma profile_method:
  assumes "inj (SimpleItoa H)"
  shows "CallMethod_of (ProfileServiceImpl H) GetProfile_method = Some GetProfile"
  by (simp add: ProfileServiceImpl_def generated_service_def GetProfile_method_at
      generated_CallMethod_at [OF assms GetProfile_method_at(1)]
      generated_method_total [OF GetProfile_method_at(1), unfolded GetProfile_method_at])

lemma profile_replies:
  assumes "inj (SimpleItoa H)"
  shows "replies server_user (ProfileServiceImpl H) GetProfile_method (ProfileResponse 0 [] 0) (ProfileRequest u)
    (ProfileResponse u ''hrpcuser'' 25) kSuccess"
  by (simp add: replies_def server_user_def run_service_def GetProfile_def profile_method [OF assms])

lemma core_env_of_handed [simp]: "core_env_of C (s\<lparr>handed := h\<rparr>) = core_env_of C s"
  by (simp add: core_env_of_def OnFindService_def fun_eq_iff)

lemma profile_round_trip:
  assumes "carries_profile B B'" and "inj (SimpleItoa H)"
    and "ClassName H ProfileRequestType True \<noteq> ClassName H ProfileResponseType True"
    and "core_inv 0 s" and "0 < unat (workers (profile_base B))"
    and "i < length (sess_pool s)" "rpc_id (sess_pool s ! i) = 0" and "core_inv 0 t"
    and "on_find_service B' ''ProfileService'' = Some (ProfileServiceImpl H)"
    and "msgs s q = ProfileRequest 123" "msgs s r = ProfileResponse 0 [] 0"
  obtains rid pkt t' rpkt s' where
    "sent (CallMethod (client_env B addr) GetProfile_method q r d s) = sent s @ [(pkt, addr, rid)]"
    "trace (CallMethod (client_env B addr) GetProfile_method q r d s) =
      trace s @ [EvAdd d (Suc 0), EvSend GetProfile_method q rid addr]"
    "OnRecvPacket (server_env B') pkt caddr t = (0, t')" "sent t' = sent t @ [(rpkt, caddr, 0)]"
    "served t' = served t @ [(GetProfile_method, next_msg t, next_msg t + 1, next_context t)]"
    "OnRecvPacket (client_env B addr) rpkt addr (CallMethod (client_env B addr) GetProfile_method q r d s) = (0, s')"
    "msgs s' r = ProfileResponse 123 ''hrpcuser'' 25"
    "trace s' = trace s @ [EvAdd d (Suc 0), EvSend GetProfile_method q rid addr, EvDone d kSuccess]"
proof -
  from assms(1) obtain reqb respb where pb: "pb B' = pb B"
    "ParseFromArray (sess_env B') (ProfileRequest 0) reqb = (True, ProfileRequest 123)"
    "\<And>rid. carries (pb B) (request_header GetProfile_method rid) (ProfileRequest 123) reqb"
    "ParseFromArray (sess_env B) (ProfileResponse 0 [] 0) respb = (True, ProfileResponse 123 ''hrpcuser'' 25)"
    "\<And>rid. carries (pb B) (reply_header GetProfile_method rid kSuccess) (ProfileResponse 123 ''hrpcuser'' 25) respb"
    by (auto simp: carries_profile_def)
  show thesis
    by (rule call_round_trip [of 0 s "profile_base B" i "client_user addr" "OnServiceRouting addr" GetProfile_method q
          addr "[]" "[]" reqb 0 t "profile_base B'" "ProfileServiceImpl H" ProfileService GetProfile_method
          "ProfileRequest 123" server_user "ProfileResponse 123 ''hrpcuser'' 25" kSuccess respb r
          "ProfileResponse 123 ''hrpcuser'' 25" d caddr])
      (use assms pb that in \<open>simp_all add: client_user_def OnServiceRouting_def
        profile_service_found profile_prototypes profile_replies client_env_def server_env_def\<close>)
qed

text \<open>The call up to the worker's queue, and the worker's step that takes it.\<close>

lemma client_calls:
  assumes "worker s 0" and init: "is_initialized s" and queue: "queues s ! 0 = []" "0 < length (queues s)"
    and stub: "stub_method H ProfileService ''GetProfile'' = Some m" and env: "core_env_of C s = C"
    and core: "core = (rpc_core_vec s ! 0)\<lparr>msgs := (msgs (rpc_core_vec s ! 0))
      (q := set_user_id 123 (default_of ProfileRequestType), r := default_of ProfileResponseType)\<rparr>"
    and s: "s = client_rpc p"
  defines "p1 \<equiv> CallProfileService C H (Some 0) q r p"
    and "core1 \<equiv> RpcCore.CallMethod C m q r (User (q, r)) core"
  assumes trace: "trace core1 = trace core @ es" "done_events es = []"
  shows "\<exists>s1 s2. p1 = p\<lparr>client_rpc := s1, live := insert q (insert r (live p))\<rparr> \<and>
    library_did (run_task C 0 s1) p1 = p\<lparr>client_rpc := s2, live := insert q (insert r (live p))\<rparr> \<and>
    rpc_core_vec s2 = (rpc_core_vec s)[0 := core1] \<and> core_env_of C s2 = C \<and> outer_trace s2 = outer_trace s \<and>
    worker s1 = worker s \<and> s2 = run_task C 0 s1 \<and> queues s2 = (queues s)[0 := []]"
proof -
  let ?s1 = "set_core 0 core s" and ?t = "CallTask m q r (User (q, r))"
  define s2 where "s2 = post 0 ?t (?s1\<lparr>handed := handed s @ [User (q, r)]\<rparr>)"
  have s2: "rpc_core_vec s2 = (rpc_core_vec s)[0 := core]" "queues s2 = (queues s)[0 := [?t]]"
    "outer_trace s2 = outer_trace s"
    by (simp_all add: s2_def post_def set_core_def queue)
  have env2: "core_env_of C s2 = C" using env by (simp add: s2_def)
  have p1: "p1 = p\<lparr>client_rpc := s2, live := insert q (insert r (live p))\<rparr>"
  proof -
    have "calls_between ?s1 s2 = []"
      by (rule calls_between_none) (simp_all add: s2_def post_def set_core_def)
    moreover have "snd (Impl_CallMethod C (Outside 0) (Some 0) m q r (Some (q, r)) ?s1) = s2"
      using init by (simp add: Impl_CallMethod_def s2_def set_core_def Let_def)
    ultimately show ?thesis
      by (simp add: p1_def CallProfileService_def stub write_messages_def library_did_def core s Let_def)
  qed
  define s3 where "s3 = run_task C 0 s2"
  have s3: "s3 = set_core 0 core1 (s2\<lparr>queues := (queues s)[0 := []]\<rparr>)"
    using assms(1) queue(2) by (simp add: s3_def run_task_def s2 env2 core1_def worker_def)
  have "calls_between s2 s3 = []"
    using calls_between_core [of s3 s2 0 core1 es] assms(1) trace
    by (simp add: s2 s3 set_core_def worker_def)
  then have "library_did (run_task C 0 s2) p1 = p\<lparr>client_rpc := s3, live := insert q (insert r (live p))\<rparr>"
    by (simp add: library_did_def p1 flip: s3_def)
  moreover have "worker s2 = worker s" "core_env_of C s3 = C" "rpc_core_vec s3 = (rpc_core_vec s)[0 := core1]"
    "outer_trace s3 = outer_trace s" "queues s3 = (queues s)[0 := []]"
    by (simp_all add: s3 env2 worker_def fun_eq_iff s2) (simp_all add: set_core_def s2)
  ultimately show ?thesis using p1 s3_def by blast
qed

text \<open>A packet that the worker it arrives at handles itself.\<close>

lemma packet_handled_here:
  assumes "core_env_of C s = C" "worker s 0" "OnRecvPacket C buf a (rpc_core_vec s ! 0) = (0, core)"
  shows "Impl_OnRecvPacket C 0 acc buf a s = set_core 0 core s"
  using assms by (simp add: Impl_OnRecvPacket_def worker_def)

lemma server_serves:
  assumes "core_env_of C (server_rpc p) = C" "worker (server_rpc p) 0"
    and "OnRecvPacket C buf a (rpc_core_vec (server_rpc p) ! 0) = (0, core)"
    and "served core = served (rpc_core_vec (server_rpc p) ! 0) @ [(GetProfile_method, x)]"
  shows "server_did (Impl_OnRecvPacket C 0 acc buf a (server_rpc p)) p =
    p\<lparr>server_rpc := set_core 0 core (server_rpc p), server_calls := server_calls p + 1\<rparr>"
proof -
  have "profile_calls (set_core 0 core (server_rpc p)) = profile_calls (server_rpc p) + 1"
    using assms(2,4)
    by (simp add: profile_calls_def set_core_def map_update sum_list_update worker_def GetProfile_method_at case_prod_unfold)
  then show ?thesis
    by (simp add: packet_handled_here [OF assms(1-3)] server_did_def)
qed

lemma client_answered:
  assumes "core_env_of C (client_rpc p) = C" "worker (client_rpc p) 0"
    and "OnRecvPacket C buf a (rpc_core_vec (client_rpc p) ! 0) = (0, core)"
    and "trace core = trace (rpc_core_vec (client_rpc p) ! 0) @ [EvDone (User (q, r)) kSuccess]"
    and "live p = insert q (insert r L)" "q \<notin> L" "r \<notin> L" "q \<noteq> r"
  shows "library_did (Impl_OnRecvPacket C 0 acc buf a (client_rpc p)) p =
    p\<lparr>client_rpc := set_core 0 core (client_rpc p), live := L\<rparr>"
proof -
  let ?s' = "set_core 0 core (client_rpc p)"
  have "calls_between (client_rpc p) ?s' = done_events [EvDone (User (q, r)) kSuccess]"
    by (rule calls_between_core [where w = 0 and core = core]) (use assms in \<open>simp_all add: set_core_def worker_def\<close>)
  then show ?thesis
    using assms(5-8) by (auto simp: packet_handled_here [OF assms(1-3)] library_did_def done_events_def
        map_filter_simps delete_message_def)
qed

text \<open>C7: one call of the example, program to program. A client that can reach its state and is not
  reporting, whose worker 0 has a free session and no queued task, runs a round of its loop, and
  its worker takes the task: one packet is sent to the server's address. The server's worker 0
  receives it, runs \<open>GetProfile\<close> once and sends one packet back. The client's worker receives
  that: the response in the client's memory is the profile of user 123, both messages are
  deleted, the call is counted by both programs and no failure is.\<close>

theorem profile_call_completes:
  assumes "client_reachable (client_env B addr) H HU opt p" and "\<not> reporting p"
    and "server_reachable (server_env B') H HU' opt' P"
    and "sizes_agree (pb B)" and "carries_profile B B'"
    and "inj (SimpleItoa H)" and "ClassName H ProfileRequestType True \<noteq> ClassName H ProfileResponseType True"
    and "worker (client_rpc p) 0" and "worker (server_rpc P) 0" and "queues (client_rpc p) ! 0 = []"
    and "i < length (sess_pool (rpc_core_vec (client_rpc p) ! 0))"
    and "rpc_id (sess_pool (rpc_core_vec (client_rpc p) ! 0) ! i) = 0"
    and "q \<notin> live p" and "r \<notin> live p" and "q \<noteq> r"
  shows "\<exists>pkt rid rpkt. let
      p1 = client_loop (client_env B addr) H True expired (Some 0) q r p;
      p2 = library_did (run_task (client_env B addr) 0 (client_rpc p1)) p1;
      P' = server_did (Impl_OnRecvPacket (server_env B') 0 acc pkt caddr (server_rpc P)) P;
      p3 = library_did (Impl_OnRecvPacket (client_env B addr) 0 acc' rpkt addr (client_rpc p2)) p2
    in sent (rpc_core_vec (client_rpc p2) ! 0) = sent (rpc_core_vec (client_rpc p) ! 0) @ [(pkt, addr, rid)] \<and>
       sent (rpc_core_vec (server_rpc P') ! 0) = sent (rpc_core_vec (server_rpc P) ! 0) @ [(rpkt, caddr, 0)] \<and>
       msgs (rpc_core_vec (client_rpc p3) ! 0) r = ProfileResponse 123 ''hrpcuser'' 25 \<and>
       server_calls P' = server_calls P + 1 \<and> call_count p3 = call_count p + 1 \<and>
       fail_count p3 = fail_count p \<and> live p3 = live p \<and> bad_delete p3 = bad_delete p"
proof -
  let ?C = "client_env B addr" and ?C' = "server_env B'" and ?m = GetProfile_method
  let ?vec = "rpc_core_vec (client_rpc p)" and ?t = "rpc_core_vec (server_rpc P) ! 0"
  let ?core = "(?vec ! 0)\<lparr>msgs := (msgs (?vec ! 0))(q := ProfileRequest 123, r := ProfileResponse 0 [] 0)\<rparr>"
  note sizes = \<open>sizes_agree (pb B)\<close>
  have pb: "pb B' = pb B" using assms(5) by (simp add: carries_profile_def)
  have reach: "hyper_reachable ?C HU opt (client_rpc p)"
    using client_reachable_books [OF assms(1) sizes assms(6)] by simp
  have reach': "hyper_reachable ?C' HU' opt' (server_rpc P)"
    using server_reachable_books [OF assms(3)] sizes pb by simp
  have c: "core_env_of ?C (client_rpc p) = ?C" "core_inv 0 (?vec ! 0)" "length (queues (client_rpc p)) = length ?vec"
    using nested_env_of [of "profile_base B" "client_user addr" 0] reach sizes assms(8) by (simp_all add: client_env_def)
  have c': "core_env_of ?C' (server_rpc P) = ?C'" "core_inv 0 ?t"
    using nested_env_of [of "profile_base B'" server_user 1] reach' sizes pb assms(9) by (simp_all add: server_env_def)
  have init: "is_initialized (client_rpc p)" "0 < unat (workers (profile_base B))"
    using client_facts(1) [OF sizes reach] assms(8) by (simp_all add: hyper_inv_def worker_def client_env_def user_env_def)
  have find: "on_find_service B' ''ProfileService'' = Some (ProfileServiceImpl H)"
    using server_finds [OF assms(3)] by (simp add: server_env_def user_env_def)
  have stub: "stub_method H ProfileService ''GetProfile'' = Some ?m"
    by (rule GetProfile_stub [OF assms(6)])
  obtain rid pkt t' rpkt s' where trip: "sent (CallMethod ?C ?m q r (User (q, r)) ?core) = sent ?core @ [(pkt, addr, rid)]"
    "trace (CallMethod ?C ?m q r (User (q, r)) ?core) = trace ?core @ [EvAdd (User (q, r)) (Suc 0), EvSend ?m q rid addr]"
    "OnRecvPacket ?C' pkt caddr ?t = (0, t')" "sent t' = sent ?t @ [(rpkt, caddr, 0)]"
    "served t' = served ?t @ [(?m, next_msg ?t, next_msg ?t + 1, next_context ?t)]"
    "OnRecvPacket ?C rpkt addr (CallMethod ?C ?m q r (User (q, r)) ?core) = (0, s')"
    "msgs s' r = ProfileResponse 123 ''hrpcuser'' 25"
    "trace s' = trace ?core @ [EvAdd (User (q, r)) (Suc 0), EvSend ?m q rid addr, EvDone (User (q, r)) kSuccess]"
    by (rule profile_round_trip [OF assms(5-7) _ init(2) _ _ c'(2) find, of ?core i q r addr "User (q, r)" caddr])
      (use assms(11,12,15) c(2) in \<open>simp_all add: core_inv_def\<close>)
  let ?p1 = "client_loop ?C H True expired (Some 0) q r p"
  let ?p2 = "library_did (run_task ?C 0 (client_rpc ?p1)) ?p1"
  let ?q = "p\<lparr>call_count := call_count p + 1\<rparr>"
  have loop: "?p1 = CallProfileService ?C H (Some 0) q r ?q" by (simp add: client_loop_def)
  have "\<exists>s1 s2. CallProfileService ?C H (Some 0) q r ?q = ?q\<lparr>client_rpc := s1, live := insert q (insert r (live ?q))\<rparr> \<and>
      library_did (run_task ?C 0 s1) (CallProfileService ?C H (Some 0) q r ?q) =
        ?q\<lparr>client_rpc := s2, live := insert q (insert r (live ?q))\<rparr> \<and>
      rpc_core_vec s2 = ?vec[0 := CallMethod ?C ?m q r (User (q, r)) ?core] \<and> core_env_of ?C s2 = ?C \<and>
      outer_trace s2 = outer_trace (client_rpc p) \<and> worker s1 = worker (client_rpc p) \<and> s2 = run_task ?C 0 s1 \<and>
      queues s2 = (queues (client_rpc p))[0 := []]"
  proof (rule client_calls [OF assms(8) init(1) assms(10) _ stub c(1)])
    show "0 < length (queues (client_rpc p))" using assms(8) c(3) by (simp add: worker_def)
    show "trace (CallMethod ?C ?m q r (User (q, r)) ?core) =
      trace ?core @ [EvAdd (User (q, r)) (Suc 0), EvSend ?m q rid addr]" by (rule trip(2))
  qed (simp_all add: done_events_def map_filter_simps)
  then obtain s1 s2 where s1: "client_rpc ?p1 = s1"
    and s2: "library_did (run_task ?C 0 s1) ?p1 = ?q\<lparr>client_rpc := s2, live := insert q (insert r (live ?q))\<rparr>"
      "rpc_core_vec s2 = ?vec[0 := CallMethod ?C ?m q r (User (q, r)) ?core]" "core_env_of ?C s2 = ?C"
    unfolding loop by auto
  then have p2: "?p2 = p\<lparr>call_count := call_count p + 1, client_rpc := s2, live := insert q (insert r (live p))\<rparr>"
    "rpc_core_vec s2 = ?vec[0 := CallMethod ?C ?m q r (User (q, r)) ?core]" "core_env_of ?C s2 = ?C" by simp_all
  from assms(8) p2(2) have core2: "rpc_core_vec s2 ! 0 = CallMethod ?C ?m q r (User (q, r)) ?core" "worker s2 0"
    by (simp_all add: worker_def)
  let ?p3 = "library_did (Impl_OnRecvPacket ?C 0 acc' rpkt addr (client_rpc ?p2)) ?p2"
  have p3: "?p3 = p\<lparr>call_count := call_count p + 1, client_rpc := set_core 0 s' s2\<rparr>"
    using client_answered [of ?C ?p2 rpkt addr s' q r "live p" acc'] p2 core2 trip(2,6,8) assms(13-15) by simp
  have P': "server_did (Impl_OnRecvPacket ?C' 0 acc pkt caddr (server_rpc P)) P =
      P\<lparr>server_rpc := set_core 0 t' (server_rpc P), server_calls := server_calls P + 1\<rparr>"
    by (rule server_serves [OF c'(1) assms(9) trip(3,5)])
  show ?thesis
    unfolding Let_def
    by (rule exI [of _ pkt], rule exI [of _ rid], rule exI [of _ rpkt], unfold p3 P')
      (use p2(1) core2 trip(1,4,7) assms(9) in \<open>simp add: set_core_def worker_def\<close>)
qed

lemma started_idle:
  assumes "started C HU opt own0 s" "worker s w"
  shows "queues s ! w = []" "0 < length (sess_pool (rpc_core_vec s ! w))"
    "rpc_id (sess_pool (rpc_core_vec s ! w) ! 0) = 0"
    "i < length (sess_pool (rpc_core_vec s ! w)) \<Longrightarrow> rpc_id (sess_pool (rpc_core_vec s ! w) ! i) = 0"
proof -
  show "queues s ! w = []" using started_core(1) [OF assms(1)] assms(2) by (simp add: worker_def)
  from started_core(4) [OF assms] obtain garbage rand c0 where c: "blank_core c0" "rand < 2 ^ 32" "w < 2 ^ 16 - 1"
    "CalcSessionPoolSize HU opt \<le> 2 ^ 48" "core_Init HU opt garbage own0 rand w c0 = Some (rpc_core_vec s ! w)" by blast
  note init = core_Init_inv [OF c(1,4,3,2) c(5) [unfolded core_Init_def]]
  have "mgr_inv w (rpc_core_vec s ! w)" using init(1) by (simp add: core_inv_def)
  then show "0 < length (sess_pool (rpc_core_vec s ! w))" by (auto dest: mgr_invD(1) simp: geometry_ok_def)
  with init(3) show "rpc_id (sess_pool (rpc_core_vec s ! w) ! 0) = 0" by simp
  from init(3) show "i < length (sess_pool (rpc_core_vec s ! w)) \<Longrightarrow> rpc_id (sess_pool (rpc_core_vec s ! w) ! i) = 0" by simp
qed

lemma demo_carries_profile: "carries_profile (profile_demo n svcs) (profile_demo k svcs')"
proof -
  have env: "pb (profile_demo n svcs) = one_method_pb GetProfile_method encode"
    "ParseFromArray (sess_env (profile_demo n svcs)) = decode" for n svcs by (simp_all add: profile_demo_def)
  have "length (encode (ProfileRequest 123)) < 2 ^ 32" "length (encode (ProfileResponse 123 ''hrpcuser'' 25)) < 2 ^ 32"
    by (simp_all add: length_id_bytes)
  note facts = decode_encode [unfolded default_of.simps] one_method_carries(1) [where encode = encode, OF this(1)]
    one_method_carries(2) [where encode = encode, OF this(2)]
  show ?thesis
    unfolding carries_profile_def env by (intro conjI exI allI) (rule refl facts)+
qed

theorem profile_call_completes_witness:
  "\<exists>p P pkt rpkt. client_reachable demo_client_env profile_helpers demo_hudp demo_client_options p \<and>
     server_reachable demo_server_env profile_helpers demo_hudp demo_server_options P \<and>
     (let p1 = client_loop demo_client_env profile_helpers True False (Some 0) 1 2 p;
          p2 = library_did (run_task demo_client_env 0 (client_rpc p1)) p1;
          P' = server_did (Impl_OnRecvPacket demo_server_env 0 True pkt (5, 5) (server_rpc P)) P;
          p3 = library_did (Impl_OnRecvPacket demo_client_env 0 True rpkt (1, 1) (client_rpc p2)) p2
      in msgs (rpc_core_vec (client_rpc p3) ! 0) 2 = ProfileResponse 123 ''hrpcuser'' 25 \<and>
         server_calls P' = 1 \<and> call_count p3 = 1 \<and> fail_count p3 = 0 \<and> live p3 = {})"
proof -
  obtain p where p: "client_reachable demo_client_env profile_helpers demo_hudp demo_client_options p"
    "started demo_client_env demo_hudp demo_client_options False (client_rpc p)"
    "live p = {}" "call_count p = 0" "\<not> reporting p" "fail_count p = 0" by (rule demo_client)
  obtain P where P: "server_reachable demo_server_env profile_helpers demo_hudp demo_server_options P"
    "server_calls P = 0" by (rule demo_server)
  have sizes: "sizes_agree (pb (profile_demo n svcs))" for n svcs by (simp add: profile_demo_def)
  have w: "worker (client_rpc p) 0"
    using client_facts(1) [OF sizes started_reachable [OF p(2)]]
    by (simp add: hyper_inv_def worker_def client_env_def user_env_def profile_demo_def)
  have "hyper_reachable demo_server_env demo_hudp demo_server_options (server_rpc P)"
    using server_reachable_books [OF P(1) sizes] by simp
  from server_facts(1) [OF sizes this] have w': "worker (server_rpc P) 0"
    by (simp add: hyper_inv_def worker_def server_env_def user_env_def profile_demo_def)
  note idle = started_idle [OF p(2) w]
  from profile_call_completes [OF p(1,5) P(1) sizes demo_carries_profile profile_helpers_ok w w' idle(1-3), of 1 2 False True "(5, 5)" True]
  obtain pkt rpkt where "let p1 = client_loop demo_client_env profile_helpers True False (Some 0) 1 2 p;
          p2 = library_did (run_task demo_client_env 0 (client_rpc p1)) p1;
          P' = server_did (Impl_OnRecvPacket demo_server_env 0 True pkt (5, 5) (server_rpc P)) P;
          p3 = library_did (Impl_OnRecvPacket demo_client_env 0 True rpkt (1, 1) (client_rpc p2)) p2
      in msgs (rpc_core_vec (client_rpc p3) ! 0) 2 = ProfileResponse 123 ''hrpcuser'' 25 \<and>
         server_calls P' = 1 \<and> call_count p3 = 1 \<and> fail_count p3 = 0 \<and> live p3 = {}"
    unfolding Let_def p(3,4,6) P(2) by auto
  with p(1) P(1) show ?thesis by blast
qed

end
