(* ===== verification/SessionTimers.thy ===== *)
theory SessionTimers
  imports SessionRuns
begin

text \<open>
  The timers of the session table. \<open>AddSession\<close> arms a timer for the node it fills and the
  code relies on it: a session whose requests and responses are all lost is answered by its
  timer alone. The timer wheel is \<^verbatim>\<open>ccbase\<close>'s; its documented behaviour is \<open>wheel_laws\<close>.
  The contract \<open>timed_callbacks\<close> says that callbacks keep every occupied node armed, and
  every operation is shown to do so.
\<close>

section \<open>The timer wheel\<close>

text \<open>\<open>arm tw own i\<close>: in the wheel \<open>tw\<close> a timer of the owner \<open>own\<close> is running that will call
  back for node \<open>i\<close>. \<open>bnd own i\<close>: the timer the owner has calls back for node \<open>i\<close>. An operation
  on the timer of node \<open>i\<close> leaves the other timers running.\<close>

definition others_run :: "('tw \<Rightarrow> 'own \<Rightarrow> nat \<Rightarrow> bool) \<Rightarrow> nat \<Rightarrow> 'tw \<Rightarrow> 'tw \<Rightarrow> bool" where
  "others_run arm i tw tw' \<longleftrightarrow> (\<forall>own j. j \<noteq> i \<longrightarrow> arm tw own j \<longrightarrow> arm tw' own j)"

definition wheel_laws ::
  "('own, 'tw, 'msg, 'd, 's) SessionEnv \<Rightarrow> ('tw \<Rightarrow> 'own \<Rightarrow> nat \<Rightarrow> bool) \<Rightarrow>
   ('own \<Rightarrow> nat \<Rightarrow> bool) \<Rightarrow> bool" where
  "wheel_laws B arm bnd \<longleftrightarrow>
     (\<forall>tw ms i own. (case AddTimer B tw ms i own of (tw', own') \<Rightarrow>
        arm tw' own' i \<and> bnd own' i \<and> others_run arm i tw tw')) \<and>
     (\<forall>tw ms i own. bnd own i \<longrightarrow> (case ResetTimer B tw own ms of (tw', own') \<Rightarrow>
        arm tw' own' i \<and> bnd own' i \<and> others_run arm i tw tw')) \<and>
     (\<forall>tw i own. (has_timer B own \<longrightarrow> bnd own i) \<longrightarrow> (case CancelTimer B tw own of (tw', own') \<Rightarrow>
        (has_timer B own' \<longrightarrow> bnd own' i) \<and> others_run arm i tw tw'))"

lemma wheel_lawsD:
  assumes "wheel_laws B arm bnd"
  shows "AddTimer B tw ms i own = (tw', own') \<Longrightarrow>
      arm tw' own' i \<and> bnd own' i \<and> others_run arm i tw tw'"
    "bnd own i \<Longrightarrow> ResetTimer B tw own ms = (tw', own') \<Longrightarrow>
      arm tw' own' i \<and> bnd own' i \<and> others_run arm i tw tw'"
    "(has_timer B own \<Longrightarrow> bnd own i) \<Longrightarrow> CancelTimer B tw own = (tw', own') \<Longrightarrow>
      (has_timer B own' \<longrightarrow> bnd own' i) \<and> others_run arm i tw tw'"
proof -
  note laws = assms [unfolded wheel_laws_def]
  from laws [THEN conjunct1, rule_format, where tw = tw and ms = ms and i = i and own = own]
  show "AddTimer B tw ms i own = (tw', own') \<Longrightarrow>
      arm tw' own' i \<and> bnd own' i \<and> others_run arm i tw tw'" by simp
  from laws [THEN conjunct2, THEN conjunct1, rule_format, where tw = tw and ms = ms and i = i and own = own]
  show "bnd own i \<Longrightarrow> ResetTimer B tw own ms = (tw', own') \<Longrightarrow>
      arm tw' own' i \<and> bnd own' i \<and> others_run arm i tw tw'" by simp
  from laws [THEN conjunct2, THEN conjunct2, rule_format, where tw = tw and i = i and own = own]
  show "(has_timer B own \<Longrightarrow> bnd own i) \<Longrightarrow> CancelTimer B tw own = (tw', own') \<Longrightarrow>
      (has_timer B own' \<longrightarrow> bnd own' i) \<and> others_run arm i tw tw'" by simp
qed

text \<open>Every timer is bound to its own node, and every occupied node outside \<open>F\<close> is armed; \<open>F\<close>
  are the nodes whose timer has fired and whose closure is being called.\<close>

definition node_timed ::
  "('own, 'tw, 'msg, 'd, 's) SessionEnv \<Rightarrow> ('tw \<Rightarrow> 'own \<Rightarrow> nat \<Rightarrow> bool) \<Rightarrow>
   ('own \<Rightarrow> nat \<Rightarrow> bool) \<Rightarrow> nat set \<Rightarrow> 'tw \<Rightarrow> nat \<Rightarrow> ('own, 'd) SessionNode \<Rightarrow> bool" where
  "node_timed B arm bnd F tw i n \<longleftrightarrow>
     (has_timer B (timer_owner n) \<longrightarrow> bnd (timer_owner n) i) \<and>
     (rpc_id n \<noteq> 0 \<longrightarrow> i \<notin> F \<longrightarrow> arm tw (timer_owner n) i)"

definition timed ::
  "('own, 'tw, 'msg, 'd, 's) SessionEnv \<Rightarrow> ('tw \<Rightarrow> 'own \<Rightarrow> nat \<Rightarrow> bool) \<Rightarrow>
   ('own \<Rightarrow> nat \<Rightarrow> bool) \<Rightarrow> nat set \<Rightarrow> ('own, 'tw, 'msg, 'd, 'z) mgr \<Rightarrow> bool" where
  "timed B arm bnd F s \<longleftrightarrow>
     (\<forall>i<length (sess_pool s). node_timed B arm bnd F (timerw s) i (sess_pool s ! i))"

lemma timed_fields [simp]:
  "timed B arm bnd F (s\<lparr>trace := t\<rparr>) = timed B arm bnd F s"
  "timed B arm bnd F (s\<lparr>msgs := m\<rparr>) = timed B arm bnd F s"
  "timed B arm bnd F (s\<lparr>next_rpc_id := x\<rparr>) = timed B arm bnd F s"
  by (simp_all add: timed_def)

lemma timed_node:
  "timed B arm bnd F s \<Longrightarrow> i < length (sess_pool s) \<Longrightarrow>
   node_timed B arm bnd F (timerw s) i (sess_pool s ! i)"
  by (simp add: timed_def)

lemma node_timed_other:
  "node_timed B arm bnd F tw j n \<Longrightarrow> others_run arm i tw tw' \<Longrightarrow> F \<subseteq> insert i F' \<Longrightarrow> j \<noteq> i \<Longrightarrow>
   node_timed B arm bnd F' tw' j n"
  by (auto simp: node_timed_def others_run_def)

lemma others_run_refl [simp]: "others_run arm i tw tw"
  by (simp add: others_run_def)

lemma timed_update:
  assumes "timed B arm bnd F s" and "others_run arm i (timerw s) tw" and "F \<subseteq> insert i F'"
    and "i < length (sess_pool s) \<Longrightarrow> node_timed B arm bnd F' tw i n"
  shows "timed B arm bnd F' (s\<lparr>timerw := tw, sess_pool := (sess_pool s)[i := n]\<rparr>)"
proof -
  have "node_timed B arm bnd F' tw j ((sess_pool s)[i := n] ! j)" if "j < length (sess_pool s)" for j
    using assms(4) that node_timed_other [OF timed_node [OF assms(1) that] assms(2,3)]
    by (cases "j = i") simp_all
  then show ?thesis by (simp add: timed_def)
qed

lemma timed_update_node:
  assumes "timed B arm bnd F s" and "F \<subseteq> insert i F'"
    and "i < length (sess_pool s) \<Longrightarrow> node_timed B arm bnd F' (timerw s) i n"
  shows "timed B arm bnd F' (s\<lparr>sess_pool := (sess_pool s)[i := n]\<rparr>)"
  using timed_update [OF assms(1) others_run_refl assms(2,3)] by simp

definition steady ::
  "('own, 'tw, 'msg, 'd, 's) SessionEnv \<Rightarrow> ('tw \<Rightarrow> 'own \<Rightarrow> nat \<Rightarrow> bool) \<Rightarrow>
   ('own \<Rightarrow> nat \<Rightarrow> bool) \<Rightarrow> nat \<Rightarrow> ('own, 'tw, 'msg, 'd, 'z) mgr \<Rightarrow>
   ('own, 'tw, 'msg, 'd, 'z) mgr \<Rightarrow> bool" where
  "steady B arm bnd core s s' \<longleftrightarrow>
     (wheel_laws B arm bnd \<longrightarrow> mgr_inv core s \<longrightarrow>
        (\<forall>F. timed B arm bnd F s \<longrightarrow> timed B arm bnd F s'))"

lemma steady_refl [simp]: "steady B arm bnd core s s"
  by (simp add: steady_def)

lemma steady_trans:
  "keeps core s s' \<Longrightarrow> steady B arm bnd core s s' \<Longrightarrow> steady B arm bnd core s' s'' \<Longrightarrow>
   steady B arm bnd core s s''"
  by (auto simp: steady_def keeps_def)

text \<open>The environments of a family share their wheel.\<close>

definition same_wheel ::
  "('own, 'tw, 'msg, 'd, 's) SessionEnv \<Rightarrow> ('own, 'tw, 'msg, 'd, 's) SessionEnv \<Rightarrow> bool" where
  "same_wheel E B \<longleftrightarrow> has_timer E = has_timer B \<and> AddTimer E = AddTimer B \<and>
     ResetTimer E = ResetTimer B \<and> CancelTimer E = CancelTimer B"

section \<open>The contract\<close>

locale timed_callbacks = session_callbacks E core
  for E :: "('own, 'tw, 'msg, 'd, 'z) mgr_env" and core :: nat +
  fixes B :: "('own, 'tw, 'msg, 'd, 'z) mgr_env"
    and arm :: "'tw \<Rightarrow> 'own \<Rightarrow> nat \<Rightarrow> bool" and bnd :: "'own \<Rightarrow> nat \<Rightarrow> bool"
  assumes wheel: "same_wheel E B"
    and done_steady: "steady B arm bnd core s (run_done E d r s)"
    and send_steady: "steady B arm bnd core s (on_send_request E m rq rid a s)"
begin

lemma invoke_timed:
  assumes "wheel_laws B arm bnd" "mgr_inv core s" "timed B arm bnd F s"
  shows "timed B arm bnd F (invoke_done E d r s)"
  using done_steady [of "s\<lparr>trace := trace s @ [EvDone d r]\<rparr>" d r] assms
  by (simp add: steady_def invoke_done_def)

lemma send_timed:
  assumes "wheel_laws B arm bnd" "mgr_inv core s" "timed B arm bnd F s"
  shows "timed B arm bnd F (on_send_request E m rq rid a
    (s\<lparr>trace := trace s @ [EvSend m rq rid a]\<rparr>))"
  using send_steady [of "s\<lparr>trace := trace s @ [EvSend m rq rid a]\<rparr>"] assms
  by (simp add: steady_def)

lemma armed_laws:
  assumes "wheel_laws B arm bnd" "timed B arm bnd F s" "i < length (sess_pool s)"
    and "armed E i s = (tw, own)"
  shows "arm tw own i" "bnd own i" "others_run arm i (timerw s) tw"
proof -
  have "arm tw own i \<and> bnd own i \<and> others_run arm i (timerw s) tw"
    using assms(4) wheel timed_node [OF assms(2,3)] wheel_lawsD(1,2) [OF assms(1)]
    by (auto simp: armed_def Let_def same_wheel_def node_timed_def split: if_splits)
  then show "arm tw own i" "bnd own i" "others_run arm i (timerw s) tw" by auto
qed

text \<open>A new session is armed.\<close>

lemma AddSession_timed:
  assumes laws: "wheel_laws B arm bnd" and inv: "mgr_inv core s" and timed: "timed B arm bnd F s"
    and eps: "el_wf eps" "0 < el_size eps"
  shows "timed B arm bnd F (snd (AddSession E m rq rp eps d s))"
proof (cases "el_size eps > 65536")
  case True
  with timed show ?thesis by (simp add: AddSession_def)
next
  case small: False
  define t where "t = s\<lparr>trace := trace s @ [EvAdd d (el_size eps)]\<rparr>"
  have t: "mgr_inv core t" "timed B arm bnd F t" using inv timed by (simp_all add: t_def)
  from t(1) show ?thesis
  proof (cases rule: AllocSessionNode_cases)
    case (full rid)
    have "mgr_inv core (t\<lparr>next_rpc_id := rid\<rparr>)"
      using t(1) full(2) by (simp add: mgr_inv_def geometry_ok_def)
    with t(2) show ?thesis
      using AddSession_full [OF t_def full(1)] small
        invoke_timed [OF laws, of "t\<lparr>next_rpc_id := rid\<rparr>" F d kInError] by simp
  next
    case (found i rid)
    obtain l where l: "EndpointList_copy eps = Some l" "el_wf l" "el_size l = el_size eps"
      using eps(1) by (rule EndpointList_copy_wf)
    let ?w = "with_session E m rq rp l d i rid t"
    obtain tw own where ar: "armed E i t = (tw, own)" by force
    let ?n = "filled m rq rp l d rid own (sess_pool t ! i)"
    note ok = armed_laws [OF laws t(2) found(2) ar]
    have w: "?w = (t\<lparr>next_rpc_id := rid\<rparr>)\<lparr>timerw := tw, sess_pool := (sess_pool t)[i := ?n]\<rparr>"
      by (simp add: with_session_def ar)
    have tw: "timed B arm bnd F ?w"
      using timed_update [of B arm bnd F "t\<lparr>next_rpc_id := rid\<rparr>" i tw F ?n] t(2) ok
      by (simp add: w filled_def node_timed_def subset_insertI)
    have "node_ok core (pool_size_order t) i ?n"
      using found l by (simp add: node_ok_def filled_def)
    moreover have "mgr_inv core (t\<lparr>next_rpc_id := rid, timerw := tw\<rparr>)"
      using t(1) found(4) by (simp add: mgr_inv_def geometry_ok_def)
    ultimately have "mgr_inv core ?w"
      using mgr_inv_update [of core "t\<lparr>next_rpc_id := rid, timerw := tw\<rparr>" i ?n] found(2)
      by (simp add: w)
    from send_timed [OF laws this tw] show ?thesis
      using AddSession_found [OF t_def found(1,2) l(1,2)] small eps(2) l(3) by (simp add: Let_def)
  qed
qed

text \<open>Answering a session leaves the timers of the others running.\<close>

lemma finish_timed:
  assumes laws: "wheel_laws B arm bnd" and inv: "mgr_inv core s"
    and i: "i < length (sess_pool s)" "rpc_id (sess_pool s ! i) \<noteq> 0"
    and timed: "timed B arm bnd F s"
  shows "timed B arm bnd F (FreeSessionNode i (node_cancel_timer E i (node_call_done E i r s)))"
    and "F = insert i F' \<Longrightarrow> timed B arm bnd F' (FreeSessionNode i (node_call_done E i r s))"
proof -
  from mgr_invD(4) [OF inv i] obtain d where d: "node_done (sess_pool s ! i) = Some d"
    by (auto simp: node_ok_def)
  note an = answer_keeps [OF inv i d, where r = r]
  define u where "u = invoke_done E d r s"
  have u: "timed B arm bnd F u" "i < length (sess_pool u)"
    using invoke_timed [OF laws inv timed] an(2) i(1) by (simp_all add: u_def)
  have own: "has_timer B (timer_owner (sess_pool u ! i)) \<Longrightarrow> bnd (timer_owner (sess_pool u ! i)) i"
    using timed_node [OF u] by (simp add: node_timed_def)
  obtain tw own' where c: "cancelled E i u = (tw, own')" by force
  have law: "(has_timer B own' \<longrightarrow> bnd own' i) \<and> others_run arm i (timerw u) tw"
    using wheel c by (intro wheel_lawsD(3) [OF laws own]) (simp_all add: cancelled_def same_wheel_def)
  show "timed B arm bnd F (FreeSessionNode i (node_cancel_timer E i (node_call_done E i r s)))"
    unfolding an(4) u_def [symmetric] cancel_free_in [OF u(2)] c fst_conv snd_conv
    by (rule timed_update [OF u(1)]) (use law in \<open>auto simp: freed_def node_timed_def\<close>)
  show "timed B arm bnd F' (FreeSessionNode i (node_call_done E i r s))" if "F = insert i F'"
    unfolding an(4) u_def [symmetric] free_in [OF u(2)]
    by (rule timed_update_node [OF u(1)]) (use that own in \<open>auto simp: freed_def node_timed_def\<close>)
qed

lemma OnSendRequestFailed_timed:
  assumes laws: "wheel_laws B arm bnd" and inv: "mgr_inv core s" and rid: "rid \<noteq> 0"
    and timed: "timed B arm bnd F s"
  shows "timed B arm bnd F (OnSendRequestFailed E rid s)"
proof -
  let ?i = "slot_of s rid"
  note geo = mgr_invD(1) [OF inv]
  note i = slot_in_pool [OF geo, of rid]
  let ?n = "sess_pool s ! ?i"
  show ?thesis
  proof (cases "rpc_id ?n = rid")
    case False
    with timed show ?thesis by (simp add: OnSendRequestFailed_def FindSessionNode_eq [OF geo])
  next
    case True
    with rid have live: "rpc_id ?n \<noteq> 0" by simp
    note ok = mgr_invD(4) [OF inv i live]
    let ?k = "endpoint_index ?n + 1"
    let ?m = "?n\<lparr>endpoint_index := ?k\<rparr>"
    let ?s2 = "s\<lparr>sess_pool := (sess_pool s)[?i := ?m]\<rparr>"
    have up: "update_node ?i (\<lambda>n. n\<lparr>endpoint_index := ?k\<rparr>) s = ?s2"
      using i by (simp add: update_node_in)
    have inv2: "mgr_inv core ?s2" using inv i ok by (intro mgr_inv_update) (auto simp: node_ok_def)
    have timed2: "timed B arm bnd F ?s2"
      by (rule timed_update_node [OF timed])
        (use timed_node [OF timed i] live in \<open>auto simp: node_timed_def\<close>)
    show ?thesis
    proof (cases "unat ?k < el_size (endpoint_list ?n)")
      case more: True
      from ok have "el_wf (endpoint_list ?n)" by (simp add: node_ok_def)
      with more i have "timed B arm bnd F (node_send E ?i (unat ?k) ?s2)"
        using send_timed [OF laws inv2 timed2]
        by (subst node_send_in [of ?i ?s2 ?m]) (simp_all add: Let_def)
      with True more up show ?thesis
        by (simp add: OnSendRequestFailed_def FindSessionNode_eq [OF geo] Let_def)
    next
      case False
      with True up show ?thesis
        using finish_timed(1) [OF laws inv2 _ _ timed2, of ?i kTimeout] i live
        by (simp add: OnSendRequestFailed_def FindSessionNode_eq [OF geo] Let_def)
    qed
  qed
qed

lemma OnRecvResponse_timed:
  assumes laws: "wheel_laws B arm bnd" and inv: "mgr_inv core s" and rid: "rid \<noteq> 0"
    and timed: "timed B arm bnd F s"
  shows "timed B arm bnd F (OnRecvResponse E svc mth rid r body s)"
proof -
  let ?i = "slot_of s rid"
  note geo = mgr_invD(1) [OF inv]
  note i = slot_in_pool [OF geo, of rid]
  let ?n = "sess_pool s ! ?i"
  obtain ok m where p: "ParseFromArray E (msgs s (node_response ?n)) body = (ok, m)" by force
  let ?s2 = "s\<lparr>msgs := (msgs s)(node_response ?n := m)\<rparr>"
  have "timed B arm bnd F
      (FreeSessionNode ?i (node_cancel_timer E ?i (node_call_done E ?i r ?s2)))"
    if "rpc_id ?n = rid"
    using finish_timed(1) [OF laws, of ?s2 ?i F r] inv timed i that rid by simp
  then show ?thesis
    using p timed by (simp add: OnRecvResponse_def FindSessionNode_eq [OF geo] Let_def)
qed

text \<open>A timer that fires: its node is not armed any more, the others are.\<close>

lemma OnSessionTimeout_timed:
  assumes laws: "wheel_laws B arm bnd" and inv: "mgr_inv core s" and i: "i < length (sess_pool s)"
    and timed: "timed B arm bnd (insert i F) s"
  shows "timed B arm bnd F (OnSessionTimeout E i s)"
proof (cases "rpc_id (sess_pool s ! i) = 0")
  case True
  with i timed show ?thesis by (auto simp: OnSessionTimeout_def node_at_def timed_def node_timed_def)
next
  case False
  with i show ?thesis
    using finish_timed(2) [OF laws inv i False timed] by (simp add: OnSessionTimeout_def node_at_def)
qed

end

section \<open>User closures that call again\<close>

context timed_callbacks
begin

lemma issue_call_steady: "steady B arm bnd core s (issue_call E c s)"
proof -
  from el.build [of "uc_endpoints c"] obtain eps
    where "mfold PushBack EndpointList_init (uc_endpoints c) = Some eps" "el_wf eps" by blast
  then show ?thesis
    using AddSession_timed [of s _ eps] by (simp add: steady_def issue_call_def el_empty_def)
qed

lemma issue_calls_steady: "steady B arm bnd core s (fold (issue_call E) cs s)"
proof (induction cs arbitrary: s)
  case (Cons c cs)
  show ?case
  proof (cases "mgr_inv core s")
    case True
    with steady_trans [OF issue_call_keeps issue_call_steady Cons.IH] show ?thesis by simp
  qed (simp add: steady_def)
qed simp

end

lemma nested_timed_callbacks: "timed_callbacks (nested_env B calls n) core B arm bnd"
proof (induction n)
  case 0
  show ?case by unfold_locales (simp_all add: quiet_def same_wheel_def)
next
  case (Suc n)
  show ?case
    by unfold_locales
      (simp_all add: same_wheel_def timed_callbacks.issue_calls_steady [OF Suc])
qed

interpretation nested_timed: timed_callbacks "nested_env B calls n" core B arm bnd
  for B calls n core arm bnd
  by (rule nested_timed_callbacks)

end
