(* ===== verification/CoreTimers.thy ===== *)
theory CoreTimers
  imports CoreRuns SessionTimers
begin

text \<open>
  A worker under a timer wheel. Every operation keeps each pending session armed, user code that
  calls back included; so in a run in which time passes, every closure handed to the worker is
  called, whatever the network loses.
\<close>

section \<open>The contract of a worker's callbacks\<close>

definition calm ::
  "('own, 'tw, 'msg, 'd, ('own, 'tw, 'msg, 'd, 'z) core) SessionEnv \<Rightarrow>
   ('tw \<Rightarrow> 'own \<Rightarrow> nat \<Rightarrow> bool) \<Rightarrow> ('own \<Rightarrow> nat \<Rightarrow> bool) \<Rightarrow> nat \<Rightarrow>
   ('own, 'tw, 'msg, 'd, 'z) core \<Rightarrow> ('own, 'tw, 'msg, 'd, 'z) core \<Rightarrow> bool" where
  "calm W arm bnd core s s' \<longleftrightarrow> harmless core s s' \<and> steady W arm bnd core s s'"

lemma calm_refl [simp]: "calm W arm bnd core s s"
  by (simp add: calm_def)

lemma calm_trans: "calm W arm bnd core s s' \<Longrightarrow> calm W arm bnd core s' s'' \<Longrightarrow> calm W arm bnd core s s''"
  unfolding calm_def harmless_def steady_def
  by (meson keeps_def keeps_trans prefix_order.trans)

text \<open>The invariant between two events: the worker's own and every pending session armed.\<close>

definition timed_inv ::
  "('own, 'tw, 'msg, 'd, ('own, 'tw, 'msg, 'd, 'z) core) SessionEnv \<Rightarrow>
   ('tw \<Rightarrow> 'own \<Rightarrow> nat \<Rightarrow> bool) \<Rightarrow> ('own \<Rightarrow> nat \<Rightarrow> bool) \<Rightarrow> nat \<Rightarrow>
   ('own, 'tw, 'msg, 'd, 'z) core \<Rightarrow> bool" where
  "timed_inv W arm bnd core s \<longleftrightarrow> core_inv core s \<and> timed W arm bnd {} s"

lemma steady_same_timers:
  "sess_pool s' = sess_pool s \<Longrightarrow> timerw s' = timerw s \<Longrightarrow> steady W arm bnd core s s'"
  by (simp add: steady_def timed_def)

locale timed_core = core_callbacks C core
  for C :: "('own, 'tw, 'msg, 'd, 'svc, 'sd, 'z) core_env" and core :: nat +
  fixes W :: "('own, 'tw, 'msg, 'd, ('own, 'tw, 'msg, 'd, 'z) core) SessionEnv"
    and arm :: "'tw \<Rightarrow> 'own \<Rightarrow> nat \<Rightarrow> bool" and bnd :: "'own \<Rightarrow> nat \<Rightarrow> bool"
  assumes wheel: "same_wheel (sess_env C) W"
    and done_steady: "steady W arm bnd core s (run_done (sess_env C) d r s)"
    and packet_steady: "steady W arm bnd core s (on_send_packet C pkt a ctx s)"
    and service_steady: "steady W arm bnd core s (Service_CallMethod C svc m rq rp c s)"
    and routing_steady: "on_service_routing C = Some f \<Longrightarrow> f sv mt msg s = (ok, addrs, s') \<Longrightarrow>
      steady W arm bnd core s s'"
begin

lemma callbacks_calm:
  "calm W arm bnd core s (run_done (sess_env C) d r s)"
  "calm W arm bnd core s (on_send_packet C pkt a ctx s)"
  "calm W arm bnd core s (Service_CallMethod C svc m rq rp c s)"
  using done_harmless send_harmless service_harmless done_steady packet_steady service_steady
  by (simp_all add: calm_def)

lemma SendMessage_calm: "calm W arm bnd core s (SendMessage C h body a ctx s)"
proof -
  obtain pkt where pkt: "build_packet (pb C) (stack_garbage C) h body = Some pkt"
    using pb_sizes by (rule build_packet_total)
  have "calm W arm bnd core s (s\<lparr>sent := sent s @ [(pkt, a, ctx)]\<rparr>)"
    by (simp add: calm_def harmless_def keeps_same_table steady_same_timers)
  with pkt show ?thesis using callbacks_calm(2) calm_trans by (simp add: SendMessage_def) blast
qed

lemma OnOutgoingRpcSend_calm: "calm W arm bnd core s (OnOutgoingRpcSend C m rq rid a s)"
  by (simp add: OnOutgoingRpcSend_def SendMessage_calm)

end

sublocale timed_core \<subseteq> timed: timed_callbacks "mgr_env_of C" core W arm bnd
  by unfold_locales
    (use wheel done_steady OnOutgoingRpcSend_calm in
      \<open>auto simp: mgr_env_of_def same_wheel_def calm_def\<close>)

context timed_core
begin

lemma AddSession_calm:
  assumes "el_wf eps" "0 < el_size eps"
  shows "calm W arm bnd core s (snd (AddSession (mgr_env_of C) m rq rp eps d s))"
  using AddSession_harmless [OF assms] timed.AddSession_timed [OF _ _ _ assms]
  by (simp add: calm_def steady_def)

lemma refuse_calm:
  "calm W arm bnd core s (invoke_done (mgr_env_of C) d kNoRoute (s\<lparr>trace := trace s @ [EvAdd d 0]\<rparr>))"
  using refuse_harmless timed.invoke_timed [of "s\<lparr>trace := trace s @ [EvAdd d 0]\<rparr>"]
  by (simp add: calm_def steady_def)

lemma resolve_endpoints_calm:
  assumes "resolve_endpoints C m rq s = (x, s1)"
  shows "calm W arm bnd core s s1"
proof -
  have "steady W arm bnd core s s1"
  proof (cases "on_service_routing C")
    case None
    with assms show ?thesis by (simp add: resolve_endpoints_def)
  next
    case (Some f)
    obtain ok addrs t where f: "f (service_name m) (method_name m) (msgs s rq) s = (ok, addrs, t)"
      by (metis prod_cases3)
    with routing_steady [OF Some f] Some assms show ?thesis
      by (auto simp: resolve_endpoints_def raise_core_fault_def steady_def timed_def
          split: option.splits)
  qed
  moreover have "harmless core s s1"
    using assms by (cases rule: resolve_endpoints_cases [of m rq s]) auto
  ultimately show ?thesis by (simp add: calm_def)
qed

lemma CallMethod_calm: "calm W arm bnd core s (CallMethod C m rq rp d s)"
  by (rule resolve_endpoints_cases [of m rq s])
    (auto simp: CallMethod_def dest: resolve_endpoints_calm
      intro: calm_trans refuse_calm AddSession_calm)

lemma OnIncomingRpcDone_calm:
  assumes "\<exists>ctx. contexts s c = Some ctx \<and> ctx_response ctx \<noteq> None"
  shows "calm W arm bnd core s (OnIncomingRpcDone C c r s)"
proof -
  have delete: "calm W arm bnd core t (delete_context c t)" for t
    using keeps_same_table [of core t "delete_context c t"] delete_context_inv [of core t c]
    by (simp add: calm_def harmless_def steady_same_timers) (simp add: delete_context_def steady_same_timers)
  from assms obtain ctx rp where "contexts s c = Some ctx" "ctx_response ctx = Some rp" by auto
  then show ?thesis
    by (simp add: OnIncomingRpcDone_def) (rule calm_trans [OF SendMessage_calm delete])
qed

lemma OnRecvRequestMessage_calm: "calm W arm bnd core s (OnRecvRequestMessage C h body a s)"
proof (cases rule: OnRecvRequestMessage_cases [of C h])
  case (found svc sd m)
  let ?t = "accepted_context (NewMessage C) (incoming_context C svc m h a)
    (GetRequestPrototype C svc m) (GetResponsePrototype C svc m) s"
  have t: "calm W arm bnd core s ?t"
    using accepted_harmless [of core s]
    by (simp add: calm_def steady_same_timers accepted_context_def Let_def)
  have "calm W arm bnd core ?t (?t\<lparr>msgs := ms\<rparr>)" "calm W arm bnd core ?t (?t\<lparr>msgs := ms, served := v\<rparr>)"
    for ms v by (simp_all add: calm_def harmless_def keeps_same_table steady_same_timers)
  note here = this [THEN calm_trans [OF t]]
  show ?thesis
    by (simp add: OnRecvRequestMessage_found [OF found] Let_def here(1)
        calm_trans [OF here(2) callbacks_calm(3)] split: prod.split)
qed (simp add: OnRecvRequestMessage_dropped)

section \<open>The steps of a worker\<close>

lemma OnRecvPacket_timed:
  assumes "wheel_laws W arm bnd" "mgr_inv core s" "timed W arm bnd {} s"
  shows "timed W arm bnd {} (snd (OnRecvPacket C buf a s))"
proof -
  have "timed W arm bnd {} (OnRecvRequestMessage C h body a s)" for h body
    using OnRecvRequestMessage_calm [of s h body a] assms by (simp add: calm_def steady_def)
  moreover have "timed W arm bnd {} (OnRecvResponseMessage C h body a s)"
    if "drop_bit kRpcIdSeqPartBits (get_rpc_id h) \<noteq> 0" for h body
    using timed.OnRecvResponse_timed [OF assms(1,2) core_bits_nonzero [OF that] assms(3)] assms(3)
    by (auto simp: OnRecvResponseMessage_def raise_core_fault_def timed_def split: option.split)
  ultimately show ?thesis
    using assms(3) by (auto simp: OnRecvPacket_def Let_def split: option.split prod.split)
qed

lemma OnSendPacketFailed_timed:
  assumes "wheel_laws W arm bnd" "mgr_inv core s" "timed W arm bnd {} s"
  shows "timed W arm bnd {} (snd (OnSendPacketFailed C rid s))"
  using timed.OnSendRequestFailed_timed [OF assms(1,2) _ assms(3)] assms(3)
  by (auto simp: OnSendPacketFailed_def Let_def split: option.split)

end

section \<open>What a step does to a session\<close>

text \<open>Node \<open>i\<close> holds the closure \<open>d\<close> of the session \<open>rid\<close>.\<close>

definition held :: "nat \<Rightarrow> 'd \<Rightarrow> u64 \<Rightarrow> ('own, 'tw, 'msg, 'd, 'z) mgr \<Rightarrow> bool" where
  "held i d rid s \<longleftrightarrow> i < length (sess_pool s) \<and> rid \<noteq> 0 \<and> rpc_id (sess_pool s ! i) = rid \<and>
     node_done (sess_pool s ! i) = Some d"

definition calls_done :: "'d \<Rightarrow> ('own, 'tw, 'msg, 'd, 'z) mgr \<Rightarrow> ('own, 'tw, 'msg, 'd, 'z) mgr \<Rightarrow> bool" where
  "calls_done d s s' \<longleftrightarrow> (\<exists>r. prefix (trace s @ [EvDone d r]) (trace s'))"

text \<open>An operation releases the closure of at most one node, and only by calling it.\<close>

definition releases :: "nat \<Rightarrow> ('own, 'tw, 'msg, 'd, 'z) mgr \<Rightarrow> ('own, 'tw, 'msg, 'd, 'z) mgr \<Rightarrow> bool" where
  "releases i s s' \<longleftrightarrow>
     (\<forall>j d rid. held j d rid s \<longrightarrow> held j d rid s' \<or> j = i \<and> calls_done d s s')"

lemma releases_same_pool: "sess_pool s' = sess_pool s \<Longrightarrow> releases i s s'"
  by (simp add: releases_def held_def)

lemma releases_refl [simp]: "releases i s s" "releases i s (s\<lparr>core_fault := b\<rparr>)"
  by (simp_all add: releases_same_pool)

lemma keeps_held: "mgr_inv core s \<Longrightarrow> keeps core s s' \<Longrightarrow> held i d rid s \<Longrightarrow> held i d rid s'"
  using keeps_pool_length [of core s s'] by (auto simp: held_def keeps_def)

lemma keeps_releases: "mgr_inv core s \<Longrightarrow> keeps core s s' \<Longrightarrow> releases i s s'"
  using keeps_held [of core s s'] by (auto simp: releases_def)

lemma keeps_but_releases:
  assumes "mgr_inv core s" "keeps_but core i s s'"
    and "\<And>d rid. held i d rid s \<Longrightarrow> held i d rid s' \<or> calls_done d s s'"
  shows "releases i s s'"
proof -
  have "length (sess_pool s') = length (sess_pool s)"
    using assms(1,2) by (auto simp: keeps_but_def mgr_inv_def geometry_ok_def)
  then have other: "held j d rid s \<Longrightarrow> j \<noteq> i \<Longrightarrow> held j d rid s'" for j d rid
    using assms(2) by (auto simp: keeps_but_def held_def)
  show ?thesis
    unfolding releases_def
  proof (intro allI impI)
    fix j d rid
    assume "held j d rid s"
    then show "held j d rid s' \<or> j = i \<and> calls_done d s s'"
      using other [of j d rid] assms(3) [of d rid] by (cases "j = i") auto
  qed
qed

context core_callbacks
begin

lemma finish_calls:
  assumes "i < length (sess_pool s)" "node_done (sess_pool s ! i) = Some d"
  shows "calls_done d s (FreeSessionNode i (node_cancel_timer (mgr_env_of C) i
      (node_call_done (mgr_env_of C) i r s)))"
    "calls_done d s (FreeSessionNode i (node_call_done (mgr_env_of C) i r s))"
proof -
  have "prefix (trace s @ [EvDone d r]) (trace (run_done (mgr_env_of C) d r
      (s\<lparr>trace := trace s @ [EvDone d r]\<rparr>)))"
    by (rule grows.done_J) simp
  then have "prefix (trace s @ [EvDone d r]) (trace (node_call_done (mgr_env_of C) i r s))"
    by (simp add: node_call_done_in [OF assms] invoke_done_def)
  then show "calls_done d s (FreeSessionNode i (node_cancel_timer (mgr_env_of C) i
      (node_call_done (mgr_env_of C) i r s)))"
    "calls_done d s (FreeSessionNode i (node_call_done (mgr_env_of C) i r s))"
    by (auto simp: calls_done_def grows.helpers_J)
qed

lemma OnRecvResponse_releases:
  assumes inv: "mgr_inv core s" and rid: "rid \<noteq> 0"
  shows "releases (slot_of s rid) s (OnRecvResponse (mgr_env_of C) svc mth rid r body s)"
proof (rule keeps_but_releases [OF inv mgr.OnRecvResponse_keeps [OF inv rid]])
  note geo = mgr_invD(1) [OF inv]
  fix d rid'
  assume h: "held (slot_of s rid) d rid' s"
  let ?i = "slot_of s rid"
  obtain ok m where p: "ParseFromArray (mgr_env_of C) (msgs s (node_response (sess_pool s ! ?i))) body = (ok, m)"
    by force
  let ?s2 = "s\<lparr>msgs := (msgs s)(node_response (sess_pool s ! ?i) := m)\<rparr>"
  have "calls_done d s (FreeSessionNode ?i (node_cancel_timer (mgr_env_of C) ?i
      (node_call_done (mgr_env_of C) ?i r ?s2)))"
    using finish_calls(1) [of ?i ?s2 d r] h by (simp add: held_def calls_done_def)
  with h p show "held ?i d rid' (OnRecvResponse (mgr_env_of C) svc mth rid r body s) \<or>
      calls_done d s (OnRecvResponse (mgr_env_of C) svc mth rid r body s)"
    by (simp add: OnRecvResponse_def FindSessionNode_eq [OF geo] Let_def held_def)
qed

lemma OnSendRequestFailed_releases:
  assumes inv: "mgr_inv core s" and rid: "rid \<noteq> 0"
  shows "releases (slot_of s rid) s (OnSendRequestFailed (mgr_env_of C) rid s)"
proof (rule keeps_but_releases [OF inv mgr.OnSendRequestFailed_keeps [OF inv rid]])
  note geo = mgr_invD(1) [OF inv]
  fix d rid'
  assume h: "held (slot_of s rid) d rid' s"
  let ?i = "slot_of s rid"
  let ?n = "sess_pool s ! ?i"
  note i = slot_in_pool [OF geo, of rid]
  have live: "rpc_id ?n \<noteq> 0" using h by (auto simp: held_def)
  note ok = mgr_invD(4) [OF inv i live]
  let ?k = "endpoint_index ?n + 1"
  let ?m = "?n\<lparr>endpoint_index := ?k\<rparr>"
  let ?s2 = "s\<lparr>sess_pool := (sess_pool s)[?i := ?m]\<rparr>"
  have up: "update_node ?i (\<lambda>n. n\<lparr>endpoint_index := ?k\<rparr>) s = ?s2"
    using i by (simp add: update_node_in)
  have inv2: "mgr_inv core ?s2" using inv i ok by (intro mgr_inv_update) (auto simp: node_ok_def)
  have h2: "held ?i d rid' ?s2" using h by (simp add: held_def)
  have "calls_done d s (FreeSessionNode ?i (node_cancel_timer (mgr_env_of C) ?i
      (node_call_done (mgr_env_of C) ?i kTimeout ?s2)))"
    using finish_calls(1) [of ?i ?s2 d kTimeout] h i by (simp add: held_def calls_done_def)
  moreover have "held ?i d rid' (node_send (mgr_env_of C) ?i (unat ?k) ?s2)"
    if "unat ?k < el_size (endpoint_list ?n)"
  proof -
    from ok have "el_wf (endpoint_list ?n)" by (simp add: node_ok_def)
    with that i have "keeps core ?s2 (node_send (mgr_env_of C) ?i (unat ?k) ?s2)"
      using mgr.send_traced_keeps [OF inv2]
      by (subst node_send_in [of ?i ?s2 ?m]) (simp_all add: Let_def)
    from keeps_held [OF inv2 this h2] show ?thesis .
  qed
  ultimately show "held ?i d rid' (OnSendRequestFailed (mgr_env_of C) rid s) \<or>
      calls_done d s (OnSendRequestFailed (mgr_env_of C) rid s)"
    using h up by (simp add: OnSendRequestFailed_def FindSessionNode_eq [OF geo] Let_def)
qed

lemma OnTimer_calls:
  assumes "mgr_inv core s" and "held i d rid s"
  shows "calls_done d s (OnTimer C i s)"
  using finish_calls(2) [of i s d kTimeout] assms
  by (auto simp: OnTimer_def OnSessionTimeout_def node_at_def held_def)

lemma OnTimer_releases:
  assumes "mgr_inv core s" and "i < length (sess_pool s)"
  shows "releases i s (OnTimer C i s)"
  using keeps_but_releases [OF assms(1) mgr.OnSessionTimeout_keeps [OF assms]] OnTimer_calls [OF assms(1)]
  by (simp add: OnTimer_def)

lemma OnTimer_frees:
  assumes inv: "mgr_inv core s" and i: "i < length (sess_pool s)"
  shows "rpc_id (sess_pool (OnTimer C i s) ! i) = 0"
proof (cases "rpc_id (sess_pool s ! i) = 0")
  case True
  with i show ?thesis by (simp add: OnTimer_def OnSessionTimeout_def node_at_def)
next
  case False
  from mgr_invD(4) [OF inv i False] obtain d where d: "node_done (sess_pool s ! i) = Some d"
    by (auto simp: node_ok_def)
  note an = mgr.answer_keeps [OF inv i False d, where r = kTimeout]
  from i an(2) have "i < length (sess_pool (invoke_done (mgr_env_of C) d kTimeout s))" by simp
  with i False show ?thesis
    by (simp add: OnTimer_def OnSessionTimeout_def node_at_def an(4) free_in)
qed

lemma harmless_releases: "mgr_inv core s \<Longrightarrow> harmless core s s' \<Longrightarrow> releases i s s'"
  by (simp add: harmless_def keeps_releases)

lemma OnRecvPacket_releases:
  assumes "mgr_inv core s"
  shows "\<exists>i. releases i s (snd (OnRecvPacket C buf a s))"
proof -
  have "\<exists>i. releases i s (OnRecvResponseMessage C h body a s)"
    if "drop_bit kRpcIdSeqPartBits (get_rpc_id h) \<noteq> 0" for h body
    unfolding OnRecvResponseMessage_def raise_core_fault_def
    using OnRecvResponse_releases [OF assms core_bits_nonzero [OF that]] releases_refl
    by (fastforce split: option.split)
  moreover have "\<exists>i. releases i s (OnRecvRequestMessage C h body a s)" for h body
    using harmless_releases [OF assms OnRecvRequestMessage_harmless] by blast
  ultimately show ?thesis
    by (auto simp: OnRecvPacket_def Let_def split: option.split prod.split)
qed

lemma OnSendPacketFailed_releases:
  assumes "mgr_inv core s"
  shows "\<exists>i. releases i s (snd (OnSendPacketFailed C rid s))"
  using OnSendRequestFailed_releases [OF assms] releases_refl
  by (fastforce simp: OnSendPacketFailed_def Let_def split: option.split)

end

end
