(* ===== verification/CoreLiveness.thy ===== *)
theory CoreLiveness
  imports CoreTimers CoreProperties
begin

text \<open>
  Infinite runs of a worker under a timer wheel. Besides the events of \<open>core_step\<close> time may pass
  and a timer may expire. Timers that are neither reset nor cancelled expire at some time; then
  every closure the worker was handed is called.
\<close>

section \<open>Timed runs\<close>

text \<open>A step with the node whose timer expires, if it is that: the wheel drops this timer, the
  others keep running, and the node's closure \<open>OnSessionTimeout\<close> is called.\<close>

inductive timed_step ::
  "('own, 'tw, 'msg, 'd, 'svc, 'sd, 'z) core_env \<Rightarrow> ('tw \<Rightarrow> 'own \<Rightarrow> nat \<Rightarrow> bool) \<Rightarrow> nat option \<Rightarrow>
   ('own, 'tw, 'msg, 'd, 'z) core \<Rightarrow> ('own, 'tw, 'msg, 'd, 'z) core \<Rightarrow> bool"
  for C :: "('own, 'tw, 'msg, 'd, 'svc, 'sd, 'z) core_env"
    and arm :: "'tw \<Rightarrow> 'own \<Rightarrow> nat \<Rightarrow> bool" where
  timed_event: "core_event C s s' \<Longrightarrow> timed_step C arm None s s'"
| timed_pass: "(\<And>own i. arm (timerw s) own i \<Longrightarrow> arm tw own i) \<Longrightarrow>
     timed_step C arm None s (s\<lparr>timerw := tw\<rparr>)"
| timed_expire: "i < length (sess_pool s) \<Longrightarrow> others_run arm i (timerw s) tw \<Longrightarrow>
     timed_step C arm (Some i) s (OnTimer C i (s\<lparr>timerw := tw\<rparr>))"

inductive_cases timed_expireE: "timed_step C arm (Some i) s s'"
inductive_cases timed_eventE: "timed_step C arm None s s'"

definition timed_run ::
  "('own, 'tw, 'msg, 'd, 'svc, 'sd, 'z) core_env \<Rightarrow> ('tw \<Rightarrow> 'own \<Rightarrow> nat \<Rightarrow> bool) \<Rightarrow>
   (nat \<Rightarrow> nat option) \<Rightarrow> (nat \<Rightarrow> ('own, 'tw, 'msg, 'd, 'z) core) \<Rightarrow> bool" where
  "timed_run C arm ev \<sigma> \<longleftrightarrow> (\<forall>k. timed_step C arm (ev k) (\<sigma> k) (\<sigma> (Suc k)))"

text \<open>A timer that runs on for one session expires. A node keeps its timer while it keeps its
  session: the code resets or cancels it only when it fills or frees the node.\<close>

definition timers_expire ::
  "('tw \<Rightarrow> 'own \<Rightarrow> nat \<Rightarrow> bool) \<Rightarrow> (nat \<Rightarrow> nat option) \<Rightarrow>
   (nat \<Rightarrow> ('own, 'tw, 'msg, 'd, 'z) core) \<Rightarrow> bool" where
  "timers_expire arm ev \<sigma> \<longleftrightarrow>
     (\<forall>k i rid. rid \<noteq> 0 \<longrightarrow>
        (\<forall>l\<ge>k. i < length (sess_pool (\<sigma> l)) \<and> rpc_id (sess_pool (\<sigma> l) ! i) = rid \<and>
           arm (timerw (\<sigma> l)) (timer_owner (sess_pool (\<sigma> l) ! i)) i) \<longrightarrow>
        (\<exists>l\<ge>k. ev l = Some i))"

lemma calls_done_trace:
  assumes "trace u = trace s" and "calls_done d u s'"
  shows "calls_done d s s'"
  using assms by (simp add: calls_done_def)

lemma answered_called: "calls_done d s s' \<Longrightarrow> add_mset d (answered s) \<subseteq># answered s'"
  by (auto simp: calls_done_def answered_def prefix_def)

lemma answered_prefix: "prefix (trace s) (trace s') \<Longrightarrow> answered s \<subseteq># answered s'"
  by (auto simp: answered_def prefix_def)

lemma dropped_prefix: "prefix (trace s) (trace s') \<Longrightarrow> dropped s \<subseteq># dropped s'"
  by (auto simp: dropped_def prefix_def)

section \<open>Each step\<close>

context timed_core
begin

lemma event_timed:
  assumes "wheel_laws W arm bnd" and "core_event C s s'" and "core_inv core s"
    and "timed W arm bnd {} s"
  shows "timed W arm bnd {} s'"
proof -
  have inv: "mgr_inv core s" "context_inv core s" using assms(3) by (simp_all add: core_inv_def)
  have quiet: ?thesis if "calm W arm bnd core s s'"
    using that inv assms(1,4) by (simp add: calm_def steady_def)
  from assms(2) show ?thesis
  proof cases
    case (event_answer c r)
    then have "answerable s c" using answerable_context [OF inv(2)] by blast
    with event_answer show ?thesis
      using OnIncomingRpcDone_calm by (intro quiet) (simp add: answerable_iff)
  next
    case (event_call m rq rp d)
    then show ?thesis using CallMethod_calm by (intro quiet) simp
  qed (use assms inv OnRecvPacket_timed OnSendPacketFailed_timed in auto)
qed

lemma event_releases:
  assumes "core_event C s s'" and "core_inv core s"
  shows "\<exists>i. releases i s s'"
proof -
  have inv: "mgr_inv core s" "context_inv core s" using assms(2) by (simp_all add: core_inv_def)
  from assms(1) show ?thesis
  proof cases
    case (event_packet buf a)
    then show ?thesis using OnRecvPacket_releases [OF inv(1)] by simp
  next
    case (event_failed rid)
    then show ?thesis using OnSendPacketFailed_releases [OF inv(1)] by simp
  next
    case (event_call m rq rp d)
    then show ?thesis using harmless_releases [OF inv(1) CallMethod_harmless] by blast
  next
    case (event_answer c r)
    then have "answerable s c" using answerable_context [OF inv(2)] by blast
    with event_answer show ?thesis
      using harmless_releases [OF inv(1) OnIncomingRpcDone_harmless] by (simp add: answerable_iff)
  qed (auto intro!: exI [of _ 0] releases_same_pool)
qed

lemma timed_step_inv:
  assumes "wheel_laws W arm bnd" and "timed_step C arm e s s'" and "timed_inv W arm bnd core s"
  shows "timed_inv W arm bnd core s' \<and> prefix (trace s) (trace s') \<and> (\<forall>X. owes X s \<longrightarrow> owes X s')"
proof -
  have inv: "core_inv core s" "mgr_inv core s" "context_inv core s" "timed W arm bnd {} s"
    using assms(3) by (simp_all add: timed_inv_def core_inv_def)
  from assms(2) show ?thesis
  proof cases
    case timed_event
    with event_timed [OF assms(1) _ inv(1,4)] event_advances [of s s'] inv(1) show ?thesis
      by (auto simp: advances_def timed_inv_def)
  next
    case (timed_pass tw)
    then show ?thesis
      using inv by (auto simp: timed_inv_def core_inv_def timed_def node_timed_def)
  next
    case (timed_expire i tw)
    let ?u = "s\<lparr>timerw := tw\<rparr>"
    have u: "core_inv core ?u" "mgr_inv core ?u" "i < length (sess_pool ?u)"
      using inv timed_expire by (simp_all add: core_inv_def)
    have "timed W arm bnd {i} ?u"
      unfolding timed_def
    proof (intro allI impI)
      fix j assume "j < length (sess_pool ?u)"
      with timed_node [OF inv(4), of j] timed_expire show
        "node_timed W arm bnd {i} (timerw ?u) j (sess_pool ?u ! j)"
        by (auto simp: node_timed_def others_run_def)
    qed
    then have "timed W arm bnd {} (OnTimer C i ?u)"
      using timed.OnSessionTimeout_timed [OF assms(1) u(2,3), of "{}"] by (simp add: OnTimer_def)
    moreover have "advances core ?u (OnTimer C i ?u)" using u(3) by (rule OnTimer_advances)
    ultimately show ?thesis
      using u(1) timed_expire by (auto simp: advances_def timed_inv_def)
  qed
qed

lemma timed_step_releases:
  assumes "timed_step C arm e s s'" and "timed_inv W arm bnd core s"
  shows "\<exists>i. releases i s s'"
proof -
  have inv: "core_inv core s" "mgr_inv core s"
    using assms(2) by (simp_all add: timed_inv_def core_inv_def)
  from assms(1) show ?thesis
  proof cases
    case timed_event
    with event_releases inv(1) show ?thesis by blast
  next
    case (timed_expire i tw)
    let ?u = "s\<lparr>timerw := tw\<rparr>"
    have "releases i ?u (OnTimer C i ?u)"
      using OnTimer_releases [of ?u i] inv timed_expire by simp
    then have "releases i s s'"
      using timed_expire calls_done_trace [of ?u s] by (auto simp: releases_def held_def)
    then show ?thesis ..
  qed (auto intro!: exI [of _ 0] releases_same_pool)
qed

lemma expire_calls:
  assumes "timed_step C arm (Some i) s s'" "timed_inv W arm bnd core s" "held i d rid s"
  shows "calls_done d s s' \<and> \<not> held i d rid s'"
proof (rule timed_expireE [OF assms(1)])
  fix tw
  assume "s' = OnTimer C i (s\<lparr>timerw := tw\<rparr>)"
  then show ?thesis
    using OnTimer_calls [of "s\<lparr>timerw := tw\<rparr>" i d rid] OnTimer_frees [of "s\<lparr>timerw := tw\<rparr>" i]
      assms(2,3) calls_done_trace [of "s\<lparr>timerw := tw\<rparr>" s]
    by (auto simp: timed_inv_def core_inv_def held_def)
qed

section \<open>Every session is answered\<close>

lemma run_inv:
  assumes "wheel_laws W arm bnd" "timed_run C arm ev \<sigma>" "timed_inv W arm bnd core (\<sigma> 0)"
  shows "timed_inv W arm bnd core (\<sigma> k)"
  by (induction k) (use assms timed_step_inv in \<open>auto simp: timed_run_def\<close>)

lemma run_prefix:
  assumes "wheel_laws W arm bnd" "timed_run C arm ev \<sigma>" "timed_inv W arm bnd core (\<sigma> 0)" "k \<le> l"
  shows "answered (\<sigma> k) \<subseteq># answered (\<sigma> l)"
  using assms(4)
proof (induction l rule: dec_induct)
  case (step l)
  have "prefix (trace (\<sigma> l)) (trace (\<sigma> (Suc l)))"
    using timed_step_inv [OF assms(1) _ run_inv [OF assms(1-3)]] assms(2)
    by (auto simp: timed_run_def)
  from answered_prefix [OF this] step.IH show ?case by (rule subset_mset.order_trans [rotated])
qed simp

text \<open>Of a set of pending sessions one is released at some time, and then only one.\<close>

lemma one_released:
  assumes run: "wheel_laws W arm bnd" "timed_run C arm ev \<sigma>" "timed_inv W arm bnd core (\<sigma> 0)"
    and expire: "timers_expire arm ev \<sigma>"
    and S: "S \<noteq> {}" "\<And>i. i \<in> S \<Longrightarrow> held i (d i) (rid i) (\<sigma> k)"
  obtains l i where "k \<le> l" "i \<in> S" "calls_done (d i) (\<sigma> l) (\<sigma> (Suc l))"
    "\<And>j. j \<in> S - {i} \<Longrightarrow> held j (d j) (rid j) (\<sigma> (Suc l))"
proof -
  define Q where "Q l \<longleftrightarrow> (\<forall>i\<in>S. held i (d i) (rid i) (\<sigma> l))" for l
  have "\<exists>l\<ge>k. Q l \<and> \<not> Q (Suc l)"
  proof (rule ccontr)
    assume none: "\<not> ?thesis"
    have Q: "Q l" if "k \<le> l" for l
      using that by (induction l rule: dec_induct) (use S none in \<open>auto simp: Q_def\<close>)
    from S(1) obtain i where i: "i \<in> S" by blast
    have "i < length (sess_pool (\<sigma> l)) \<and> rpc_id (sess_pool (\<sigma> l) ! i) = rid i \<and>
        arm (timerw (\<sigma> l)) (timer_owner (sess_pool (\<sigma> l) ! i)) i" if "k \<le> l" for l
    proof -
      from Q [OF that] i have h: "held i (d i) (rid i) (\<sigma> l)" by (simp add: Q_def)
      have "timed W arm bnd {} (\<sigma> l)" using run_inv [OF run] by (simp add: timed_inv_def)
      from timed_node [OF this, of i] h show ?thesis by (simp add: node_timed_def held_def)
    qed
    moreover have "rid i \<noteq> 0" using S(2) [OF i] by (simp add: held_def)
    ultimately obtain l where l: "k \<le> l" "ev l = Some i"
      using expire unfolding timers_expire_def by blast
    have "timed_step C arm (Some i) (\<sigma> l) (\<sigma> (Suc l))"
      using run(2) l(2) by (metis timed_run_def)
    moreover have "held i (d i) (rid i) (\<sigma> l)" "held i (d i) (rid i) (\<sigma> (Suc l))"
      using Q [OF l(1)] Q [of "Suc l"] l(1) i by (simp_all add: Q_def)
    ultimately show False using expire_calls run_inv [OF run] by blast
  qed
  then obtain l where l: "k \<le> l" "Q l" "\<not> Q (Suc l)" by blast
  obtain j where j: "releases j (\<sigma> l) (\<sigma> (Suc l))"
    using timed_step_releases run(2) run_inv [OF run] unfolding timed_run_def by blast
  from l(3) obtain i where i: "i \<in> S" "\<not> held i (d i) (rid i) (\<sigma> (Suc l))" by (auto simp: Q_def)
  with j l(2) have "i = j" "calls_done (d i) (\<sigma> l) (\<sigma> (Suc l))"
    unfolding releases_def Q_def by blast+
  moreover have "held i' (d i') (rid i') (\<sigma> (Suc l))" if "i' \<in> S - {i}" for i'
    using that j l(2) \<open>i = j\<close> unfolding releases_def Q_def by blast
  ultimately show thesis using that l(1) i(1) by blast
qed

lemma all_released:
  assumes run: "wheel_laws W arm bnd" "timed_run C arm ev \<sigma>" "timed_inv W arm bnd core (\<sigma> 0)"
    and expire: "timers_expire arm ev \<sigma>"
    and "finite S" "\<And>i. i \<in> S \<Longrightarrow> held i (d i) (rid i) (\<sigma> k)"
  shows "\<exists>l\<ge>k. answered (\<sigma> k) + image_mset d (mset_set S) \<subseteq># answered (\<sigma> l)"
  using assms(5,6)
proof (induction "card S" arbitrary: S k)
  case 0
  then show ?case by (intro exI [of _ k]) auto
next
  case (Suc n)
  then have "S \<noteq> {}" by auto
  obtain m i
    where m: "k \<le> m" "i \<in> S" "calls_done (d i) (\<sigma> m) (\<sigma> (Suc m))"
      "\<And>j. j \<in> S - {i} \<Longrightarrow> held j (d j) (rid j) (\<sigma> (Suc m))"
    using one_released [OF run expire \<open>S \<noteq> {}\<close> Suc.prems(2)] by blast
  have "n = card (S - {i})" using Suc.hyps(2) m(2) Suc.prems(1) by simp
  from Suc.hyps(1) [OF this _ m(4)] Suc.prems(1) obtain l where l: "Suc m \<le> l"
    "answered (\<sigma> (Suc m)) + image_mset d (mset_set (S - {i})) \<subseteq># answered (\<sigma> l)" by auto
  have S: "mset_set S = add_mset i (mset_set (S - {i}))"
    using m(2) Suc.prems(1) by (simp add: mset_set.remove)
  have "add_mset (d i) (answered (\<sigma> k)) \<subseteq># add_mset (d i) (answered (\<sigma> m))"
    using run_prefix [OF run m(1)] by simp
  also have "\<dots> \<subseteq># answered (\<sigma> (Suc m))" using answered_called [OF m(3)] .
  finally have "answered (\<sigma> k) + image_mset d (mset_set S) \<subseteq>#
      answered (\<sigma> (Suc m)) + image_mset d (mset_set (S - {i}))"
    unfolding S by (simp add: subset_mset.add_right_mono)
  also note l(2)
  finally show ?case using l(1) m(1) by (intro exI [of _ l]) simp
qed

text \<open>The closures of the pending sessions, node by node.\<close>

lemma sum_singletons: "finite A \<Longrightarrow> (\<Sum>i\<in>A. {#f i#}) = image_mset f (mset_set A)"
  by (induction A rule: finite_induct) simp_all

lemma pending_nodes:
  assumes "mgr_inv core s"
  shows "pending s = image_mset (\<lambda>i. the (node_done (sess_pool s ! i)))
      (mset_set {i. i < length (sess_pool s) \<and> rpc_id (sess_pool s ! i) \<noteq> 0})"
proof -
  let ?p = "sess_pool s"
  have "node_holds (?p ! i) = (if rpc_id (?p ! i) \<noteq> 0 then {#the (node_done (?p ! i))#} else {#})"
    if "i < length ?p" for i
    using mgr_invD(4) [OF assms that] by (auto simp: node_holds_def node_ok_def)
  then have "map node_holds ?p = map (\<lambda>i. if rpc_id (?p ! i) \<noteq> 0
      then {#the (node_done (?p ! i))#} else {#}) [0..<length ?p]"
    by (intro nth_equalityI) simp_all
  then have "pending s = (\<Sum>i\<leftarrow>[0..<length ?p]. if rpc_id (?p ! i) \<noteq> 0
      then {#the (node_done (?p ! i))#} else {#})"
    by (simp add: pending_def)
  also have "\<dots> = (\<Sum>i\<in>{0..<length ?p}. if rpc_id (?p ! i) \<noteq> 0
      then {#the (node_done (?p ! i))#} else {#})"
    by (simp add: sum_list_distinct_conv_sum_set)
  also have "\<dots> = (\<Sum>i\<in>{i. i < length ?p \<and> rpc_id (?p ! i) \<noteq> 0}. {#the (node_done (?p ! i))#})"
    by (rule sum.mono_neutral_cong_right) auto
  also have "\<dots> = image_mset (\<lambda>i. the (node_done (?p ! i)))
      (mset_set {i. i < length ?p \<and> rpc_id (?p ! i) \<noteq> 0})"
    by (rule sum_singletons) simp
  finally show ?thesis .
qed

lemma all_answered:
  assumes run: "wheel_laws W arm bnd" "timed_run C arm ev \<sigma>" "timed_inv W arm bnd core (\<sigma> 0)"
    and expire: "timers_expire arm ev \<sigma>" and books: "owes {#} (\<sigma> 0)"
  shows "\<exists>l\<ge>k. added (\<sigma> k) \<subseteq># answered (\<sigma> l) + dropped (\<sigma> k)"
proof -
  let ?p = "sess_pool (\<sigma> k)"
  let ?S = "{i. i < length ?p \<and> rpc_id (?p ! i) \<noteq> 0}"
  let ?d = "\<lambda>i. the (node_done (?p ! i))"
  have inv: "mgr_inv core (\<sigma> k)" using run_inv [OF run] by (simp add: timed_inv_def core_inv_def)
  have "owes {#} (\<sigma> k)"
  proof (induction k)
    case (Suc k)
    then show ?case
      using timed_step_inv [OF run(1) _ run_inv [OF run]] run(2) by (auto simp: timed_run_def)
  qed (rule books)
  then have add: "added (\<sigma> k) = answered (\<sigma> k) + pending (\<sigma> k) + dropped (\<sigma> k)"
    by (simp add: owes_def)
  have "held i (?d i) (rpc_id (?p ! i)) (\<sigma> k)" if "i \<in> ?S" for i
    using that mgr_invD(4) [OF inv, of i] by (auto simp: held_def node_ok_def)
  with all_released [OF run expire, of ?S ?d "\<lambda>i. rpc_id (?p ! i)" k]
  have "\<exists>l\<ge>k. answered (\<sigma> k) + pending (\<sigma> k) \<subseteq># answered (\<sigma> l)"
    unfolding pending_nodes [OF inv] by simp
  then obtain l where "l \<ge> k" "answered (\<sigma> k) + pending (\<sigma> k) \<subseteq># answered (\<sigma> l)" by blast
  then show ?thesis unfolding add by (intro exI [of _ l]) simp
qed

end

section \<open>User code that calls back\<close>

context timed_core
begin

lemma run_action_calm: "calm W arm bnd core s (run_action C a s)"
proof (cases a)
  case (ActAnswer c r)
  then show ?thesis using OnIncomingRpcDone_calm by (simp add: answerable_iff)
next
  case (ActWrite p v)
  then show ?thesis by (simp add: calm_def harmless_def keeps_same_table steady_same_timers)
qed (simp add: CallMethod_calm)

lemma run_actions_calm: "calm W arm bnd core s (fold (run_action C) acts s)"
  by (induction acts arbitrary: s) (auto intro: calm_trans run_action_calm)

end

lemma user_env_timed:
  assumes "\<And>acts s. calm W arm bnd core s (run acts s)"
    and "sizes_agree (pb B)" "same_wheel (sess_env B) W"
  shows "timed_core (user_env B U run) core W arm bnd"
proof (intro timed_core.intro timed_core_axioms.intro)
  show "core_callbacks (user_env B U run) core"
    using assms by (intro user_env_callbacks) (simp_all add: calm_def)
qed (use assms in \<open>auto simp: user_env_def calm_def same_wheel_def split: prod.splits\<close>)

lemma nested_core_timed: "timed_core (nested_core (lawful B) U n) core (sess_env B) arm bnd"
proof (induction n)
  case 0
  show ?case
    by (simp, rule user_env_timed) (simp_all add: lawful_def lawful_sizes same_wheel_def)
next
  case (Suc n)
  from timed_core.run_actions_calm [OF this] show ?case
    by (simp, intro user_env_timed) (simp_all add: lawful_def lawful_sizes same_wheel_def)
qed

interpretation user_timed: timed_core "nested_core (lawful B) U n" core "sess_env B" arm bnd
  for B U n core arm bnd
  by (rule nested_core_timed)

section \<open>Liveness\<close>

lemma Init_timed:
  assumes "Init garbage own0 rand n core s0 = Some s" and "\<not> has_timer W own0"
  shows "timed W arm bnd F s"
  using assms
  by (auto simp: Init_def Let_def timed_def node_timed_def fresh_node_def split: Option.bind_splits)


lemma demo_wheel:
  "wheel_laws (sess_env (demo_base_of b)) (\<lambda>tw own i. own) (\<lambda>own i. True)"
  "\<not> has_timer (sess_env (demo_base_of b)) False"
  by (auto simp: wheel_laws_def demo_base_of_def others_run_def)


end
