(* ===== verification/HyperLiveness.thy ===== *)
theory HyperLiveness
  imports HyperProperties CoreLiveness
begin

text \<open>
  Infinite runs of the process: workers under their timer wheels, queues that are served. Every
  closure handed to \<open>HyperRpc::CallMethod\<close> is called, so every synchronous caller is notified.
\<close>

section \<open>Timed runs of the process\<close>

datatype hyper_label = Happens | Takes nat | Expires nat nat

inductive hyper_timed_step ::
  "('own, 'tw, 'msg, 'u closure, 'svc, 'sd, 'z) core_env \<Rightarrow> ('tw \<Rightarrow> 'own \<Rightarrow> nat \<Rightarrow> bool) \<Rightarrow>
   hyper_label \<Rightarrow> ('own, 'tw, 'msg, 'u, 'svc, 'z) hyper \<Rightarrow> ('own, 'tw, 'msg, 'u, 'svc, 'z) hyper \<Rightarrow> bool"
  for C :: "('own, 'tw, 'msg, 'u closure, 'svc, 'sd, 'z) core_env"
    and arm :: "'tw \<Rightarrow> 'own \<Rightarrow> nat \<Rightarrow> bool" where
  ht_happens: "hyper_event C s s' \<Longrightarrow> hyper_timed_step C arm Happens s s'"
| ht_takes: "worker s w \<Longrightarrow> hyper_timed_step C arm (Takes w) s (run_task C w s)"
| ht_pass: "worker s w \<Longrightarrow> (\<And>own i. arm (timerw (rpc_core_vec s ! w)) own i \<Longrightarrow> arm tw own i) \<Longrightarrow>
     hyper_timed_step C arm Happens s (set_core w ((rpc_core_vec s ! w)\<lparr>timerw := tw\<rparr>) s)"
| ht_expires: "worker s w \<Longrightarrow> i < length (sess_pool (rpc_core_vec s ! w)) \<Longrightarrow>
     others_run arm i (timerw (rpc_core_vec s ! w)) tw \<Longrightarrow>
     hyper_timed_step C arm (Expires w i) s
       (set_core w (OnTimer (core_env_of C s) i ((rpc_core_vec s ! w)\<lparr>timerw := tw\<rparr>)) s)"

inductive_cases ht_takesE: "hyper_timed_step C arm (Takes w) s s'"

definition hyper_timed_run ::
  "('own, 'tw, 'msg, 'u closure, 'svc, 'sd, 'z) core_env \<Rightarrow> ('tw \<Rightarrow> 'own \<Rightarrow> nat \<Rightarrow> bool) \<Rightarrow>
   (nat \<Rightarrow> hyper_label) \<Rightarrow> (nat \<Rightarrow> ('own, 'tw, 'msg, 'u, 'svc, 'z) hyper) \<Rightarrow> bool" where
  "hyper_timed_run C arm ev \<sigma> \<longleftrightarrow> (\<forall>k. hyper_timed_step C arm (ev k) (\<sigma> k) (\<sigma> (Suc k)))"

text \<open>An expiry is two steps of the process: the wheel moves on, the timer fires.\<close>

lemma timed_hyper_steps:
  assumes "hyper_timed_step C arm e s s'"
  shows "(hyper_step C)\<^sup>*\<^sup>* s s'"
  using assms
proof cases
  case (ht_expires w i tw)
  let ?s1 = "set_core w ((rpc_core_vec s ! w)\<lparr>timerw := tw\<rparr>) s"
  have "worker ?s1 w" "i < length (sess_pool (rpc_core_vec ?s1 ! w))"
    using ht_expires(3,4) by (simp_all add: set_core_def worker_def)
  then have "hyper_step C ?s1 (set_core w (OnTimer (core_env_of C ?s1) i (rpc_core_vec ?s1 ! w)) ?s1)"
    by (rule hyper_timer)
  also have "set_core w (OnTimer (core_env_of C ?s1) i (rpc_core_vec ?s1 ! w)) ?s1 = s'"
    using ht_expires(2,3) by (simp add: core_env_of_set_core) (simp add: set_core_def worker_def)
  finally have fires: "(hyper_step C)\<^sup>*\<^sup>* ?s1 s'" by (rule r_into_rtranclp)
  have "hyper_step C s ?s1" using ht_expires(3) by (rule hyper_pass)
  from this fires show ?thesis by (rule converse_rtranclp_into_rtranclp)
qed (blast intro: hyper_happens hyper_task hyper_pass)+

lemma steps_reachable: "(hyper_step C)\<^sup>*\<^sup>* s s' \<Longrightarrow> hyper_reachable C H opt s \<Longrightarrow> hyper_reachable C H opt s'"
  by (induction rule: rtranclp_induct) (auto intro: hyper_next)

lemmas timed_reachable = steps_reachable [OF timed_hyper_steps]

lemma timed_run_reachable:
  assumes "hyper_timed_run C arm ev \<sigma>" "hyper_reachable C H opt (\<sigma> 0)"
  shows "hyper_reachable C H opt (\<sigma> k)"
  using assms by (induction k) (auto simp: hyper_timed_run_def intro: timed_reachable)

text \<open>The run as worker \<open>w\<close> sees it.\<close>

fun expiry :: "nat \<Rightarrow> hyper_label \<Rightarrow> nat option" where
  "expiry w (Expires v i) = (if v = w then Some i else None)"
| "expiry w Happens = None"
| "expiry w (Takes v) = None"

abbreviation core_run ::
  "(nat \<Rightarrow> ('own, 'tw, 'msg, 'u, 'svc, 'z) hyper) \<Rightarrow> nat \<Rightarrow> nat \<Rightarrow> ('own, 'tw, 'msg, 'u closure, 'z) core" where
  "core_run \<sigma> w k \<equiv> rpc_core_vec (\<sigma> k) ! w"

text \<open>Every worker's timers expire, and a worker with tasks takes one at some time.\<close>

definition all_timers_expire ::
  "('tw \<Rightarrow> 'own \<Rightarrow> nat \<Rightarrow> bool) \<Rightarrow> (nat \<Rightarrow> hyper_label) \<Rightarrow>
   (nat \<Rightarrow> ('own, 'tw, 'msg, 'u, 'svc, 'z) hyper) \<Rightarrow> bool" where
  "all_timers_expire arm ev \<sigma> \<longleftrightarrow>
     (\<forall>w. worker (\<sigma> 0) w \<longrightarrow> timers_expire arm (\<lambda>k. expiry w (ev k)) (core_run \<sigma> w))"

definition queues_served ::
  "(nat \<Rightarrow> hyper_label) \<Rightarrow> (nat \<Rightarrow> ('own, 'tw, 'msg, 'u, 'svc, 'z) hyper) \<Rightarrow> bool" where
  "queues_served ev \<sigma> \<longleftrightarrow>
     (\<forall>k w. worker (\<sigma> 0) w \<longrightarrow> queues (\<sigma> k) ! w \<noteq> [] \<longrightarrow> (\<exists>l\<ge>k. ev l = Takes w))"

lemma timed_stutter: "timed_step C arm None s s"
  using timed_event [OF event_write [of C s "msgs s"]] by simp

lemma one_core_timed:
  assumes "one_core_step (core_event C) s s'" "w < length (rpc_core_vec s)"
  shows "timed_step C arm None (rpc_core_vec s ! w) (rpc_core_vec s' ! w)"
  using assms(1) unfolding one_core_step_def
proof (elim disjE exE conjE)
  fix v core'
  assume "core_event C (rpc_core_vec s ! v) core'" "rpc_core_vec s' = (rpc_core_vec s)[v := core']"
  with assms(2) show ?thesis
    by (cases "v = w") (auto intro: timed_stutter timed_event)
qed (simp add: timed_stutter)

lemma one_core_length: "one_core_step R s s' \<Longrightarrow> length (rpc_core_vec s') = length (rpc_core_vec s)"
  by (auto simp: one_core_step_def)

text \<open>An event only appends to the queues.\<close>

lemma prefix_post [simp]:
  assumes "queues t = queues s"
  shows "prefix (queues s ! v) (queues (post w x t) ! v)"
proof (cases "w < length (queues s)")
  case True
  with assms show ?thesis by (cases "v = w") (simp_all add: post_def)
qed (simp add: post_def assms list_update_beyond not_less)

lemma event_queues: "hyper_event C s s' \<Longrightarrow> prefix (queues s ! v) (queues s' ! v)"
  by (induction rule: hyper_event_from.induct)
    (auto simp: Impl_OnRecvPacket_def Impl_OnSentResult_def Impl_CallMethod_def abort_process_def
      Let_def set_core_def split: prod.split option.split)

lemma happens_queues: "hyper_timed_step C arm Happens s s' \<Longrightarrow> prefix (queues s ! v) (queues s' ! v)"
  by (cases rule: hyper_timed_step.cases) (auto simp: event_queues)

section \<open>The process invariant along a run\<close>

definition hyper_timed_inv ::
  "('own, 'tw, 'msg, 'u closure, 'svc, 'sd, 'z) core_env \<Rightarrow>
   ('own, 'tw, 'msg, 'u closure, ('own, 'tw, 'msg, 'u closure, 'z) core) SessionEnv \<Rightarrow>
   ('tw \<Rightarrow> 'own \<Rightarrow> nat \<Rightarrow> bool) \<Rightarrow> ('own \<Rightarrow> nat \<Rightarrow> bool) \<Rightarrow>
   ('own, 'tw, 'msg, 'u, 'svc, 'z) hyper \<Rightarrow> bool" where
  "hyper_timed_inv C W arm bnd s \<longleftrightarrow> hyper_inv C s \<and> handed_over s \<and>
     (\<forall>w. worker s w \<longrightarrow> timed_inv W arm bnd w (rpc_core_vec s ! w) \<and> owes {#} (rpc_core_vec s ! w))"

locale timed_hyper = hyper_callbacks C
  for C :: "('own, 'tw, 'msg, 'u closure, 'svc, 'sd, 'z) core_env" +
  fixes W :: "('own, 'tw, 'msg, 'u closure, ('own, 'tw, 'msg, 'u closure, 'z) core) SessionEnv"
    and arm :: "'tw \<Rightarrow> 'own \<Rightarrow> nat \<Rightarrow> bool" and bnd :: "'own \<Rightarrow> nat \<Rightarrow> bool"
  assumes timed_callbacks: "timed_core C k W arm bnd"
begin

lemma label_step:
  assumes step: "hyper_timed_step C arm e s s'" and inv: "hyper_inv C s"
    and ids: "\<And>w. worker s w \<Longrightarrow> rpc_core_id (rpc_core_vec s ! w) = w"
  shows "hyper_inv C s'" "length (rpc_core_vec s') = length (rpc_core_vec s)"
    "worker s w \<Longrightarrow> timed_step C arm (expiry w e) (rpc_core_vec s ! w) (rpc_core_vec s' ! w)"
proof -
  have one: "hyper_inv C s' \<and> length (rpc_core_vec s') = length (rpc_core_vec s) \<and>
      timed_step C arm None (rpc_core_vec s ! w) (rpc_core_vec s' ! w)"
    if "hyper_inv C s' \<and> one_core_step (core_event C) s s'" "worker s w" for w
    using that one_core_timed [of C s s' w] one_core_length [of "core_event C" s s']
    by (simp add: worker_def)
  have "hyper_inv C s' \<and> length (rpc_core_vec s') = length (rpc_core_vec s) \<and>
      (worker s w \<longrightarrow> timed_step C arm (expiry w e) (rpc_core_vec s ! w) (rpc_core_vec s' ! w))"
    using step
  proof cases
    case ht_happens
    from event_sim [OF this(2) inv ids] one_core_length [of "core_event C" s s'] one ht_happens(1)
    show ?thesis by auto
  next
    case (ht_takes v)
    from task_sim [OF this(3) inv] one_core_length [of "core_event C" s s'] one ht_takes(1,2)
    show ?thesis by auto
  next
    case (ht_pass v tw)
    with inv show ?thesis
      using timed_stutter [of C arm "rpc_core_vec s ! w"] timed_pass [of arm "rpc_core_vec s ! v" tw C]
      by (cases "v = w") (auto simp: hyper_inv_def set_core_def worker_def)
  next
    case (ht_expires v i tw)
    with inv core_env_of_inv [OF inv] show ?thesis
      using timed_stutter [of C arm "rpc_core_vec s ! w"]
        timed_expire [of i "rpc_core_vec s ! v" arm tw C]
      by (cases "v = w") (auto simp: hyper_inv_def set_core_def worker_def)
  qed
  then show "hyper_inv C s'" "length (rpc_core_vec s') = length (rpc_core_vec s)"
    "worker s w \<Longrightarrow> timed_step C arm (expiry w e) (rpc_core_vec s ! w) (rpc_core_vec s' ! w)"
    by auto
qed

lemma label_handed_over:
  assumes step: "hyper_timed_step C arm e s s'" and inv: "hyper_inv C s" and ho: "handed_over s"
    and laws: "wheel_laws W arm bnd"
    and cores: "\<And>w. worker s w \<Longrightarrow> timed_inv W arm bnd w (rpc_core_vec s ! w)"
  shows "handed_over s'"
proof -
  have ids: "rpc_core_id (rpc_core_vec s ! w) = w" if "worker s w" for w
    using cores [OF that] by (simp add: timed_inv_def core_inv_def context_inv_def)
  have pre: "prefix (trace (rpc_core_vec s ! w)) (trace core)"
    if "worker s w" "timed_step C arm x (rpc_core_vec s ! w) core" for w x core
    using timed_core.timed_step_inv [OF timed_callbacks laws that(2) cores [OF that(1)]] by simp
  from step show ?thesis
  proof cases
    case ht_happens
    then show ?thesis using event_handed_over [OF _ inv ho ids] by simp
  next
    case (ht_takes w)
    then show ?thesis using task_handed_over [OF _ inv ho] by simp
  next
    case (ht_pass w tw)
    then have "timed_step C arm None (rpc_core_vec s ! w) ((rpc_core_vec s ! w)\<lparr>timerw := tw\<rparr>)"
      by (intro timed_pass) simp
    from given_step [OF ht_pass(3) pre [OF ht_pass(3) this]] ht_pass(2) show ?thesis
      by (intro handed_over_more [OF ho]) simp_all
  next
    case (ht_expires w i tw)
    from pre [OF ht_expires(3) timed_expire [OF ht_expires(4,5)]]
    have "given s \<subseteq># given (set_core w (OnTimer C i ((rpc_core_vec s ! w)\<lparr>timerw := tw\<rparr>)) s)"
      by (rule given_step [OF ht_expires(3)])
    with ht_expires(2) core_env_of_inv [OF inv] show ?thesis
      by (intro handed_over_more [OF ho]) simp_all
  qed
qed

lemma hyper_timed_ids:
  "hyper_timed_inv C W arm bnd s \<Longrightarrow> worker s w \<Longrightarrow> rpc_core_id (rpc_core_vec s ! w) = w"
  by (simp add: hyper_timed_inv_def timed_inv_def core_inv_def context_inv_def)

lemma hyper_timed_step_inv:
  assumes laws: "wheel_laws W arm bnd" and step: "hyper_timed_step C arm e s s'"
    and inv: "hyper_timed_inv C W arm bnd s"
  shows "hyper_timed_inv C W arm bnd s'" "length (rpc_core_vec s') = length (rpc_core_vec s)"
    "worker s w \<Longrightarrow> timed_step C arm (expiry w e) (rpc_core_vec s ! w) (rpc_core_vec s' ! w)"
proof -
  have hi: "hyper_inv C s" "handed_over s"
    and cores: "\<And>w. worker s w \<Longrightarrow> timed_inv W arm bnd w (rpc_core_vec s ! w)"
      "\<And>w. worker s w \<Longrightarrow> owes {#} (rpc_core_vec s ! w)"
    using inv by (simp_all add: hyper_timed_inv_def)
  have ids: "\<And>w. worker s w \<Longrightarrow> rpc_core_id (rpc_core_vec s ! w) = w"
    using hyper_timed_ids [OF inv] .
  have l: "hyper_inv C s'" "length (rpc_core_vec s') = length (rpc_core_vec s)"
    "\<And>w. worker s w \<Longrightarrow> timed_step C arm (expiry w e) (rpc_core_vec s ! w) (rpc_core_vec s' ! w)"
    using label_step [OF step hi(1)] ids by blast+
  show "length (rpc_core_vec s') = length (rpc_core_vec s)" by (rule l(2))
  show "worker s w \<Longrightarrow> timed_step C arm (expiry w e) (rpc_core_vec s ! w) (rpc_core_vec s' ! w)"
    by (rule l(3))
  have "timed_inv W arm bnd w (rpc_core_vec s' ! w) \<and> owes {#} (rpc_core_vec s' ! w)"
    if "worker s' w" for w
  proof -
    have w: "worker s w" using that l(2) by (simp add: worker_def)
    from timed_core.timed_step_inv [OF timed_callbacks laws l(3) [OF w] cores(1) [OF w]] cores(2) [OF w]
    show ?thesis by simp
  qed
  moreover have "handed_over s'" using label_handed_over [OF step hi laws] cores(1) by blast
  ultimately show "hyper_timed_inv C W arm bnd s'" using l(1) by (simp add: hyper_timed_inv_def)
qed

section \<open>Queues are emptied\<close>

lemma label_queues:
  assumes "hyper_timed_step C arm e s s'" "e \<noteq> Takes w"
  shows "prefix (queues s ! w) (queues s' ! w)"
  using assms(1)
proof cases
  case (ht_takes v)
  with assms(2) show ?thesis
    by (cases "queues s ! v") (auto simp: run_task_def Let_def set_core_def split: task.split)
qed (simp_all add: event_queues set_core_def)

lemma run_hyper_inv:
  assumes "wheel_laws W arm bnd" "hyper_timed_run C arm ev \<sigma>" "hyper_timed_inv C W arm bnd (\<sigma> 0)"
  shows "hyper_timed_inv C W arm bnd (\<sigma> k)" "worker (\<sigma> 0) w \<Longrightarrow> worker (\<sigma> k) w"
    "length (rpc_core_vec (\<sigma> k)) = length (rpc_core_vec (\<sigma> 0))"
proof -
  have "hyper_timed_inv C W arm bnd (\<sigma> k) \<and>
      length (rpc_core_vec (\<sigma> k)) = length (rpc_core_vec (\<sigma> 0))"
  proof (induction k)
    case (Suc k)
    from assms(2) have "hyper_timed_step C arm (ev k) (\<sigma> k) (\<sigma> (Suc k))"
      by (simp add: hyper_timed_run_def)
    from hyper_timed_step_inv(1,2) [OF assms(1) this] Suc show ?case by simp
  qed (simp add: assms(3))
  then show "hyper_timed_inv C W arm bnd (\<sigma> k)" "worker (\<sigma> 0) w \<Longrightarrow> worker (\<sigma> k) w"
    "length (rpc_core_vec (\<sigma> k)) = length (rpc_core_vec (\<sigma> 0))" by (auto simp: worker_def)
qed

lemma run_core_run:
  assumes "wheel_laws W arm bnd" "hyper_timed_run C arm ev \<sigma>" "hyper_timed_inv C W arm bnd (\<sigma> 0)"
    and "worker (\<sigma> 0) w"
  shows "timed_run C arm (\<lambda>k. expiry w (ev k)) (core_run \<sigma> w)"
  unfolding timed_run_def
  using hyper_timed_step_inv(3) [OF assms(1) _ run_hyper_inv(1) [OF assms(1-3)]] assms(2,4)
    run_hyper_inv(2) [OF assms(1-3)]
  by (simp add: hyper_timed_run_def)

lemma run_core_prefix:
  assumes "wheel_laws W arm bnd" "hyper_timed_run C arm ev \<sigma>" "hyper_timed_inv C W arm bnd (\<sigma> 0)"
    and "worker (\<sigma> 0) w" "k \<le> l"
  shows "prefix (trace (core_run \<sigma> w k)) (trace (core_run \<sigma> w l))"
  using assms(5)
proof (induction l rule: dec_induct)
  case (step l)
  have inv: "timed_inv W arm bnd w (core_run \<sigma> w l)"
    using run_hyper_inv [OF assms(1-3)] assms(4) by (simp add: hyper_timed_inv_def)
  have "timed_step C arm (expiry w (ev l)) (core_run \<sigma> w l) (core_run \<sigma> w (Suc l))"
    using run_core_run [OF assms(1-4)] by (simp add: timed_run_def)
  from timed_core.timed_step_inv [OF timed_callbacks assms(1) this inv]
  show ?case using step.IH by (blast intro: prefix_order.trans)
qed simp

lemma label_outer:
  assumes "hyper_timed_step C arm e s s'"
  shows "prefix (outer_trace s) (outer_trace s')"
  using assms
proof cases
  case ht_happens
  from this(2) show ?thesis
    by (induction rule: hyper_event_from.induct)
      (auto simp: Impl_OnRecvPacket_def Impl_OnSentResult_def Impl_CallMethod_def abort_process_def
        Let_def split: prod.split option.split)
next
  case (ht_takes v)
  then show ?thesis
    by (cases "queues s ! v") (auto simp: run_task_def Let_def split: task.split)
qed simp_all

lemma run_outer:
  assumes "wheel_laws W arm bnd" "hyper_timed_run C arm ev \<sigma>" "hyper_timed_inv C W arm bnd (\<sigma> 0)"
    and "k \<le> l"
  shows "prefix (outer_trace (\<sigma> k)) (outer_trace (\<sigma> l))"
  using assms(4)
proof (induction l rule: dec_induct)
  case (step l)
  from assms(2) have "hyper_timed_step C arm (ev l) (\<sigma> l) (\<sigma> (Suc l))" by (simp add: hyper_timed_run_def)
  from label_outer [OF this] step.IH show ?case by (blast intro: prefix_order.trans)
qed simp

text \<open>The next time worker \<open>w\<close> takes a task; until then its queue only grows.\<close>

lemma next_take:
  assumes run: "wheel_laws W arm bnd" "hyper_timed_run C arm ev \<sigma>" "hyper_timed_inv C W arm bnd (\<sigma> 0)"
    and served: "queues_served ev \<sigma>" and w: "worker (\<sigma> 0) w" "queues (\<sigma> k) ! w \<noteq> []"
  obtains l where "k \<le> l" "ev l = Takes w" "prefix (queues (\<sigma> k) ! w) (queues (\<sigma> l) ! w)"
proof -
  define l where "l = (LEAST l. k \<le> l \<and> ev l = Takes w)"
  from served w have "\<exists>l. k \<le> l \<and> ev l = Takes w" unfolding queues_served_def by blast
  then have l: "k \<le> l \<and> ev l = Takes w" unfolding l_def by (rule LeastI_ex)
  have first: "ev m \<noteq> Takes w" if "k \<le> m" "m < l" for m
    using that not_less_Least [of m "\<lambda>l. k \<le> l \<and> ev l = Takes w"] by (auto simp: l_def)
  have "prefix (queues (\<sigma> k) ! w) (queues (\<sigma> m) ! w)" if "k \<le> m" "m \<le> l" for m
    using that
  proof (induction m rule: dec_induct)
    case (step m)
    have "hyper_timed_step C arm (ev m) (\<sigma> m) (\<sigma> (Suc m))" using run(2) by (simp add: hyper_timed_run_def)
    from label_queues [OF this first] step show ?case by (auto intro: prefix_order.trans)
  qed simp
  with l that show thesis by blast
qed

lemma tasks_given:
  assumes run: "wheel_laws W arm bnd" "hyper_timed_run C arm ev \<sigma>" "hyper_timed_inv C W arm bnd (\<sigma> 0)"
    and served: "queues_served ev \<sigma>" and w: "worker (\<sigma> 0) w"
  shows "queues (\<sigma> k) ! w = ts @ us \<Longrightarrow>
    \<exists>l\<ge>k. added (core_run \<sigma> w k) + sum_list (map task_closure ts) \<subseteq># added (core_run \<sigma> w l)"
proof (induction ts arbitrary: k us)
  case Nil
  then show ?case by (intro exI [of _ k]) simp
next
  case (Cons t ts)
  then have "queues (\<sigma> k) ! w \<noteq> []" by simp
  from run served w this obtain l where l: "k \<le> l" "ev l = Takes w"
    "prefix (queues (\<sigma> k) ! w) (queues (\<sigma> l) ! w)" by (rule next_take)
  with Cons.prems obtain vs where q: "queues (\<sigma> l) ! w = t # (ts @ vs)" by (auto simp: prefix_def)
  have "hyper_timed_step C arm (Takes w) (\<sigma> l) (\<sigma> (Suc l))"
    using run(2) l(2) by (metis hyper_timed_run_def)
  then have task: "\<sigma> (Suc l) = run_task C w (\<sigma> l)" by (rule ht_takesE) simp
  have inv: "hyper_inv C (\<sigma> l)" "worker (\<sigma> l) w"
    using run_hyper_inv [OF run] w by (simp_all add: hyper_timed_inv_def)
  then have len: "w < length (queues (\<sigma> l))" "w < length (rpc_core_vec (\<sigma> l))"
    by (simp_all add: hyper_inv_def worker_def)
  from task_gives [OF inv(2,1) q] obtain core where
    "rpc_core_vec (\<sigma> (Suc l)) = (rpc_core_vec (\<sigma> l))[w := core]"
    "queues (\<sigma> (Suc l)) = (queues (\<sigma> l))[w := ts @ vs]"
    and add: "added (core_run \<sigma> w l) + task_closure t \<subseteq># added core" unfolding task by blast
  with len have s: "core_run \<sigma> w (Suc l) = core" "queues (\<sigma> (Suc l)) ! w = ts @ vs" by simp_all
  from Cons.IH [OF s(2)] obtain m where m: "Suc l \<le> m"
    "added core + sum_list (map task_closure ts) \<subseteq># added (core_run \<sigma> w m)" using s(1) by auto
  have "added (core_run \<sigma> w k) \<subseteq># added (core_run \<sigma> w l)"
    using added_prefix [OF run_core_prefix [OF run w l(1)]] .
  then have "added (core_run \<sigma> w k) + sum_list (map task_closure (t # ts)) \<subseteq>#
      (added (core_run \<sigma> w l) + task_closure t) + sum_list (map task_closure ts)"
    by (simp add: add.assoc)
  also have "\<dots> \<subseteq># added core + sum_list (map task_closure ts)"
    using add by (rule subset_mset.add_right_mono)
  also note m(2)
  finally show ?case using l(1) m(1) by (intro exI [of _ m]) simp
qed

end

section \<open>Every closure is called\<close>

lemma sum_mset_pointwise: "(\<And>w. w < n \<Longrightarrow> f w \<subseteq># g w) \<Longrightarrow> (\<Sum>w<n. f w) \<subseteq># (\<Sum>w<(n::nat). g w)"
  by (induction n) (auto intro: subset_mset.add_mono)

lemma common_bound:
  fixes P :: "nat \<Rightarrow> nat \<Rightarrow> bool"
  assumes "\<And>w. w < n \<Longrightarrow> \<exists>l\<ge>k. P w l" and mono: "\<And>w l m. w < n \<Longrightarrow> P w l \<Longrightarrow> l \<le> m \<Longrightarrow> P w m"
  shows "\<exists>l\<ge>k. \<forall>w<n. P w l"
proof -
  from assms(1) obtain f where f: "w < n \<Longrightarrow> k \<le> f w \<and> P w (f w)" for w by metis
  define L where "L = k + (\<Sum>w<n. f w)"
  have "f w \<le> L" if "w < n" for w
    using that member_le_sum [of w "{..<n}" f] by (simp add: L_def trans_le_add2)
  then have "\<forall>w<n. P w L" using f mono by blast
  moreover have "k \<le> L" by (simp add: L_def)
  ultimately show ?thesis by blast
qed

lemma given_sum: "given s = (\<Sum>w<length (rpc_core_vec s). added (rpc_core_vec s ! w))"
  by (simp add: given_def sum_list_sum_nth atLeast0LessThan)

lemma queued_sum:
  "length (queues s) = n \<Longrightarrow> queued s = (\<Sum>w<n. sum_list (map task_closure (queues s ! w)))"
  by (simp add: queued_def sum_list_sum_nth atLeast0LessThan)

context timed_hyper
begin

lemma all_given:
  assumes run: "wheel_laws W arm bnd" "hyper_timed_run C arm ev \<sigma>" "hyper_timed_inv C W arm bnd (\<sigma> 0)"
    and served: "queues_served ev \<sigma>"
  shows "\<exists>l\<ge>k. given (\<sigma> k) + queued (\<sigma> k) \<subseteq># given (\<sigma> l)"
proof -
  let ?n = "length (rpc_core_vec (\<sigma> 0))"
  let ?q = "\<lambda>w. sum_list (map task_closure (queues (\<sigma> k) ! w))"
  note len = run_hyper_inv(3) [OF run]
  have "\<exists>l\<ge>k. \<forall>w<?n. added (core_run \<sigma> w k) + ?q w \<subseteq># added (core_run \<sigma> w l)"
  proof (rule common_bound)
    fix w assume "w < ?n"
    then have w: "worker (\<sigma> 0) w" by (simp add: worker_def)
    show "\<exists>l\<ge>k. added (core_run \<sigma> w k) + ?q w \<subseteq># added (core_run \<sigma> w l)"
      by (rule tasks_given [OF run served w, of _ _ "[]"]) simp
    show "added (core_run \<sigma> w k) + ?q w \<subseteq># added (core_run \<sigma> w m)"
      if "added (core_run \<sigma> w k) + ?q w \<subseteq># added (core_run \<sigma> w l)" "l \<le> m" for l m
      using that(1) added_prefix [OF run_core_prefix [OF run w that(2)]] by (rule subset_mset.order_trans)
  qed
  then obtain l where l: "k \<le> l"
    "\<And>w. w < ?n \<Longrightarrow> added (core_run \<sigma> w k) + ?q w \<subseteq># added (core_run \<sigma> w l)" by blast
  have "length (queues (\<sigma> k)) = ?n"
    using run_hyper_inv(1) [OF run, of k] len [of k] by (simp add: hyper_timed_inv_def hyper_inv_def)
  then have "given (\<sigma> k) + queued (\<sigma> k) = (\<Sum>w<?n. added (core_run \<sigma> w k) + ?q w)"
    by (simp add: given_sum queued_sum len [of k] sum.distrib)
  also have "\<dots> \<subseteq># (\<Sum>w<?n. added (core_run \<sigma> w l))" using l(2) by (rule sum_mset_pointwise)
  finally show ?thesis using l(1) by (intro exI [of _ l]) (simp add: given_sum len [of l])
qed

lemma all_given_answered:
  assumes run: "wheel_laws W arm bnd" "hyper_timed_run C arm ev \<sigma>" "hyper_timed_inv C W arm bnd (\<sigma> 0)"
    and expire: "all_timers_expire arm ev \<sigma>"
  shows "\<exists>l\<ge>k. given (\<sigma> k) \<subseteq># (\<Sum>core\<leftarrow>rpc_core_vec (\<sigma> l). answered core + dropped core)"
proof -
  let ?n = "length (rpc_core_vec (\<sigma> 0))"
  note len = run_hyper_inv(3) [OF run]
  have "\<exists>l\<ge>k. \<forall>w<?n. added (core_run \<sigma> w k) \<subseteq># answered (core_run \<sigma> w l) + dropped (core_run \<sigma> w l)"
  proof (rule common_bound)
    fix w assume "w < ?n"
    then have w: "worker (\<sigma> 0) w" by (simp add: worker_def)
    have mono: "answered (core_run \<sigma> w l) + dropped (core_run \<sigma> w l') \<subseteq>#
        answered (core_run \<sigma> w m) + dropped (core_run \<sigma> w m)" if "l \<le> m" "l' \<le> m" for l l' m
      using answered_prefix [OF run_core_prefix [OF run w that(1)]]
        dropped_prefix [OF run_core_prefix [OF run w that(2)]] by (rule subset_mset.add_mono)
    have start: "timed_inv W arm bnd w (core_run \<sigma> w 0)" "owes {#} (core_run \<sigma> w 0)"
      using run(3) w by (simp_all add: hyper_timed_inv_def)
    have "timers_expire arm (\<lambda>k. expiry w (ev k)) (core_run \<sigma> w)"
      using expire w by (simp add: all_timers_expire_def)
    from timed_core.all_answered [OF timed_callbacks run(1) run_core_run [OF run w] start(1) this start(2), of k]
    obtain l where l: "k \<le> l" "added (core_run \<sigma> w k) \<subseteq># answered (core_run \<sigma> w l) + dropped (core_run \<sigma> w k)"
      by blast
    from subset_mset.order_trans [OF l(2) mono [OF order_refl l(1)]] l(1)
    show "\<exists>l\<ge>k. added (core_run \<sigma> w k) \<subseteq># answered (core_run \<sigma> w l) + dropped (core_run \<sigma> w l)" by blast
    show "added (core_run \<sigma> w k) \<subseteq># answered (core_run \<sigma> w m) + dropped (core_run \<sigma> w m)"
      if "added (core_run \<sigma> w k) \<subseteq># answered (core_run \<sigma> w l) + dropped (core_run \<sigma> w l)" "l \<le> m" for l m
      using that(1) mono [OF that(2) that(2)] by (rule subset_mset.order_trans)
  qed
  then obtain l where l: "k \<le> l"
    "\<And>w. w < ?n \<Longrightarrow> added (core_run \<sigma> w k) \<subseteq># answered (core_run \<sigma> w l) + dropped (core_run \<sigma> w l)" by blast
  have "given (\<sigma> k) = (\<Sum>w<?n. added (core_run \<sigma> w k))" by (simp add: given_sum len [of k])
  also have "\<dots> \<subseteq># (\<Sum>w<?n. answered (core_run \<sigma> w l) + dropped (core_run \<sigma> w l))"
    using l(2) by (rule sum_mset_pointwise)
  finally show ?thesis
    using l(1) by (intro exI [of _ l]) (simp add: sum_list_sum_nth atLeast0LessThan len [of l])
qed

lemma all_handed_called:
  assumes run: "wheel_laws W arm bnd" "hyper_timed_run C arm ev \<sigma>" "hyper_timed_inv C W arm bnd (\<sigma> 0)"
    and expire: "all_timers_expire arm ev \<sigma>" and served: "queues_served ev \<sigma>"
  shows "\<exists>l\<ge>k. mset (handed (\<sigma> k)) \<subseteq>#
    (\<Sum>core\<leftarrow>rpc_core_vec (\<sigma> l). answered core + dropped core) + mset (map fst (outer_trace (\<sigma> k)))"
proof -
  from all_given [OF run served, of k] obtain m where m: "k \<le> m"
    "given (\<sigma> k) + queued (\<sigma> k) \<subseteq># given (\<sigma> m)" by blast
  from all_given_answered [OF run expire, of m] obtain l where l: "m \<le> l"
    "given (\<sigma> m) \<subseteq># (\<Sum>core\<leftarrow>rpc_core_vec (\<sigma> l). answered core + dropped core)" by blast
  have "mset (handed (\<sigma> k)) \<subseteq># given (\<sigma> k) + queued (\<sigma> k) + mset (map fst (outer_trace (\<sigma> k)))"
    using run_hyper_inv(1) [OF run, of k] by (simp add: hyper_timed_inv_def handed_over_def)
  also have "\<dots> \<subseteq># given (\<sigma> m) + mset (map fst (outer_trace (\<sigma> k)))"
    using m(2) by (rule subset_mset.add_right_mono)
  also have "\<dots> \<subseteq># (\<Sum>core\<leftarrow>rpc_core_vec (\<sigma> l). answered core + dropped core) +
      mset (map fst (outer_trace (\<sigma> k)))"
    using l(2) by (rule subset_mset.add_right_mono)
  finally show ?thesis using m(1) l(1) by (intro exI [of _ l]) simp
qed

end

lemma nested_timed_hyper: "timed_hyper (nested_core (lawful B) U n) (sess_env B) arm bnd"
  by (intro timed_hyper.intro timed_hyper_axioms.intro nested_hyper_callbacks nested_core_timed)

interpretation process_timed: timed_hyper "nested_core (lawful B) U n" "sess_env B" arm bnd
  for B U n arm bnd
  by (rule nested_timed_hyper)

section \<open>From the start\<close>

lemma started_timed:
  fixes s :: "('own, 'tw, 'msg, 'u, 'svc, 'z) hyper"
  assumes "started C H opt own0 s" "\<not> has_timer W own0" "worker s w"
  shows "timed W arm bnd {} (rpc_core_vec s ! w)"
proof -
  from started_core(4) [OF assms(1,3)] obtain garbage rand c0
    where "core_Init H opt garbage own0 rand w c0 = Some (rpc_core_vec s ! w)" by blast
  from Init_timed [OF this [unfolded core_Init_def] assms(2)] show ?thesis .
qed

lemma started_timed_inv:
  assumes "started (nested_core (lawful B) U n) H opt own0 s" "\<not> has_timer (sess_env B) own0"
  shows "hyper_timed_inv (nested_core (lawful B) U n) (sess_env B) arm bnd s"
proof -
  note reach = started_reachable [OF assms(1)]
  have "timed_inv (sess_env B) arm bnd w (rpc_core_vec s ! w) \<and> owes {#} (rpc_core_vec s ! w)"
    if "worker s w" for w
    using process.reachable_hyper_inv [OF reach] that user.reachable_core_inv started_timed [OF assms that]
    unfolding timed_inv_def by blast
  with process.reachable_hyper_inv [OF reach] process.reachable_handed_over [OF reach] show ?thesis
    by (simp add: hyper_timed_inv_def)
qed

lemma started_timed_run:
  assumes "sizes_agree (pb B)" "\<not> has_timer (sess_env B) own0"
    and "started (nested_core B U n) H opt own0 (\<sigma> 0)" "hyper_timed_run (nested_core B U n) arm ev \<sigma>"
  shows "hyper_timed_run (nested_core (lawful B) U n) arm ev \<sigma>"
    and "hyper_timed_inv (nested_core (lawful B) U n) (sess_env B) arm bnd (\<sigma> 0)"
  using assms started_timed_inv [of B U n H opt own0 "\<sigma> 0" arm bnd] by (simp_all add: lawful_id)

text \<open>What a thread was notified of, in terms of the closures called.\<close>

lemma length_notified:
  "length (notified s th) = count (\<Sum>core\<leftarrow>rpc_core_vec s. answered core) (SyncDone th) +
     count (mset (map fst (outer_trace s))) (SyncDone th)"
proof -
  have ev: "length (List.map_filter (\<lambda>e. case e of EvDone f r \<Rightarrow> if f = x then Some r else None | _ \<Rightarrow> None) es) =
      count (sum_list (map ev_answered es)) x" for es :: "'u closure event list" and x
    by (induction es) (auto simp: map_filter_simps split: event.split)
  have out: "length (filter (\<lambda>p. fst p = x) ps) = count (mset (map fst ps)) x"
    for ps :: "('u closure \<times> Result) list" and x by (induction ps) auto
  have "length (concat (map (\<lambda>core. List.map_filter (\<lambda>e. case e of EvDone f r \<Rightarrow>
      if f = SyncDone th then Some r else None | _ \<Rightarrow> None) (trace core)) cores)) =
      count (\<Sum>core\<leftarrow>cores. answered core) (SyncDone th)" for cores
    by (induction cores) (simp_all add: ev answered_def)
  then show ?thesis by (simp add: notified_def out)
qed

section \<open>A synchronous call that nobody answers\<close>

lemma timed_idle: "worker s w \<Longrightarrow> hyper_timed_step C arm Happens s s"
  using ht_happens [OF hyper_write [of s w "\<lambda>_ _. True" C "msgs (rpc_core_vec s ! w)"], of arm] by (simp add: set_core_def)

text \<open>Runs that come to rest in a state without sessions.\<close>

lemma rest_expires:
  assumes "\<And>k. N \<le> k \<Longrightarrow> \<sigma> k = s" "length (rpc_core_vec (\<sigma> 0)) = length (rpc_core_vec s)"
    and "\<And>w i. worker s w \<Longrightarrow> i < length (sess_pool (rpc_core_vec s ! w)) \<Longrightarrow>
      rpc_id (sess_pool (rpc_core_vec s ! w) ! i) = 0"
  shows "all_timers_expire arm ev \<sigma>"
  unfolding all_timers_expire_def timers_expire_def
proof (intro allI impI)
  fix w k i :: nat and r :: u64
  assume "worker (\<sigma> 0) w" "r \<noteq> 0" and "\<forall>l\<ge>k. i < length (sess_pool (core_run \<sigma> w l)) \<and>
    rpc_id (sess_pool (core_run \<sigma> w l) ! i) = r \<and> arm (timerw (core_run \<sigma> w l)) (timer_owner (sess_pool (core_run \<sigma> w l) ! i)) i"
  with assms(1) [of "N + k"] assms(2,3) have False
    by (auto simp: worker_def dest!: spec [of _ "N + k"])
  then show "\<exists>l\<ge>k. expiry w (ev l) = Some i" ..
qed

lemma rest_served:
  assumes "\<And>k v. k \<le> N \<Longrightarrow> worker (xs 0) v \<Longrightarrow> queues (xs k) ! v \<noteq> [] \<Longrightarrow> \<exists>l. k \<le> l \<and> l < N \<and> e l = Takes v"
  shows "queues_served (\<lambda>k. if k < N then e k else Happens) (\<lambda>k. xs (min k N))"
  unfolding queues_served_def
proof (intro allI impI)
  fix k v assume "worker (xs (min 0 N)) v" "queues (xs (min k N)) ! v \<noteq> []"
  with assms [of "min k N" v] obtain l where "min k N \<le> l" "l < N" "e l = Takes v" by auto
  then show "\<exists>l\<ge>k. (if l < N then e l else Happens) = Takes v" by (intro exI [of _ l]) auto
qed

lemma resting_run:
  assumes steps: "\<And>k. k < N \<Longrightarrow> hyper_timed_step C arm (e k) (xs k) (xs (Suc k))"
    and len: "length (rpc_core_vec (xs 0)) = length (rpc_core_vec (xs N))" "worker (xs N) w"
    and free: "\<And>v i. worker (xs N) v \<Longrightarrow> i < length (sess_pool (rpc_core_vec (xs N) ! v)) \<Longrightarrow>
      rpc_id (sess_pool (rpc_core_vec (xs N) ! v) ! i) = 0"
    and taken: "\<And>k v. k \<le> N \<Longrightarrow> worker (xs 0) v \<Longrightarrow> queues (xs k) ! v \<noteq> [] \<Longrightarrow> \<exists>l. k \<le> l \<and> l < N \<and> e l = Takes v"
  defines "\<sigma> \<equiv> \<lambda>k. xs (min k N)" and "ev \<equiv> \<lambda>k. if k < N then e k else Happens"
  shows "hyper_timed_run C arm ev \<sigma>" "all_timers_expire arm ev \<sigma>" "queues_served ev \<sigma>"
proof -
  have "hyper_timed_step C arm (ev k) (\<sigma> k) (\<sigma> (Suc k))" for k
    using steps [of k] timed_idle [OF len(2)] by (cases "k < N") (simp_all add: \<sigma>_def ev_def)
  then show "hyper_timed_run C arm ev \<sigma>" by (simp add: hyper_timed_run_def)
  show "all_timers_expire arm ev \<sigma>"
    by (rule rest_expires [of N _ "xs N"]) (use len(1) free in \<open>simp_all add: \<sigma>_def\<close>)
  show "queues_served ev \<sigma>" unfolding \<sigma>_def ev_def using taken by (rule rest_served)
qed

text \<open>What a worker without sessions makes of a call whose request is lost.\<close>

lemma lost_call:
  fixes c :: "('own, 'tw, 'msg, 'd, 'z) core" and d :: 'd and rp :: msg_ptr
  assumes "core_inv k c" and free: "\<forall>i<length (sess_pool c). rpc_id (sess_pool c ! i) = 0"
    and "routing_acts U = Some f" "f (service_name m) (method_name m) (msgs c rq) c = (True, a # as, acts)"
    and "length as < 65536" and "\<And>rid. carries (pb B) (request_header m rid) (msgs c rq) b"
  defines "c1 \<equiv> CallMethod (idle_env B U) m rq rp d c"
  obtains i rid where "i < length (sess_pool c1)"
    "trace c1 = trace c @ [EvAdd d (Suc (length as)), EvSend m rq rid a]"
    "trace (OnTimer (idle_env B U) i c1) = trace c1 @ [EvDone d kTimeout]"
    "\<forall>j<length (sess_pool (OnTimer (idle_env B U) i c1)). rpc_id (sess_pool (OnTimer (idle_env B U) i c1) ! j) = 0"
proof -
  have inv: "mgr_inv k c" using assms(1) by (simp add: core_inv_def)
  have "0 < length (sess_pool c)" using mgr_invD(1) [OF inv] by (simp add: geometry_ok_def)
  with free have f0: "0 < length (sess_pool c)" "rpc_id (sess_pool c ! 0) = 0" by auto
  obtain i rid l tw own pkt where a: "i < length (sess_pool c)" "rpc_id (sess_pool c ! i) = 0"
    "core_part rid = Suc k" "ring_slot (pool_size_order c) rid = i" "el_wf l" "el_list l = a # as"
    "parse_packet (pb B) pkt = Some (request_header m rid, b)"
    "CallMethod (idle_env B U) m rq rp d c =
      c\<lparr>next_rpc_id := rid, timerw := tw,
        sess_pool := (sess_pool c)[i := filled m rq rp l d rid own (sess_pool c ! i)],
        trace := trace c @ [EvAdd d (Suc (length as)), EvSend m rq rid a],
        sent := sent c @ [(pkt, a, rid)]\<rparr>"
    by (rule client_call [OF inv f0 assms(3-6)])
  let ?n = "filled m rq rp l d rid own (sess_pool c ! i)" and ?c2 = "OnTimer (idle_env B U) i c1"
  have c1: "sess_pool c1 = (sess_pool c)[i := ?n]" "trace c1 = trace c @ [EvAdd d (Suc (length as)), EvSend m rq rid a]"
    using a(8) by (simp_all add: c1_def)
  have "rid \<noteq> 0" using a(3) by auto
  moreover have "node_done ?n = Some d" "rpc_id ?n = rid" by (simp_all add: filled_def)
  ultimately have c2: "sess_pool ?c2 = (sess_pool c)[i := freed own ?n]" "trace ?c2 = trace c1 @ [EvDone d kTimeout]"
    using a(1) c1
    by (simp_all add: OnTimer_def OnSessionTimeout_def node_at_def node_call_done_in invoke_done_def
        mgr_env_of_def user_env_def free_in)
      (simp add: filled_def)
  have "rpc_id ((sess_pool c)[i := freed own ?n] ! j) = 0" if "j < length (sess_pool c)" for j
    using free that by (cases "j = i") simp_all
  with a(1) c1 c2 show thesis by (intro that [of i rid]) simp_all
qed

lemma demo_lost_call:
  fixes c :: "nat closure demo_core_of" and f :: "nat closure"
  assumes "core_inv 1 c" "msgs c = (\<lambda>_. [1])" "trace c = []"
    and free: "\<forall>i<length (sess_pool c). rpc_id (sess_pool c ! i) = 0"
  defines "c1 \<equiv> CallMethod (demo_env_of True 0) demo_method 1 2 f c"
  obtains i where "i < length (sess_pool c1)" "dropped c1 = {#}"
    "dropped (OnTimer (demo_env_of True 0) i c1) = {#}"
    "\<forall>j<length (sess_pool (OnTimer (demo_env_of True 0) i c1)).
       rpc_id (sess_pool (OnTimer (demo_env_of True 0) i c1) ! j) = 0"
proof -
  obtain i rid where "i < length (sess_pool c1)" "trace c1 = [EvAdd f 2, EvSend demo_method 1 rid (1, 1)]"
    "trace (OnTimer (demo_env_of True 0) i c1) = trace c1 @ [EvDone f kTimeout]"
    "\<forall>j<length (sess_pool (OnTimer (demo_env_of True 0) i c1)).
       rpc_id (sess_pool (OnTimer (demo_env_of True 0) i c1) ! j) = 0"
    by (rule lost_call [OF assms(1) free, where U = demo_user_of and B = "demo_base_of True" and m = demo_method
          and rq = 1 and rp = 2 and a = "(1, 1)" and as = "[(2, 2)]" and b = "[1]" and d = f])
      (use assms(2,3) in \<open>auto simp: c1_def demo_user_of_def demo_base_of_def intro: demo_carries\<close>)
  then show thesis by (intro that [of i]) (simp_all add: dropped_def)
qed

text \<open>Thread 5 of the demo process makes a call, worker 1 takes it and sends a request, the timer of
  the session expires, and nothing else ever happens.\<close>

lemma demo_sync_run:
  obtains \<sigma> :: "nat \<Rightarrow> demo_hyper" and ev where
    "started (demo_env_of True 0) demo_hudp demo_options False (\<sigma> 0)"
    "hyper_timed_run (demo_env_of True 0) (\<lambda>tw own i. own) ev \<sigma>"
    "all_timers_expire (\<lambda>tw own i. own) ev \<sigma>" "queues_served ev \<sigma>"
    "handed (\<sigma> 1) = [SyncDone 5]" "outer_trace (\<sigma> 1) = []"
    "\<And>k core. core \<in> set (rpc_core_vec (\<sigma> k)) \<Longrightarrow> dropped core = {#}"
    "\<And>core. core \<in> set (rpc_core_vec (\<sigma> 1)) \<Longrightarrow> answered core = {#}"
proof -
  let ?C = "demo_env_of True 0"
  let ?arm = "\<lambda>(tw :: nat list) (own :: bool) (i :: nat). own"
  obtain s0 :: demo_hyper where start: "started ?C demo_hudp demo_options False s0"
    and reach: "hyper_reachable ?C demo_hudp demo_options s0"
    and s0: "length (rpc_core_vec s0) = 4" "queues s0 = replicate 4 []" "is_initialized s0"
      "handed s0 = []" "outer_trace s0 = []"
    and c: "\<And>w. w < 4 \<Longrightarrow> core_inv w (rpc_core_vec s0 ! w) \<and> msgs (rpc_core_vec s0 ! w) = (\<lambda>_. [1]) \<and>
       (\<forall>i<length (sess_pool (rpc_core_vec s0 ! w)). rpc_id (sess_pool (rpc_core_vec s0 ! w) ! i) = 0) \<and>
       sent (rpc_core_vec s0 ! w) = [] \<and> served (rpc_core_vec s0 ! w) = [] \<and> trace (rpc_core_vec s0 ! w) = []"
    by (rule demo_process) blast
  define c1 where "c1 = CallMethod ?C demo_method 1 2 (SyncDone 5) (rpc_core_vec s0 ! 1)"
  obtain i where i: "i < length (sess_pool c1)" "dropped c1 = {#}" "dropped (OnTimer ?C i c1) = {#}"
    "\<forall>j<length (sess_pool (OnTimer ?C i c1)). rpc_id (sess_pool (OnTimer ?C i c1) ! j) = 0"
    using demo_lost_call [of "rpc_core_vec s0 ! 1" "SyncDone 5" thesis] c [of 1] unfolding c1_def by simp
  have env: "core_env_of ?C s = ?C" if "hyper_reachable ?C demo_hudp demo_options s" for s :: demo_hyper
    using process.reachable_hyper_inv [of "demo_base_of True" demo_user_of 0 demo_hudp demo_options s] that
    by (simp add: lawful_id [OF demo_sizes] core_env_of_inv)
  define s1 where "s1 = snd (Impl_CallMethod ?C (Outside 5) (Some 1) demo_method 1 2 None s0)"
  define s2 where "s2 = run_task ?C 1 s1"
  define s3 where "s3 = set_core 1 (OnTimer (core_env_of ?C s2) i
    ((rpc_core_vec s2 ! 1)\<lparr>timerw := timerw (rpc_core_vec s2 ! 1)\<rparr>)) s2"
  have t0: "trace core = []" if "core \<in> set (rpc_core_vec s0)" for core
    using that c s0(1) by (auto simp: in_set_conv_nth)
  then have "notified s0 5 = []" by (simp add: notified_def s0(5) map_filter_simps)
  with s0 have e0: "hyper_event ?C s0 s1"
    unfolding s1_def by (intro hyper_call_out) (auto simp: worker_def idle_thread_def)
  have s1: "s1 = post 1 (CallTask demo_method 1 2 (SyncDone 5)) (s0\<lparr>handed := [SyncDone 5]\<rparr>)"
    using s0 by (simp add: s1_def Impl_CallMethod_def Let_def)
  have r1: "hyper_reachable ?C demo_hudp demo_options s1"
    using reach hyper_happens [OF e0] by (rule hyper_next)
  have w1: "worker s1 1" using s0 by (simp add: s1 post_def worker_def)
  have s2: "s2 = set_core 1 c1 (s1\<lparr>queues := (queues s1)[1 := []]\<rparr>)"
    using s0 env [OF r1] by (simp add: s2_def run_task_def s1 post_def c1_def)
  have "hyper_reachable ?C demo_hudp demo_options s2"
    unfolding s2_def by (rule hyper_next [OF r1 hyper_task [OF w1]])
  with s0(1) have s3: "s3 = set_core 1 (OnTimer ?C i c1) s2"
    unfolding s3_def by (simp only: env) (simp add: s2 s1 post_def set_core_def)
  have v2: "rpc_core_vec s2 = (rpc_core_vec s0)[1 := c1]"
    and v3: "rpc_core_vec s3 = (rpc_core_vec s0)[1 := OnTimer ?C i c1]"
    by (simp_all add: s3 s2 s1 post_def set_core_def)
  have w: "worker s2 1" "worker s3 1" using s0(1) by (simp_all add: worker_def v2 v3)
  define xs where "xs k = [s0, s1, s2, s3] ! k" for k
  define e where "e k = [Happens, Takes 1, Expires 1 i] ! k" for k
  have steps: "hyper_timed_step ?C ?arm (e k) (xs k) (xs (Suc k))" if "k < 3" for k
    using ht_happens [OF e0, of ?arm] ht_takes [OF w1, of ?C ?arm, folded s2_def] i(1) s0(1) that
      ht_expires [OF w(1), of i ?arm "timerw (rpc_core_vec s2 ! 1)" ?C, folded s3_def]
    by (auto simp: xs_def e_def v2 others_run_def less_Suc_eq numeral_eq_Suc)
  have rest: "rpc_id (sess_pool (rpc_core_vec (xs 3) ! v) ! j) = 0"
    if "worker (xs 3) v" "j < length (sess_pool (rpc_core_vec (xs 3) ! v))" for v j
    using that c [of v] i(4) s0(1) by (cases "v = 1") (simp_all add: xs_def v3 worker_def)
  have q: "queues (xs k) ! v = []" if "k \<le> 3" "v < 4" "k \<noteq> 1 \<or> v \<noteq> 1" for k v
  proof -
    from that(1) have "k = 0 \<or> k = 1 \<or> k = 2 \<or> k = 3" by auto
    then show ?thesis
      using that(2,3) by (elim disjE) (auto simp: xs_def s3 s2 s1 post_def set_core_def nth_list_update s0(2))
  qed
  have taken: "\<exists>l. k \<le> l \<and> l < 3 \<and> e l = Takes v" if "k \<le> 3" "worker (xs 0) v" "queues (xs k) ! v \<noteq> []" for k v
    using that q [of k v] s0(1) by (intro exI [of _ 1]) (auto simp: worker_def xs_def e_def)
  define \<sigma> ev where "\<sigma> = (\<lambda>k. xs (min k 3))" and "ev = (\<lambda>k. if k < 3 then e k else Happens)"
  have "length (rpc_core_vec (xs 0)) = length (rpc_core_vec (xs 3))" "worker (xs 3) 1"
    using w(2) by (simp_all add: xs_def v3)
  note run = resting_run [OF steps this rest taken, folded \<sigma>_def ev_def]
  have t: "core \<in> {c1, OnTimer ?C i c1} \<union> set (rpc_core_vec s0)" if "core \<in> set (rpc_core_vec (\<sigma> k))" for core k
    using that set_update_subset_insert [of "rpc_core_vec s0" 1]
    by (auto simp: \<sigma>_def xs_def v2 v3 s1 post_def nth_Cons' min_def split: if_splits)
  show thesis
  proof (rule that [of \<sigma> ev])
    show "started ?C demo_hudp demo_options False (\<sigma> 0)" using start by (simp add: \<sigma>_def xs_def)
    show "handed (\<sigma> 1) = [SyncDone 5]" "outer_trace (\<sigma> 1) = []"
      using s0(5) by (simp_all add: \<sigma>_def xs_def s1 post_def)
    show "dropped core = {#}" if "core \<in> set (rpc_core_vec (\<sigma> k))" for k core
      using t [OF that] t0 [of core] i(2,3) by (auto simp: dropped_def)
    show "answered core = {#}" if "core \<in> set (rpc_core_vec (\<sigma> 1))" for core
      using t0 that by (simp add: answered_def \<sigma>_def xs_def s1 post_def)
  qed (use run in simp_all)
qed

section \<open>Liveness of the process\<close>

text \<open>C12: every call of the process is answered. Take any run of a started process, with any
  interleaving of packets, send results, calls, answers of services and user code that calls
  back, in which timers that are neither reset nor cancelled expire and workers with queued
  tasks take one at some time: every closure that \<open>HyperRpc::CallMethod\<close> was given, on a worker
  or on any other thread, is called at some later point, by a worker or by the caller's
  thread, but for those whose route was too long.\<close>

theorem every_closure_is_called:
  assumes "sizes_agree (pb B)" and "wheel_laws (sess_env B) arm bnd" "\<not> has_timer (sess_env B) own0"
    and "started (nested_core B U depth) H opt own0 (\<sigma> 0)"
    and "hyper_timed_run (nested_core B U depth) arm ev \<sigma>"
    and "all_timers_expire arm ev \<sigma>" "queues_served ev \<sigma>"
  shows "\<exists>l\<ge>k. mset (handed (\<sigma> k)) \<subseteq>#
    (\<Sum>core\<leftarrow>rpc_core_vec (\<sigma> l). answered core + dropped core) + mset (map fst (outer_trace (\<sigma> k)))"
  by (rule process_timed.all_handed_called [OF assms(2) started_timed_run [OF assms(1,3-5)] assms(6,7)])

theorem every_closure_is_called_witness:
  "\<exists>(\<sigma> :: nat \<Rightarrow> demo_hyper) l core. handed (\<sigma> 1) = [SyncDone 5] \<and> outer_trace (\<sigma> 1) = [] \<and>
     core \<in> set (rpc_core_vec (\<sigma> l)) \<and> SyncDone 5 \<in># answered core"
proof -
  obtain \<sigma> :: "nat \<Rightarrow> demo_hyper" and ev where run:
    "started (demo_env_of True 0) demo_hudp demo_options False (\<sigma> 0)"
    "hyper_timed_run (demo_env_of True 0) (\<lambda>tw own i. own) ev \<sigma>"
    "all_timers_expire (\<lambda>tw own i. own) ev \<sigma>" "queues_served ev \<sigma>"
    and s: "handed (\<sigma> 1) = [SyncDone 5]" "outer_trace (\<sigma> 1) = []"
    and dropped: "\<And>k core. core \<in> set (rpc_core_vec (\<sigma> k)) \<Longrightarrow> dropped core = {#}"
    by (rule demo_sync_run) blast
  from every_closure_is_called [OF demo_sizes demo_wheel run, of 1] obtain l
    where "mset (handed (\<sigma> 1)) \<subseteq># (\<Sum>core\<leftarrow>rpc_core_vec (\<sigma> l). answered core + dropped core) +
      mset (map fst (outer_trace (\<sigma> 1)))" by blast
  then have "SyncDone 5 \<in># (\<Sum>core\<leftarrow>rpc_core_vec (\<sigma> l). answered core + dropped core)"
    by (simp add: s [unfolded One_nat_def])
  then obtain core where "core \<in> set (rpc_core_vec (\<sigma> l))" "SyncDone 5 \<in># answered core"
    using dropped [of _ l] by auto
  with s show ?thesis by blast
qed

text \<open>C13: every synchronous caller is notified. In such a run, if no route ever has more than 65536
  endpoints, a thread that has made \<open>n\<close> synchronous calls is notified of \<open>n\<close> results at some
  time: no caller waits for ever.\<close>

theorem synchronous_calls_return:
  assumes "sizes_agree (pb B)" and "wheel_laws (sess_env B) arm bnd" "\<not> has_timer (sess_env B) own0"
    and "started (nested_core B U depth) H opt own0 (\<sigma> 0)"
    and "hyper_timed_run (nested_core B U depth) arm ev \<sigma>"
    and "all_timers_expire arm ev \<sigma>" "queues_served ev \<sigma>"
    and "\<And>l core. core \<in> set (rpc_core_vec (\<sigma> l)) \<Longrightarrow> dropped core = {#}"
  shows "\<exists>l\<ge>k. count_list (handed (\<sigma> k)) (SyncDone th) \<le> length (notified (\<sigma> l) th)"
proof -
  note run = assms(2) started_timed_run [OF assms(1,3-5)]
  from process_timed.all_handed_called [OF run assms(6,7), of k] obtain l where l: "k \<le> l"
    "mset (handed (\<sigma> k)) \<subseteq># (\<Sum>core\<leftarrow>rpc_core_vec (\<sigma> l). answered core + dropped core) +
       mset (map fst (outer_trace (\<sigma> k)))" by blast
  have "(\<Sum>core\<leftarrow>rpc_core_vec (\<sigma> l). answered core + dropped core) =
      (\<Sum>core\<leftarrow>rpc_core_vec (\<sigma> l). answered core)"
    using assms(8) by (intro arg_cong [where f = sum_list] map_cong) simp_all
  moreover have "mset (map fst (outer_trace (\<sigma> k))) \<subseteq># mset (map fst (outer_trace (\<sigma> l)))"
    using process_timed.run_outer [OF run l(1)] by (auto simp: prefix_def)
  ultimately have "mset (handed (\<sigma> k)) \<subseteq># (\<Sum>core\<leftarrow>rpc_core_vec (\<sigma> l). answered core) +
      mset (map fst (outer_trace (\<sigma> l)))"
    using subset_mset.order_trans [OF l(2) subset_mset.add_left_mono] by simp
  from mset_subset_eq_count [OF this, of "SyncDone th"] l(1) show ?thesis
    by (intro exI [of _ l]) (simp add: length_notified count_mset)
qed

theorem synchronous_calls_return_witness:
  "\<exists>(\<sigma> :: nat \<Rightarrow> demo_hyper) l. notified (\<sigma> 1) 5 = [] \<and> notified (\<sigma> l) 5 \<noteq> []"
proof -
  obtain \<sigma> :: "nat \<Rightarrow> demo_hyper" and ev where run:
    "started (demo_env_of True 0) demo_hudp demo_options False (\<sigma> 0)"
    "hyper_timed_run (demo_env_of True 0) (\<lambda>tw own i. own) ev \<sigma>"
    "all_timers_expire (\<lambda>tw own i. own) ev \<sigma>" "queues_served ev \<sigma>"
    and s: "handed (\<sigma> 1) = [SyncDone 5]" "outer_trace (\<sigma> 1) = []"
    and dropped: "\<And>k core. core \<in> set (rpc_core_vec (\<sigma> k)) \<Longrightarrow> dropped core = {#}"
    and answered: "\<And>core. core \<in> set (rpc_core_vec (\<sigma> 1)) \<Longrightarrow> answered core = {#}"
    by (rule demo_sync_run) blast
  have "\<exists>l\<ge>1. count_list (handed (\<sigma> 1)) (SyncDone 5) \<le> length (notified (\<sigma> l) 5)"
    by (rule synchronous_calls_return [OF demo_sizes demo_wheel run]) (rule dropped)
  then obtain l where "count_list (handed (\<sigma> 1)) (SyncDone 5) \<le> length (notified (\<sigma> l) 5)" by blast
  moreover have "(\<Sum>core\<leftarrow>rpc_core_vec (\<sigma> 1). answered core) = {#}"
    using answered by (induction "rpc_core_vec (\<sigma> 1)") (simp_all cong: map_cong add: sum_list_eq_0_iff)
  then have "length (notified (\<sigma> 1) 5) = 0" by (simp add: length_notified s [unfolded One_nat_def])
  ultimately show ?thesis
    by (intro exI [of _ \<sigma>] exI [of _ l]) (auto simp: s [unfolded One_nat_def])
qed

end
