(* ===== verification/ProfileLiveness.thy ===== *)
theory ProfileLiveness
  imports ProfileProperties HyperLiveness
begin

text \<open>
  Infinite runs of the example client, with its worker under a timer wheel and its queue served:
  every message that the client allocates is deleted at some time.
\<close>

section \<open>Timed runs of the client\<close>

text \<open>What happens in the library while the program does not call it, with the labels of
  \<open>hyper_timed_step\<close>.\<close>

definition library_timed_step ::
  "('own, 'tw, 'msg, 'u closure, 'svc, 'sd, 'z) core_env \<Rightarrow> ('tw \<Rightarrow> 'own \<Rightarrow> nat \<Rightarrow> bool) \<Rightarrow> hyper_label \<Rightarrow>
   ('own, 'tw, 'msg, 'u, 'svc, 'z) hyper \<Rightarrow> ('own, 'tw, 'msg, 'u, 'svc, 'z) hyper \<Rightarrow> bool" where
  "library_timed_step C arm e s s' \<longleftrightarrow> hyper_timed_step C arm e s s' \<and> (e = Happens \<longrightarrow> library_step C s s')"

inductive client_timed_step ::
  "('own, 'tw, profile_done closure, 'z) profile_env \<Rightarrow> ProfileType cpp_helpers \<Rightarrow>
   ('tw \<Rightarrow> 'own \<Rightarrow> nat \<Rightarrow> bool) \<Rightarrow> hyper_label \<Rightarrow>
   ('own, 'tw, 'z) ClientProgram \<Rightarrow> ('own, 'tw, 'z) ClientProgram \<Rightarrow> bool"
  for C :: "('own, 'tw, profile_done closure, 'z) profile_env" and H :: "ProfileType cpp_helpers"
    and arm :: "'tw \<Rightarrow> 'own \<Rightarrow> nat \<Rightarrow> bool" where
  ct_library: "library_timed_step C arm e (client_rpc p) s' \<Longrightarrow> client_timed_step C H arm e p (library_did s' p)"
| ct_resets: "reporting p \<Longrightarrow> client_timed_step C H arm Happens p (client_reset p)"
| ct_round: "\<not> reporting p \<Longrightarrow> (\<And>w. accepted_by = Some w \<Longrightarrow> worker (client_rpc p) w) \<Longrightarrow>
     request \<notin> live p \<Longrightarrow> response \<notin> live p \<Longrightarrow> request \<noteq> response \<Longrightarrow>
     client_timed_step C H arm Happens p (client_loop C H token expired accepted_by request response p)"

definition client_timed_run ::
  "('own, 'tw, profile_done closure, 'z) profile_env \<Rightarrow> ProfileType cpp_helpers \<Rightarrow>
   ('tw \<Rightarrow> 'own \<Rightarrow> nat \<Rightarrow> bool) \<Rightarrow> (nat \<Rightarrow> hyper_label) \<Rightarrow> (nat \<Rightarrow> ('own, 'tw, 'z) ClientProgram) \<Rightarrow> bool" where
  "client_timed_run C H arm ev \<sigma> \<longleftrightarrow> (\<forall>k. client_timed_step C H arm (ev k) (\<sigma> k) (\<sigma> (Suc k)))"

text \<open>A client that has just started: no call made, no message allocated, no timer armed.\<close>

definition client_starting ::
  "('own, 'tw, profile_done closure, 'z) profile_env \<Rightarrow> ('b, 'h, 'log) HudpOptions \<Rightarrow> 'h Options \<Rightarrow> 'own \<Rightarrow>
   ('own, 'tw, 'z) ClientProgram \<Rightarrow> bool" where
  "client_starting C HU opt own0 p \<longleftrightarrow> (\<exists>G log new_core garbage rands udp_ok parsed.
     program_options HU G log 1 = Inr opt \<and> good_start C HU opt new_core rands \<and>
     on_find_service C = (\<lambda>_. None) \<and>
     StartProfileServiceClient C HU G log new_core garbage own0 rands udp_ok parsed = Some (Running p))"

lemma library_timed_handed:
  assumes "library_timed_step C arm e s s'"
  shows "handed s' = handed s"
proof (cases e)
  case Happens
  with assms show ?thesis by (auto simp: library_timed_step_def dest: library_step_handed)
next
  case (Takes w)
  with assms have "s' = run_task C w s" by (auto simp: library_timed_step_def elim: ht_takesE)
  then show ?thesis by (auto simp: run_task_def Let_def split: list.split task.split)
next
  case (Expires w i)
  with assms show ?thesis
    by (auto simp: library_timed_step_def elim: hyper_timed_step.cases)
qed

text \<open>What a step hands to the library: nothing, or the closure over two messages that were not live.\<close>

lemma client_timed_ok:
  assumes "client_timed_step (client_env B addr) H arm e p p'" and ok: "client_ok (client_env B addr) HU opt p"
    and sizes: "sizes_agree (pb B)" and H: "inj (SimpleItoa H)"
  shows "client_ok (client_env B addr) HU opt p'"
    and "handed (client_rpc p') = handed (client_rpc p) \<or>
      (\<exists>q r. q \<notin> live p \<and> r \<notin> live p \<and> handed (client_rpc p') = handed (client_rpc p) @ [User (q, r)])"
    and "worker (client_rpc p) 0 \<Longrightarrow> \<exists>m. hyper_timed_step (client_env B addr) arm e (client_rpc p) m \<and>
      hyper_timed_step (client_env B addr) arm Happens m (client_rpc p')"
proof -
  let ?C = "client_env B addr"
  have idle: "hyper_timed_step ?C arm Happens s s" if "worker s 0" for s
    using that by (rule timed_idle)
  have "client_ok ?C HU opt p' \<and> (handed (client_rpc p') = handed (client_rpc p) \<or>
      (\<exists>q r. q \<notin> live p \<and> r \<notin> live p \<and> handed (client_rpc p') = handed (client_rpc p) @ [User (q, r)])) \<and>
    (worker (client_rpc p) 0 \<longrightarrow> (\<exists>m. hyper_timed_step ?C arm e (client_rpc p) m \<and>
      hyper_timed_step ?C arm Happens m (client_rpc p')))"
    using assms(1)
  proof cases
    case (ct_library s')
    then have step: "hyper_timed_step ?C arm e (client_rpc p) s'" by (simp add: library_timed_step_def)
    note did = client_library_ok [OF ok sizes timed_hyper_steps [OF step] library_timed_handed [OF ct_library(2)]]
    have "worker s' 0" if "worker (client_rpc p) 0"
    proof -
      have "length (rpc_core_vec s') = length (rpc_core_vec (client_rpc p))"
        using client_steps [OF timed_hyper_steps [OF step] _ sizes, of HU opt] ok by (simp add: client_ok_def grows_def)
      with that show ?thesis by (simp add: worker_def)
    qed
    with ct_library(1) did step idle library_timed_handed [OF ct_library(2)] show ?thesis by auto
  next
    case ct_resets
    with client_reset_ok [OF ok] idle show ?thesis by (auto simp: client_reset_def)
  next
    case (ct_round w q r token expired)
    from client_loop_ok [OF ok sizes H ct_round(3,5-7,4)] ct_round(2) have ok': "client_ok ?C HU opt p'" by simp
    show ?thesis
    proof (cases token)
      case True
      from ok have reach: "hyper_reachable ?C HU opt (client_rpc p)" and books: "client_books p"
        by (simp_all add: client_ok_def)
      from True ct_round(2) have p': "p' = CallProfileService ?C H w q r (p\<lparr>call_count := call_count p + 1\<rparr>)"
        by (simp add: client_loop_def)
      note round = client_round_books(3,4) [where w = w, OF sizes reach books ct_round(3,5-7,4) GetProfile_stub [OF H], folded p']
      from round(2) idle have "\<exists>m. hyper_timed_step ?C arm Happens (client_rpc p) m \<and>
          hyper_timed_step ?C arm Happens m (client_rpc p')" if "worker (client_rpc p) 0"
        using that by (auto intro: ht_happens)
      with ok' round(1) ct_round(1,5,6) show ?thesis by blast
    next
      case False
      with ok' ct_round(1,2) idle show ?thesis by (auto simp: client_loop_def client_print_def)
    qed
  qed
  then show "client_ok ?C HU opt p'"
    and "handed (client_rpc p') = handed (client_rpc p) \<or>
      (\<exists>q r. q \<notin> live p \<and> r \<notin> live p \<and> handed (client_rpc p') = handed (client_rpc p) @ [User (q, r)])"
    and "worker (client_rpc p) 0 \<Longrightarrow> \<exists>m. hyper_timed_step ?C arm e (client_rpc p) m \<and>
      hyper_timed_step ?C arm Happens m (client_rpc p')" by blast+
qed

section \<open>The run of the process\<close>

text \<open>Each step of the program is two of its process: the step, or the writing of the messages and the
  call; or nothing.\<close>

lemma process_run:
  fixes \<sigma> :: "nat \<Rightarrow> ('own, 'tw, 'z) ClientProgram" and B :: "('own, 'tw, profile_done closure, 'z) profile_env"
  defines "ev' \<equiv> \<lambda>ev k. if even k then ev (k div 2) else Happens"
  assumes run: "client_timed_run (client_env B addr) H arm ev \<sigma>"
    and ok: "\<And>k. client_ok (client_env B addr) HU opt (\<sigma> k)" and "\<And>k. worker (client_rpc (\<sigma> k)) 0"
    and sizes: "sizes_agree (pb B)" and H: "inj (SimpleItoa H)"
    and expire: "all_timers_expire arm ev (\<lambda>k. client_rpc (\<sigma> k))" and served: "queues_served ev (\<lambda>k. client_rpc (\<sigma> k))"
  obtains \<tau> where "\<And>k. \<tau> (2 * k) = client_rpc (\<sigma> k)" "hyper_timed_run (client_env B addr) arm (ev' ev) \<tau>"
    "all_timers_expire arm (ev' ev) \<tau>" "queues_served (ev' ev) \<tau>"
proof -
  let ?C = "client_env B addr"
  have "\<exists>m. hyper_timed_step ?C arm (ev k) (client_rpc (\<sigma> k)) m \<and>
      hyper_timed_step ?C arm Happens m (client_rpc (\<sigma> (Suc k)))" for k
    using client_timed_ok(3) [OF _ ok sizes H] run assms(4) by (simp add: client_timed_run_def)
  then obtain mid where mid: "hyper_timed_step ?C arm (ev k) (client_rpc (\<sigma> k)) (mid k)"
    "hyper_timed_step ?C arm Happens (mid k) (client_rpc (\<sigma> (Suc k)))" for k by metis
  define \<tau> where "\<tau> k = (if even k then client_rpc (\<sigma> (k div 2)) else mid (k div 2))" for k
  have \<tau>: "\<tau> (2 * k) = client_rpc (\<sigma> k)" "\<tau> (Suc (2 * k)) = mid k" for k by (simp_all add: \<tau>_def)
  have ev: "ev' ev (2 * k) = ev k" "ev' ev (Suc (2 * k)) = Happens" for k by (simp_all add: ev'_def)
  have halves: "(\<And>j. k = 2 * j \<Longrightarrow> thesis) \<Longrightarrow> (\<And>j. k = Suc (2 * j) \<Longrightarrow> thesis) \<Longrightarrow> thesis" for k thesis
    by (cases "even k") (auto elim!: evenE oddE)
  have "hyper_timed_step ?C arm (ev' ev k) (\<tau> k) (\<tau> (Suc k))" for k
  proof (rule halves [of k])
    show ?thesis if "k = 2 * j" for j using mid(1) [of j] by (simp only: that \<tau> ev)
    show ?thesis if "k = Suc (2 * j)" for j
      using mid(2) [of j] \<tau>(1) [of "Suc j"] by (simp add: that \<tau> ev)
  qed
  then have run': "hyper_timed_run ?C arm (ev' ev) \<tau>" by (simp add: hyper_timed_run_def)
  have expire': "all_timers_expire arm (ev' ev) \<tau>"
    unfolding all_timers_expire_def timers_expire_def
  proof (intro allI impI)
    fix w k i and rid :: u64
    let ?held = "\<lambda>core. i < length (sess_pool core) \<and> rpc_id (sess_pool core ! i) = rid \<and>
      arm (timerw core) (timer_owner (sess_pool core ! i)) i"
    assume w: "worker (\<tau> 0) w" "rid \<noteq> 0" and held: "\<forall>l\<ge>k. ?held (core_run \<tau> w l)"
    have "?held (rpc_core_vec (client_rpc (\<sigma> l)) ! w)" if "k \<le> l" for l
      using held [rule_format, of "2 * l"] that by (simp add: \<tau>(1))
    moreover have "timers_expire arm (\<lambda>k. expiry w (ev k)) (\<lambda>k. rpc_core_vec (client_rpc (\<sigma> k)) ! w)"
      using expire w(1) \<tau>(1) [of 0] by (simp add: all_timers_expire_def)
    ultimately obtain l where "k \<le> l" "expiry w (ev l) = Some i"
      using w(2) unfolding timers_expire_def by blast
    then show "\<exists>l\<ge>k. expiry w (ev' ev l) = Some i" by (intro exI [of _ "2 * l"]) (simp add: ev)
  qed
  have "queues_served (ev' ev) \<tau>"
    unfolding queues_served_def
  proof (intro allI impI)
    fix k w assume w: "worker (\<tau> 0) w" and q: "queues (\<tau> k) ! w \<noteq> []"
    have "\<exists>j. k \<le> 2 * j \<and> queues (client_rpc (\<sigma> j)) ! w \<noteq> []"
    proof (rule halves [of k])
      show ?thesis if "k = 2 * j" for j using that q by (intro exI [of _ j]) (simp add: \<tau>)
      show ?thesis if "k = Suc (2 * j)" for j
        using happens_queues [OF mid(2), of j w] that q
        by (intro exI [of _ "Suc j"]) (auto simp: \<tau> prefix_def)
    qed
    then obtain j where j: "k \<le> 2 * j" "queues (client_rpc (\<sigma> j)) ! w \<noteq> []" by blast
    with served w \<tau>(1) [of 0] obtain l where "j \<le> l" "ev l = Takes w" by (auto simp: queues_served_def)
    with j(1) show "\<exists>l\<ge>k. ev' ev l = Takes w" by (intro exI [of _ "2 * l"]) (simp add: ev)
  qed
  with \<tau>(1) run' expire' show thesis by (rule that)
qed

section \<open>Every message is deleted\<close>

lemma client_starting_ok:
  assumes "client_starting (client_env B addr) HU opt own0 p" and "sizes_agree (pb B)"
  shows "started (client_env B addr) HU opt own0 (client_rpc p)" "client_ok (client_env B addr) HU opt p"
    "worker (client_rpc p) 0 \<longleftrightarrow> workers B \<noteq> 0"
proof -
  from assms(1) obtain G log new_core garbage rands udp_ok parsed where
    "program_options HU G log 1 = Inr opt" "good_start (client_env B addr) HU opt new_core rands"
    "on_find_service (client_env B addr) = (\<lambda>_. None)"
    "StartProfileServiceClient (client_env B addr) HU G log new_core garbage own0 rands udp_ok parsed = Some (Running p)"
    unfolding client_starting_def by blast
  note start = client_started [OF this]
  then show started: "started (client_env B addr) HU opt own0 (client_rpc p)" by simp
  from client_started_ok [OF this assms(2)] start show "client_ok (client_env B addr) HU opt p" by blast
  have "hyper_inv (client_env B addr) (client_rpc p)"
    using client_facts(1) [OF assms(2) started_reachable [OF started]] .
  moreover have "workers (client_env B addr) = workers B"
    by (simp add: client_env_def user_env_def profile_base_def with_services_def)
  ultimately show "worker (client_rpc p) 0 \<longleftrightarrow> workers B \<noteq> 0"
    by (simp add: hyper_inv_def worker_def unat_gt_0)
qed

lemma client_timed_run_ok:
  assumes "client_starting (client_env B addr) HU opt own0 (\<sigma> 0)" and sizes: "sizes_agree (pb B)"
    and run: "client_timed_run (client_env B addr) H arm ev \<sigma>" and "inj (SimpleItoa H)"
  shows "client_ok (client_env B addr) HU opt (\<sigma> k)" "worker (client_rpc (\<sigma> k)) 0 \<longleftrightarrow> workers B \<noteq> 0"
proof -
  show ok: "client_ok (client_env B addr) HU opt (\<sigma> k)" for k
  proof (induction k)
    case 0
    from client_starting_ok(2) [OF assms(1) sizes] show ?case .
  next
    case (Suc k)
    from run have "client_timed_step (client_env B addr) H arm (ev k) (\<sigma> k) (\<sigma> (Suc k))"
      by (simp add: client_timed_run_def)
    from client_timed_ok(1) [OF this Suc sizes assms(4)] show ?case .
  qed
  have "workers (client_env B addr) = workers B"
    by (simp add: client_env_def user_env_def profile_base_def with_services_def)
  then show "worker (client_rpc (\<sigma> k)) 0 \<longleftrightarrow> workers B \<noteq> 0"
    using client_facts(1) [OF sizes, of addr HU opt "client_rpc (\<sigma> k)"] ok [of k]
    by (simp add: client_ok_def hyper_inv_def worker_def unat_gt_0)
qed

text \<open>What was handed to the library is called later.\<close>

lemma client_closures_called:
  fixes \<sigma> :: "nat \<Rightarrow> ('own, 'tw, 'z) ClientProgram" and B :: "('own, 'tw, profile_done closure, 'z) profile_env"
  assumes sizes: "sizes_agree (pb B)" and H: "inj (SimpleItoa H)" and "workers B \<noteq> 0"
    and wheel: "wheel_laws (sess_env B) arm bnd" "\<not> has_timer (sess_env B) own0"
    and start: "client_starting (client_env B addr) HU opt own0 (\<sigma> 0)"
    and run: "client_timed_run (client_env B addr) H arm ev \<sigma>"
    and fair: "all_timers_expire arm ev (\<lambda>k. client_rpc (\<sigma> k))" "queues_served ev (\<lambda>k. client_rpc (\<sigma> k))"
  shows "\<exists>l\<ge>k. mset (handed (client_rpc (\<sigma> k))) \<subseteq># image_mset fst (all_called (client_rpc (\<sigma> l)))"
proof -
  let ?C = "client_env B addr"
  note ok = client_timed_run_ok [OF start sizes run H]
  have worker: "worker (client_rpc (\<sigma> m)) 0" for m using ok(2) assms(3) by simp
  let ?ev = "\<lambda>k. if even k then ev (k div 2) else Happens"
  obtain \<tau> where \<tau>: "\<And>k. \<tau> (2 * k) = client_rpc (\<sigma> k)" "hyper_timed_run ?C arm ?ev \<tau>"
    "all_timers_expire arm ?ev \<tau>" "queues_served ?ev \<tau>"
    by (rule process_run [OF run ok(1) worker sizes H fair]) blast
  have pb: "sizes_agree (pb (profile_base B))" "sess_env (profile_base B) = sess_env B"
    using sizes by (simp_all add: profile_base_def with_services_def)
  have started: "started ?C HU opt own0 (\<tau> 0)"
    using client_starting_ok(1) [OF start sizes] \<tau>(1) [of 0] by simp
  have reach: "hyper_reachable ?C HU opt (\<tau> m)" for m
    by (rule timed_run_reachable [OF \<tau>(2) started_reachable [OF started]])
  have grow: "grows (\<tau> m) (\<tau> n)" if "m \<le> n" for m n
    using that
  proof (induction n rule: dec_induct)
    case (step n)
    have "hyper_timed_step ?C arm (?ev n) (\<tau> n) (\<tau> (Suc n))" using \<tau>(2) by (simp only: hyper_timed_run_def)
    from client_steps [OF timed_hyper_steps [OF this] reach sizes] step show ?case by (blast intro: grows_trans)
  qed (rule grows_refl)
  note timed = started_timed_run [OF pb(1) _ started [unfolded client_env_def] \<tau>(2) [unfolded client_env_def],
    unfolded pb(2), OF wheel(2)]
  from process_timed.all_handed_called [OF wheel(1) [folded pb(2)] timed [folded pb(2)] \<tau>(3,4), of "2 * k"]
  obtain l where l: "2 * k \<le> l" "mset (handed (\<tau> (2 * k))) \<subseteq>#
    (\<Sum>core\<leftarrow>rpc_core_vec (\<tau> l). answered core + dropped core) + mset (map fst (outer_trace (\<tau> (2 * k))))" by blast
  have "dropped core = {#}" if "core \<in> set (rpc_core_vec (\<tau> l))" for core
    using reachable_no_drops [OF pb(1) client_quiet _ reach [unfolded client_env_def] that] by simp
  then have "(\<Sum>core\<leftarrow>rpc_core_vec (\<tau> l). answered core + dropped core) = (\<Sum>core\<leftarrow>rpc_core_vec (\<tau> l). answered core)"
    by (intro arg_cong [where f = sum_list] map_cong) simp_all
  moreover have "mset (map fst (outer_trace (\<tau> (2 * k)))) \<subseteq># mset (map fst (outer_trace (\<tau> l)))"
    using grow [OF l(1)] by (auto simp: grows_def prefix_def)
  ultimately have "mset (handed (\<tau> (2 * k))) \<subseteq># image_mset fst (all_called (\<tau> l))"
    using subset_mset.order_trans [OF l(2) subset_mset.add_left_mono] by (simp add: called_parts)
  moreover have "image_mset fst (all_called (\<tau> l)) \<subseteq># image_mset fst (all_called (\<tau> (2 * l)))"
    using calls_between_all [OF grow [of l "2 * l"]] by simp
  ultimately have "mset (handed (client_rpc (\<sigma> k))) \<subseteq># image_mset fst (all_called (client_rpc (\<sigma> l)))"
    unfolding \<tau>(1) by (rule subset_mset.order_trans)
  moreover have "k \<le> l" using l(1) by simp
  ultimately show ?thesis by blast
qed

text \<open>While a message is live, no further closure captures it.\<close>

lemma capturing_constant:
  assumes run: "client_timed_run (client_env B addr) H arm ev \<sigma>"
    and ok: "\<And>k. client_ok (client_env B addr) HU opt (\<sigma> k)"
    and sizes: "sizes_agree (pb B)" "inj (SimpleItoa H)"
    and live: "\<And>l. k \<le> l \<Longrightarrow> x \<in> live (\<sigma> l)" and "k \<le> l"
  shows "filter (\<lambda>f. x \<in># captured f) (handed (client_rpc (\<sigma> l))) =
    filter (\<lambda>f. x \<in># captured f) (handed (client_rpc (\<sigma> k)))"
  using \<open>k \<le> l\<close>
proof (induction l rule: dec_induct)
  case (step l)
  have "client_timed_step (client_env B addr) H arm (ev l) (\<sigma> l) (\<sigma> (Suc l))"
    using run by (simp add: client_timed_run_def)
  from client_timed_ok(2) [OF this ok sizes] step.IH live [OF step.hyps(1)] show ?case by auto
qed simp

text \<open>A client whose one call is lost: a round, the worker takes the task, the timer of its session
  expires, and nothing else happens. First the states up to the worker's step.\<close>

lemma demo_lost_round:
  fixes p0 :: "(bool, nat list, unit) ClientProgram"
  defines "p1 \<equiv> client_loop demo_client_env profile_helpers True False (Some 0) 1 2 p0"
  assumes start: "started demo_client_env demo_hudp demo_client_options False (client_rpc p0)"
    and p0: "live p0 = {}"
  obtains core1 i s2 where "worker (client_rpc p0) 0" "length (rpc_core_vec (client_rpc p0)) = 1"
    "queues (client_rpc p0) = [[]]" "live p1 = {1, 2}" "worker (client_rpc p1) 0"
    "s2 = run_task demo_client_env 0 (client_rpc p1)" "core_env_of demo_client_env s2 = demo_client_env"
    "rpc_core_vec s2 = [core1]" "queues s2 = [[]]" "i < length (sess_pool core1)"
    "\<forall>j<length (sess_pool (OnTimer demo_client_env i core1)). rpc_id (sess_pool (OnTimer demo_client_env i core1) ! j) = 0"
proof -
  let ?C = "demo_client_env :: (bool, nat list, profile_done closure, unit) profile_env"
  have sizes: "sizes_agree (pb (profile_demo n svcs))" for n svcs by (simp add: profile_demo_def)
  let ?s0 = "client_rpc p0" and ?m = GetProfile_method and ?d = "User (1, 2) :: profile_done closure"
  have inv: "hyper_inv ?C ?s0" by (rule client_facts(1) [OF sizes started_reachable [OF start]])
  have one: "length (rpc_core_vec ?s0) = 1" "length (queues ?s0) = 1" "is_initialized ?s0"
    using inv by (simp_all add: hyper_inv_def client_env_def user_env_def profile_demo_def)
  then have w: "worker ?s0 0" by (simp add: worker_def)
  have "sizes_agree (pb (profile_base (profile_demo n svcs)))" for n svcs by (simp add: profile_demo_def)
  note env = nested_env_of [OF this started_reachable [OF start, unfolded client_env_def], folded client_env_def]
  define core where "core = (rpc_core_vec ?s0 ! 0)\<lparr>msgs := (msgs (rpc_core_vec ?s0 ! 0))
    (1 := set_user_id 123 (default_of ProfileRequestType), 2 := default_of ProfileResponseType)\<rparr>"
  define core1 where "core1 = RpcCore.CallMethod ?C ?m 1 2 ?d core"
  have pool: "core_inv 0 core" "\<forall>i<length (sess_pool core). rpc_id (sess_pool core ! i) = 0"
    using started_idle(4) [OF start w] env(2) [OF w] by (simp_all add: core_def core_inv_def)
  have "carries (pb (profile_demo 1 (\<lambda>_. None) :: (bool, nat list, profile_done closure, unit) profile_env))
      (request_header ?m rid) (ProfileRequest 123) (encode (ProfileRequest 123))" for rid
    using one_method_carries(1) [where encode = encode and meth = ?m and m = "ProfileRequest 123"]
    by (simp add: profile_demo_def length_id_bytes)
  moreover have C: "idle_env (profile_base (profile_demo 1 (\<lambda>_. None))) (client_user (1, 1)) = ?C"
    by (simp add: client_env_def)
  ultimately obtain i rid where i: "i < length (sess_pool core1)"
    "trace core1 = trace core @ [EvAdd ?d (Suc (length ([] :: Addr list))), EvSend ?m 1 rid (1, 1)]"
    "\<forall>j<length (sess_pool (OnTimer ?C i core1)). rpc_id (sess_pool (OnTimer ?C i core1) ! j) = 0"
    using lost_call [OF pool, where U = "client_user (1, 1)" and B = "profile_base (profile_demo 1 (\<lambda>_. None))"
        and m = ?m and rq = 1 and rp = 2 and a = "(1, 1)" and as = "[]" and b = "encode (ProfileRequest 123)" and d = ?d
        and f = "OnServiceRouting (1, 1)" and acts = "[]" and thesis = thesis, unfolded C, folded core1_def]
    by (auto simp: core_def client_user_def OnServiceRouting_def)
  let ?q = "p0\<lparr>call_count := call_count p0 + 1\<rparr>"
  have p1': "p1 = CallProfileService ?C profile_helpers (Some 0) 1 2 ?q" by (simp add: p1_def client_loop_def)
  have "\<exists>s1 s2. p1 = ?q\<lparr>client_rpc := s1, live := insert 1 (insert 2 (live ?q))\<rparr> \<and>
      library_did (run_task ?C 0 s1) p1 = ?q\<lparr>client_rpc := s2, live := insert 1 (insert 2 (live ?q))\<rparr> \<and>
      rpc_core_vec s2 = (rpc_core_vec ?s0)[0 := core1] \<and> core_env_of ?C s2 = ?C \<and> outer_trace s2 = outer_trace ?s0 \<and>
      worker s1 = worker ?s0 \<and> s2 = run_task ?C 0 s1 \<and> queues s2 = (queues ?s0)[0 := []]"
    unfolding p1' core1_def
    by (rule client_calls [OF w one(3) started_idle(1) [OF start w] _ GetProfile_stub [OF profile_helpers_ok(1)] env(1) core_def
          _ i(2) [unfolded core1_def]]) (simp_all add: one(2) done_events_def map_filter_simps)
  then obtain s1 s2 where s1: "client_rpc p1 = s1" "worker s1 0" "live p1 = {1, 2}"
    and s2: "rpc_core_vec s2 = (rpc_core_vec ?s0)[0 := core1]" "core_env_of ?C s2 = ?C" "s2 = run_task ?C 0 s1"
      "queues s2 = (queues ?s0)[0 := []]"
    using w by (auto simp: p0)
  moreover have "queues ?s0 = [[]]"
    using one(2) started_idle(1) [OF start w] by (cases "queues ?s0") simp_all
  moreover have "(rpc_core_vec ?s0)[0 := core1] = [core1]" using one(1) by (cases "rpc_core_vec ?s0") simp_all
  ultimately show thesis using w one(1) i(1,3) by (intro that [of s2 core1 i]) simp_all
qed

lemma demo_client_run:
  obtains \<sigma> :: "nat \<Rightarrow> (bool, nat list, unit) ClientProgram" and ev where
    "client_starting demo_client_env demo_hudp demo_client_options False (\<sigma> 0)"
    "client_timed_run demo_client_env profile_helpers (\<lambda>tw own i. own) ev \<sigma>"
    "all_timers_expire (\<lambda>tw own i. own) ev (\<lambda>k. client_rpc (\<sigma> k))"
    "queues_served ev (\<lambda>k. client_rpc (\<sigma> k))" "1 \<in> live (\<sigma> 1)"
proof -
  let ?C = "demo_client_env :: (bool, nat list, profile_done closure, unit) profile_env"
  let ?arm = "\<lambda>(tw :: nat list) (own :: bool) (i :: nat). own"
  obtain p0 where start: "started ?C demo_hudp demo_client_options False (client_rpc p0)"
    and p0: "live p0 = {}" "\<not> reporting p0"
      "StartProfileServiceClient ?C demo_hudp no_flags () (\<lambda>_. profile_blank) (\<lambda>_. undefined) False
        (\<lambda>_. 0) True (True, (1, 1)) = Some (Running p0)" by (rule demo_client)
  have starting: "client_starting ?C demo_hudp demo_client_options False p0"
    unfolding client_starting_def using profile_options [of 1, simplified] demo_client_facts p0(3) by blast
  define p1 where "p1 = client_loop ?C profile_helpers True False (Some 0) 1 2 p0"
  obtain core1 i s2 where w: "worker (client_rpc p0) 0" and one: "length (rpc_core_vec (client_rpc p0)) = 1"
    and p1: "queues (client_rpc p0) = [[]]" "live p1 = {1, 2}" "worker (client_rpc p1) 0"
    and s2: "s2 = run_task ?C 0 (client_rpc p1)" "core_env_of ?C s2 = ?C" "rpc_core_vec s2 = [core1]" "queues s2 = [[]]"
    and i: "i < length (sess_pool core1)"
      "\<forall>j<length (sess_pool (OnTimer ?C i core1)). rpc_id (sess_pool (OnTimer ?C i core1) ! j) = 0"
    by (rule demo_lost_round [OF start p0(1), folded p1_def])
  define s3 where "s3 = set_core 0 (OnTimer (core_env_of ?C s2) i
    ((rpc_core_vec s2 ! 0)\<lparr>timerw := timerw (rpc_core_vec s2 ! 0)\<rparr>)) s2"
  define p2 p3 where "p2 = library_did s2 p1" and "p3 = library_did s3 p2"
  have p: "client_rpc p2 = s2" "client_rpc p3 = s3" by (simp_all add: p2_def p3_def library_did_def)
  have s3: "rpc_core_vec s3 = [OnTimer ?C i core1]" "queues s3 = [[]]"
    by (simp_all add: s3_def s2(2,3)) (simp_all add: set_core_def s2(3,4))
  have w2: "worker s2 0" "worker s3 0" by (simp_all add: worker_def s2(3) s3)
  define xs e where "xs k = [p0, p1, p2, p3] ! k" and "e k = [Happens, Takes 0, Expires 0 i] ! k" for k
  define \<sigma> ev where "\<sigma> = (\<lambda>k. xs (min k 3))" and "ev = (\<lambda>k. if k < 3 then e k else Happens)"
  show thesis
  proof (rule that [of \<sigma> ev])
    show "client_starting ?C demo_hudp demo_client_options False (\<sigma> 0)" using starting by (simp add: \<sigma>_def xs_def)
    show "1 \<in> live (\<sigma> 1)" using p1(2) by (simp add: \<sigma>_def xs_def)
    have "client_timed_step ?C profile_helpers ?arm Happens p0 p1"
      unfolding p1_def by (rule ct_round) (use p0 w in simp_all)
    moreover have "client_timed_step ?C profile_helpers ?arm (Takes 0) p1 p2"
      unfolding p2_def by (rule ct_library) (simp add: library_timed_step_def s2(1) ht_takes [OF p1(3)])
    moreover have "hyper_timed_step ?C ?arm (Expires 0 i) s2 s3"
      unfolding s3_def by (rule ht_expires [OF w2(1)]) (simp_all add: i(1) s2(3) others_run_def)
    then have "client_timed_step ?C profile_helpers ?arm (Expires 0 i) p2 p3"
      unfolding p3_def by (intro ct_library) (simp add: library_timed_step_def p)
    moreover have "client_timed_step ?C profile_helpers ?arm Happens p3 p3"
    proof -
      have "library_step ?C s3 s3" using lib_pass [OF w2(2), of ?C "timerw (rpc_core_vec s3 ! 0)"] by (simp add: set_core_def)
      with timed_idle [OF w2(2)] have "library_timed_step ?C ?arm Happens (client_rpc p3) s3"
        by (simp add: library_timed_step_def p)
      moreover have "library_did s3 p3 = p3"
        by (simp add: library_did_def p calls_between_none)
      ultimately show ?thesis using ct_library by metis
    qed
    ultimately show "client_timed_run ?C profile_helpers ?arm ev \<sigma>"
      by (auto simp: client_timed_run_def \<sigma>_def ev_def xs_def e_def min_def less_Suc_eq numeral_eq_Suc le_Suc_eq)
    show "all_timers_expire ?arm ev (\<lambda>k. client_rpc (\<sigma> k))"
      by (rule rest_expires [of 3 _ s3]) (use i(2) one in \<open>auto simp: \<sigma>_def xs_def p s3 worker_def\<close>)
    show "queues_served ev (\<lambda>k. client_rpc (\<sigma> k))"
      unfolding ev_def \<sigma>_def
    proof (rule rest_served [of 3 "\<lambda>k. client_rpc (xs k)" e])
      fix k v assume "k \<le> 3" "worker (client_rpc (xs 0)) v" "queues (client_rpc (xs k)) ! v \<noteq> []"
      then show "\<exists>l. k \<le> l \<and> l < 3 \<and> e l = Takes v"
        using one by (intro exI [of _ 1]) (auto simp: xs_def e_def p p1(1) s2(4) s3(2) worker_def less_Suc_eq numeral_eq_Suc le_Suc_eq)
    qed
  qed
qed

text \<open>C14: the client frees every message. Take any run of a client program that has started, with a
  worker, in which packets, send results, rounds of the loop and the timer interleave in any
  way, timers that are neither reset nor cancelled expire, and the worker takes a queued task at
  some time: a message that the client has allocated is deleted at some later time, whatever
  becomes of its call.\<close>

theorem client_frees_every_message:
  fixes \<sigma> :: "nat \<Rightarrow> ('own, 'tw, 'z) ClientProgram" and B :: "('own, 'tw, profile_done closure, 'z) profile_env"
  assumes "sizes_agree (pb B)" and "inj (SimpleItoa H)" and "workers B \<noteq> 0"
    and "wheel_laws (sess_env B) arm bnd" "\<not> has_timer (sess_env B) own0"
    and "client_starting (client_env B addr) HU opt own0 (\<sigma> 0)"
    and "client_timed_run (client_env B addr) H arm ev \<sigma>"
    and "all_timers_expire arm ev (\<lambda>k. client_rpc (\<sigma> k))" "queues_served ev (\<lambda>k. client_rpc (\<sigma> k))"
    and "x \<in> live (\<sigma> k)"
  shows "\<exists>l>k. x \<notin> live (\<sigma> l)"
proof (rule ccontr)
  assume "\<not> (\<exists>l>k. x \<notin> live (\<sigma> l))"
  with assms(10) have live: "x \<in> live (\<sigma> l)" if "k \<le> l" for l
    using that by (cases "l = k") auto
  note ok = client_timed_run_ok(1) [OF assms(6,1,7,2)]
  from client_closures_called [OF assms(1-9), of k] obtain l where l: "k \<le> l"
    "mset (handed (client_rpc (\<sigma> k))) \<subseteq># image_mset fst (all_called (client_rpc (\<sigma> l)))" by blast
  let ?P = "\<lambda>f. x \<in># captured f"
  have "mset (handed (client_rpc (\<sigma> l))) =
      image_mset fst (all_called (client_rpc (\<sigma> l))) + waiting (client_rpc (\<sigma> l))"
    using client_exact [OF assms(1), of addr HU opt "client_rpc (\<sigma> l)"] ok [of l] by (simp add: client_ok_def)
  then have "filter_mset ?P (mset (handed (client_rpc (\<sigma> l)))) =
      filter_mset ?P (image_mset fst (all_called (client_rpc (\<sigma> l)))) + filter_mset ?P (waiting (client_rpc (\<sigma> l)))"
    by simp
  moreover have "filter_mset ?P (mset (handed (client_rpc (\<sigma> l)))) \<subseteq>#
      filter_mset ?P (image_mset fst (all_called (client_rpc (\<sigma> l))))"
    using multiset_filter_mono [OF l(2), of ?P] capturing_constant [OF assms(7) ok assms(1,2) live l(1)]
    by (simp flip: mset_filter)
  ultimately have none: "filter_mset ?P (waiting (client_rpc (\<sigma> l))) = {#}"
    by (metis add.right_neutral mset_subset_eq_add_left subset_mset.antisym union_left_cancel)
  have "\<not> ?P f" if "f \<in># waiting (client_rpc (\<sigma> l))" for f
  proof
    assume "?P f"
    with that have "f \<in># filter_mset ?P (waiting (client_rpc (\<sigma> l)))" by simp
    then show False unfolding none by simp
  qed
  then have "x \<notin># captured_by (waiting (client_rpc (\<sigma> l)))"
    by (auto simp: captured_by_def)
  moreover have "captured_by (waiting (client_rpc (\<sigma> l))) = mset_set (live (\<sigma> l))" "finite (live (\<sigma> l))"
    using ok [of l] by (simp_all add: client_ok_def client_books_def)
  ultimately show False using live [OF l(1)] by simp
qed

theorem client_frees_every_message_witness:
  "\<exists>(\<sigma> :: nat \<Rightarrow> (bool, nat list, unit) ClientProgram) l. 1 \<in> live (\<sigma> 1) \<and> 1 \<notin> live (\<sigma> l)"
proof -
  obtain \<sigma> :: "nat \<Rightarrow> (bool, nat list, unit) ClientProgram" and ev where run:
    "client_starting demo_client_env demo_hudp demo_client_options False (\<sigma> 0)"
    "client_timed_run demo_client_env profile_helpers (\<lambda>tw own i. own) ev \<sigma>"
    "all_timers_expire (\<lambda>tw own i. own) ev (\<lambda>k. client_rpc (\<sigma> k))"
    "queues_served ev (\<lambda>k. client_rpc (\<sigma> k))" "1 \<in> live (\<sigma> 1)" by (rule demo_client_run) blast
  have wheel: "wheel_laws (sess_env (profile_demo 1 (\<lambda>_. None))) (\<lambda>tw own i. own) (\<lambda>own i. True)"
    "\<not> has_timer (sess_env (profile_demo 1 (\<lambda>_. None))) False"
    by (auto simp: wheel_laws_def profile_demo_def others_run_def)
  have "sizes_agree (pb (profile_demo 1 (\<lambda>_. None)))" "workers (profile_demo 1 (\<lambda>_. None)) \<noteq> 0"
    by (simp_all add: profile_demo_def)
  from client_frees_every_message [OF this(1) profile_helpers_ok(1) this(2) wheel run] run(5)
  show ?thesis by blast
qed

end
