(* ===== verification/Spec2Isabelle.thy ===== *)
theory Spec2Isabelle
  imports EndpointHeap SessionProperties NetworkCredit PacketProperties OptionsProperties ProfileLiveness
begin

text \<open>
  A verification of hyperrpc, an RPC library over HyperUdp (reliable datagrams), protobuf
  (messages and descriptors) and ccbase (worker threads, timer wheels, closures), and of its
  protoc plugin. Paths are relative to the repository's root; file names alone are in \<^verbatim>\<open>src/hyperrpc\<close>.

  \<^bold>\<open>The program.\<close> A client calls \<open>HyperRpc::CallMethod\<close> from any thread. The call becomes a task of
  a worker (or runs at once on a worker's own thread); the worker's \<open>RpcCore\<close> asks the user's
  routing closure for endpoints, opens a session in its \<open>RpcSessionManager\<close> (a fixed pool with
  an open-addressed table, a timer for each session) and sends a request packet to the first
  endpoint. Send failures try the next endpoint; a response, the timer or the last failure
  calls the caller's closure and frees the session. A server's \<open>RpcCore\<close> parses a request,
  makes a context with its messages, runs the service and sends the response when the service
  calls \<open>done\<close>. Packets and send failures that reach a worker that does not own the session are
  redirected to the queue of the owner.

  \<^bold>\<open>Theories and code.\<close>
  \<^item> \<open>Prelude\<close>: machine integers, raw arrays with checked accesses, loops that may fail,
    powers of two, sums over updated lists; the collection \<open>buffer_simps\<close>.
  \<^item> \<open>EndpointList\<close>, \<open>EndpointHeap\<close> (\<^verbatim>\<open>src/hyperrpc/endpoint_list.{h,cc}\<close>): the list of endpoints, first
    on values (three inline cells, a doubling heap array), which the other theories use, then
    with object and array addresses, an allocator and deletion. \<open>el_list\<close> reads a list as a HOL
    list, \<open>view\<close> an object in memory as a value; \<open>models\<close> relates a memory to mathematical lists.
  \<^item> \<open>Common\<close> (\<^verbatim>\<open>constants.h\<close>, \<open>Result\<close> of \<^verbatim>\<open>hyperrpc.h\<close>): result codes and constants.
  \<^item> \<open>Options\<close>, \<open>OptionsProperties\<close> (\<^verbatim>\<open>options.{h,cc}\<close>, \<open>OptionsBuilder\<close>): the setters, whose exceptions
    are \<open>Inl\<close>, the command-line overrides, \<open>Build\<close>, and the size of a worker's session pool.
  \<^item> \<open>SessionManager\<close> (\<^verbatim>\<open>rpc_session_manager.{h,cc}\<close>): every operation. The record \<open>RpcSessionManager\<close>
    has the class's members, and ghost fields: \<open>trace\<close>, the closures given, the sends and the
    closures called, in order, and \<open>fault\<close>, raised by an access outside the pool or a null closure.
    \<open>SessionIds\<close>, \<open>SessionAlloc\<close>, \<open>SessionInvariant\<close>, \<open>SessionOps\<close>: the arithmetic of ids and
    slots, what allocation and lookup compute, the invariant \<open>mgr_inv\<close>. \<open>SessionContract\<close>, \<open>SessionRuns\<close>,
    \<open>SessionTimers\<close>: what is asked of closures that call back, runs and reachable states, and armed
    timers. \<open>SessionBehaviour\<close>, \<open>SessionProperties\<close>: each branch in closed form, and the theorems.
  \<^item> \<open>Packet\<close>, \<open>PacketProperties\<close> (\<^verbatim>\<open>protocol.h\<close>, \<^verbatim>\<open>rpc_message.proto\<close>, the packet code of \<^verbatim>\<open>rpc_core.cc\<close>):
    the packed header in network byte order, building and parsing.
  \<^item> \<open>RpcContext\<close> (\<^verbatim>\<open>rpc_context.{h,cc}\<close>): contexts of incoming calls and who owns their messages.
  \<^item> \<open>RpcCore\<close> (\<^verbatim>\<open>rpc_core.{h,cc}\<close>, \<^verbatim>\<open>route_info_builder.{h,cc}\<close>): every handler of a worker; ghost
    fields \<open>sent\<close>, \<open>served\<close> and \<open>core_fault\<close>. \<open>CoreContract\<close>, \<open>CoreOps\<close>, \<open>CoreRuns\<close>, \<open>CoreBehaviour\<close>,
    \<open>CoreProperties\<close>, \<open>CoreTimers\<close>, \<open>CoreLiveness\<close> repeat the structure above one level up; \<open>CoreFrame\<close> has
    what a worker keeps of the packets it sent and of where its contexts came from.
  \<^item> \<open>HyperRpc\<close> (\<open>HyperRpc::Impl\<close> of \<^verbatim>\<open>hyperrpc.cc\<close>): start, redirection, queues, calls from workers and
    other threads. \<open>HyperRuns\<close>, \<open>HyperProperties\<close>, \<open>HyperLiveness\<close>: the process with its workers
    interleaved. \<open>HyperApi\<close> (\<^verbatim>\<open>env.{h,cc}\<close>, the class \<open>HyperRpc\<close>): sequences of public calls.
    \<open>HyperFrame\<close>: what every worker keeps is kept by the process. \<open>Network\<close>: several processes, each
    with an address, that exchange packets. \<open>CoreCredit\<close>, \<open>NetworkCredit\<close>: what closures are
    called with. \<open>CoreBooks\<close>, \<open>HyperBooks\<close>: exact accounting for user code that makes no calls.
  \<^item> \<open>Compiler\<close>, \<open>CompilerProperties\<close> (\<^verbatim>\<open>compiler/cpp_{service,file,generator}.{h,cc}\<close>, \<^verbatim>\<open>cpp_plugin.cc\<close>): each generating
    function as the sequence of \<open>io::Printer\<close> calls it makes, with the templates of the source.
  \<^item> \<open>GeneratedService\<close> (\<^verbatim>\<open>service.h\<close>): the interface of services, and what a generated class does when it
    runs: the switch takes the printed case of the method's index.
  \<^item> \<open>ProfileExample\<close>, \<open>ProfileRuns\<close>, \<open>ProfileProperties\<close>, \<open>ProfileLiveness\<close> (\<^verbatim>\<open>example\<close>): the two programs on top of the
    library, with their counters and the messages the client allocates and deletes. User code
    that touches only the program's data runs after the step of the library that called it;
    \<open>calls_between\<close> reads from the traces which closures a step called.

  \<^bold>\<open>Code of others.\<close> What is not in the repository is a parameter: the timer wheel, protobuf's
  parsing and serialising, HyperUdp's sending and options, the descriptors' naming helpers, the
  user's services, routing and closures. \<open>SessionEnv\<close> and \<open>CoreEnv\<close> collect them; functions that
  run user code are state transformers, so they may call back into the worker. Hypotheses on
  them are \<open>sizes_agree\<close> (\<open>ByteSize\<close> is the length of what is serialised), \<open>carries\<close> and \<open>carries_profile\<close> (protobuf
  parses what it serialised), \<open>parse_sound\<close> (it never parses a serialised header as another one), \<open>wheel_laws\<close> (an armed timer stays armed until it fires, is reset or cancelled)
  and \<open>fresh_law\<close> (\<open>new\<close> returns memory not in use); each has a concrete instance in a witness.

  \<^bold>\<open>Interfaces.\<close> \<open>endpoint_sequence\<close> (a growable sequence; \<open>EndpointList\<close> provides it),
  \<open>ring_counter\<close> (ids step through the slots of the table; \<open>next_id\<close>), \<open>session_callbacks\<close> and
  \<open>timed_callbacks\<close> (closures keep the table's invariant, its books and its armed timers),
  \<open>frame_callbacks\<close> (closures keep what the manager never touches), \<open>core_callbacks\<close> and \<open>timed_core\<close>
  (the same for a worker's services, routing and closures; \<open>sublocale\<close>s hand them down to the
  manager), \<open>hyper_callbacks\<close> and \<open>timed_hyper\<close> (for the process), \<open>worker_laws\<close>, \<open>worker_frame\<close>, \<open>worker_keeps\<close>
  and \<open>hyper_frame\<close> (predicates on sent packets, calls served and contexts that every operation keeps),
  \<open>credited_sessions\<close> and \<open>credited_worker\<close> (closures are called with results that were reported),
  \<open>passive_sessions\<close>, \<open>passive_worker\<close> and \<open>passive_process\<close> (user code that makes no calls adds none). They are interpreted on
  \<open>nested_env\<close>, \<open>nested_core\<close>: environments in which user code makes any finite list of calls, answers
  and writes, and those calls may run user code again, down to a depth \<open>n\<close>. The theorems hold for
  every \<open>n\<close>, so for all user code whose calls back into the library are well founded; a closure that
  calls itself for ever does not return in C++ either. \<open>idle_env\<close> and \<open>quiet\<close> are the depth 0.

  \<^bold>\<open>What is shown.\<close>
  \<^item> Safety: in every reachable state of a manager, a worker or the process there is no access
    outside a pool, no null closure, no failed assert, no deleted context or array used; every
    worker of a running process is in a state it reaches alone, so its theorems hold there.
  \<^item> Accounting: closures handed over are those called, pending, queued or dropped for an
    oversized route, as multisets; exactly those, none called twice, if user code makes no calls of its own.
  \<^item> Liveness: in infinite runs in which timers that stay armed fire and queued tasks are taken
    at some time, every closure is called and every synchronous caller is notified, whatever
    packets are lost, duplicated, reordered or forged; so the example client deletes every message.
  \<^item> Authenticity: over a network that does not make packets up, every response that arrives answers
    a request the receiver sent to the responder, and a closure is called with a result of a server
    only if a response to its own request reports it.
  \<^item> Function: one call from end to end over the bytes of both packets, also after sends that failed; retries
    in order and once each; late and duplicate events change nothing; redirection;
    allocation succeeds exactly if a node is free; ids repeat only after \<open>2 ^ 48\<close> steps.
  \<^item> Refinement: endpoint lists, with their memory, behave as lists and leak nothing; the public
    object follows a two-state automaton.
  \<^item> The generator: what it prints is well formed for \<open>io::Printer\<close>, braces balance, declared
    methods are defined, stub, dispatcher and prototypes agree, and a stub's call runs the user's method
    of that name, or the default.
  \<^item> The example programs: the client deletes each message once and leaks none, the counters of both
    add up but for what a reset loses, and a call from program to program brings back the profile.
  \<^item> Where the code does not do what it means to, the theorem states what it does: a request
    handled by a worker other than 0 is handled again by worker 0; routes of more than 65536
    endpoints lose their closure and block synchronous callers; with exactly 65536 the retry index wraps;
    headers of \<open>2 ^ 16\<close> bytes or more make packets nobody accepts; unparsable requests leave their context
    behind; messages without an arena are not freed; options may have fewer sessions than workers;
    self-assignment empties an endpoint list; the examples' counters lose what is counted between
    printing and resetting, and the server's failure counter is never counted up.

  \<^bold>\<open>Bounds and loops.\<close> \<open>Init\<close> and \<open>Start\<close> assume a pool of at most \<open>2 ^ 48\<close> nodes and \<open>2 ^ 47\<close> sessions,
  worker numbers below \<open>2 ^ 16 - 1\<close> (an id has 16 bits for the number plus one) and a random start
  below \<open>2 ^ 32\<close> (\<open>Env::Rand\<close> returns 32 bits). The loop that sizes the pool is \<open>while_option\<close>,
  since it need not end for larger sizes, and is shown to end within the bound; the one that sizes
  a heap array is \<open>while\<close>. Allocation loops over the pool once. Nothing else needs fuel. Messages
  are per worker: a worker reads and writes only messages it was handed.

  \<^bold>\<open>Concurrency.\<close> A worker runs one event at a time, as its thread does. The process interleaves events
  of all workers and of threads outside; a task queue is a list, and whether it accepts a task is
  up to the environment. Data shared without a queue (the service map) is written between events.

  \<^bold>\<open>Not modelled.\<close> The logging macros of \<^verbatim>\<open>env.h\<close> and the number of log lines; \<open>OutgoingRpcContext\<close>, declared
  in \<^verbatim>\<open>rpc_context.h\<close> and defined nowhere; the destructors of \<open>HyperRpc\<close>, \<open>RpcCore\<close> and \<open>RpcSessionManager\<close>,
  which are empty or belong to members; \<open>main\<close> of the examples, which only passes the flags on; the
  examples' token bucket, timer and sleeps, which choose when a round calls or prints (any order here); the \<^verbatim>\<open>test\<close> programs and the build files.
\<close>

end
